(* ===== verification/Prelude.thy ===== *)
theory Prelude
  imports Main "HOL-Library.Char_ord" "HOL-Library.List_Lexorder"
    "HOL-Library.Product_Lexorder" "HOL-Library.Multiset" "HOL-Library.Sublist" "HOL-Library.Word"
begin

text \<open>
  Shared material of the development: the names of the Rust types, the parts of Rust's standard
  library that the sources call (saturating and wrapping integers, durations, string
  splitting and number parsing, the \<open>?\<close> operator over a loop), and the generic lemmas
  on lists and maps the components use.

  A Rust \<open>String\<close> is a list of UTF-8 bytes here: an Isabelle \<open>char\<close> is one byte, so
  \<open>length\<close> is Rust's \<open>len()\<close> and the order of \<open>List_Lexorder\<close> is the byte order of
  \<open>str\<close>. A \<open>Vec<u8>\<close> is a \<open>string\<close> for the same reason.
\<close>

named_theorems rust_defs \<open>definitions of the modelled standard library\<close>

section \<open>Type names\<close>

type_synonym i64 = int \<comment> \<open>\<open>i64\<close>: saturation and wrapping are written out where they occur\<close>
type_synonym u64 = nat
type_synonym u32 = nat
type_synonym usize = nat
type_synonym bytes = string
type_synonym duration = nat \<comment> \<open>\<open>std::time::Duration\<close> in nanoseconds\<close>
type_synonym ulid = "128 word"
type_synonym 'v hash_map = "string \<Rightarrow> 'v option" \<comment> \<open>\<open>HashMap<String, V>\<close>\<close>

section \<open>Integers\<close>

definition i64_max :: i64 where
  [rust_defs]: "i64_max = 2 ^ 63 - 1"

definition i64_min :: i64 where
  [rust_defs]: "i64_min = - (2 ^ 63)"

definition u64_max :: u64 where
  [rust_defs]: "u64_max = 2 ^ 64 - 1"

definition u32_max :: u32 where
  [rust_defs]: "u32_max = 2 ^ 32 - 1"

definition in_i64 :: "int \<Rightarrow> bool" where
  [rust_defs]: "in_i64 x \<longleftrightarrow> i64_min \<le> x \<and> x \<le> i64_max"

definition sat_i64 :: "int \<Rightarrow> i64" where
  [rust_defs]: "sat_i64 x = max i64_min (min i64_max x)"

definition saturating_sub :: "i64 \<Rightarrow> i64 \<Rightarrow> i64" where
  [rust_defs]: "saturating_sub a b = sat_i64 (a - b)"

definition saturating_add :: "i64 \<Rightarrow> i64 \<Rightarrow> i64" where
  [rust_defs]: "saturating_add a b = sat_i64 (a + b)"

definition wrap_i64 :: "int \<Rightarrow> i64" where
  [rust_defs]: "wrap_i64 x = (x + 2 ^ 63) mod 2 ^ 64 - 2 ^ 63"

definition wrap_u64 :: "nat \<Rightarrow> u64" where
  [rust_defs]: "wrap_u64 n = n mod 2 ^ 64"

text \<open>The casts \<open>u64 as i64\<close> and \<open>i64 as u64\<close>, and \<open>i64::try_from(n).unwrap_or(i64::MAX)\<close>.\<close>

definition u64_as_i64 :: "u64 \<Rightarrow> i64" where
  [rust_defs]: "u64_as_i64 n = wrap_i64 (int n)"

definition i64_as_u64 :: "i64 \<Rightarrow> u64" where
  [rust_defs]: "i64_as_u64 x = nat (x mod 2 ^ 64)"

definition i64_try_from :: "nat \<Rightarrow> i64" where
  [rust_defs]: "i64_try_from n = (if int n \<le> i64_max then int n else i64_max)"

text \<open>Rust's signed division truncates towards zero.\<close>

definition trunc_div :: "int \<Rightarrow> int \<Rightarrow> int" where
  [rust_defs]: "trunc_div a b = sgn a * sgn b * (\<bar>a\<bar> div \<bar>b\<bar>)"

lemma in_i64_sat [simp]: "in_i64 (sat_i64 x)"
  by (simp add: rust_defs)

lemma sat_i64_id [simp]: "in_i64 x \<Longrightarrow> sat_i64 x = x"
  by (simp add: rust_defs)

lemma saturating_sub_mono: "a \<le> a' \<Longrightarrow> saturating_sub a b \<le> saturating_sub a' b"
  by (simp add: saturating_sub_def sat_i64_def)

lemma saturating_add_mono: "a \<le> a' \<Longrightarrow> saturating_add a b \<le> saturating_add a' b"
  by (simp add: saturating_add_def sat_i64_def)

lemma saturating_sub_le: "0 \<le> b \<Longrightarrow> i64_min \<le> a \<Longrightarrow> saturating_sub a b \<le> a"
  by (simp add: saturating_sub_def sat_i64_def)

lemma in_i64_wrap: "in_i64 (wrap_i64 x)"
proof -
  have "0 \<le> (x + 2 ^ 63) mod 2 ^ 64" "(x + 2 ^ 63) mod 2 ^ 64 < (2::int) ^ 64"
    by simp_all
  then show ?thesis by (simp add: rust_defs)
qed

lemma wrap_i64_id: "in_i64 x \<Longrightarrow> wrap_i64 x = x"
  by (simp add: rust_defs)

lemma i64_as_u64_as_i64: "n \<le> u64_max \<Longrightarrow> i64_as_u64 (u64_as_i64 n) = n"
proof -
  assume "n \<le> u64_max"
  then have n: "int n < 2 ^ 64" by (simp add: u64_max_def)
  have "wrap_i64 (int n) mod 2 ^ 64 = int n mod 2 ^ 64"
    by (simp add: wrap_i64_def mod_simps)
  also have "\<dots> = int n" using n by simp
  finally show ?thesis by (simp add: i64_as_u64_def u64_as_i64_def)
qed

lemma i64_try_from_le: "i64_try_from n \<le> int n"
  by (simp add: i64_try_from_def)

lemma i64_try_from_nonneg [simp]: "0 \<le> i64_try_from n"
  by (simp add: i64_try_from_def i64_max_def)

section \<open>Durations\<close>

definition as_millis :: "duration \<Rightarrow> nat" where
  [rust_defs]: "as_millis d = d div 10 ^ 6"

definition as_secs :: "duration \<Rightarrow> nat" where
  [rust_defs]: "as_secs d = d div 10 ^ 9"

definition from_secs :: "u64 \<Rightarrow> duration" where
  [rust_defs]: "from_secs n = n * 10 ^ 9"

definition from_millis :: "u64 \<Rightarrow> duration" where
  [rust_defs]: "from_millis n = n * 10 ^ 6"

lemma as_millis_from_secs [simp]: "as_millis (from_secs n) = n * 1000"
  by (simp add: rust_defs)

lemma as_millis_from_millis [simp]: "as_millis (from_millis n) = n"
  by (simp add: rust_defs)

lemma as_millis_mono: "a \<le> b \<Longrightarrow> as_millis a \<le> as_millis b"
  by (simp add: as_millis_def div_le_mono)

section \<open>Strings\<close>

text \<open>\<open>str::split_once(c)\<close>: the parts before and after the first \<open>c\<close>.\<close>

fun split_once :: "char \<Rightarrow> string \<Rightarrow> (string \<times> string) option" where
  "split_once c [] = None"
| "split_once c (x # xs) =
     (if x = c then Some ([], xs)
      else map_option (\<lambda>(a, b). (x # a, b)) (split_once c xs))"

text \<open>\<open>str::split(c)\<close>: always at least one part.\<close>

fun split_on :: "char \<Rightarrow> string \<Rightarrow> string list" where
  "split_on c [] = [[]]"
| "split_on c (x # xs) =
     (if x = c then [] # split_on c xs
      else (case split_on c xs of [] \<Rightarrow> [[x]] | p # ps \<Rightarrow> (x # p) # ps))"

fun join_with :: "string \<Rightarrow> string list \<Rightarrow> string" where
  "join_with sep [] = []"
| "join_with sep [p] = p"
| "join_with sep (p # q # ps) = p @ sep @ join_with sep (q # ps)"

fun strip_prefix :: "string \<Rightarrow> string \<Rightarrow> string option" where
  "strip_prefix [] s = Some s"
| "strip_prefix (p # ps) [] = None"
| "strip_prefix (p # ps) (x # xs) = (if p = x then strip_prefix ps xs else None)"

definition is_ascii_digit :: "char \<Rightarrow> bool" where
  [rust_defs]: "is_ascii_digit c \<longleftrightarrow> 48 \<le> (of_char c :: nat) \<and> (of_char c :: nat) \<le> 57"

definition digit_val :: "char \<Rightarrow> nat" where
  [rust_defs]: "digit_val c = of_char c - 48"

text \<open>
  \<open>str::parse\<close> at an unsigned type with the given maximum: an optional \<open>+\<close>, then at
  least one digit and nothing else, and no overflow.
\<close>

definition parse_uint :: "nat \<Rightarrow> string \<Rightarrow> nat option" where
  "parse_uint mx s =
     (let ds = (case s of c # cs \<Rightarrow> if c = CHR ''+'' then cs else s | [] \<Rightarrow> s)
      in if ds = [] \<or> \<not> list_all is_ascii_digit ds then None
         else let n = foldl (\<lambda>a c. 10 * a + digit_val c) 0 ds
              in if n \<le> mx then Some n else None)"

text \<open>
  The UTF-8 encodings of the characters with Unicode's \<open>White_Space\<close> property, which
  \<open>str::trim\<close> removes at both ends.
\<close>

definition white_space :: "string list" where
  [rust_defs]: "white_space =
     map (\<lambda>n. [char_of (n::nat)]) [9, 10, 11, 12, 13, 32]
     @ map (map (char_of :: nat \<Rightarrow> char))
       ([[194, 133], [194, 160], [225, 154, 128]]
        @ map (\<lambda>k. [226, 128, k]) ([128..<139] @ [168, 169, 175])
        @ [[226, 129, 159], [227, 128, 128]])"

definition strip_one :: "string list \<Rightarrow> string \<Rightarrow> string option" where
  "strip_one ws s = (case find (\<lambda>w. prefix w s) ws of
     None \<Rightarrow> None | Some w \<Rightarrow> if w = [] then None else Some (drop (length w) s))"

lemma strip_one_shorter: "strip_one ws s = Some s' \<Longrightarrow> length s' < length s"
  by (auto simp: strip_one_def find_Some_iff prefix_def split: option.splits if_splits)

function strip_all :: "string list \<Rightarrow> string \<Rightarrow> string" where
  "strip_all ws s = (case strip_one ws s of None \<Rightarrow> s | Some s' \<Rightarrow> strip_all ws s')"
  by pat_completeness auto
termination
  by (relation "measure (\<lambda>(ws, s). length s)") (auto dest: strip_one_shorter)

declare strip_all.simps [simp del]

definition trim :: "string \<Rightarrow> string" where
  "trim s = rev (strip_all (map rev white_space) (rev (strip_all white_space s)))"

text \<open>\<open>str::replace\<close> of one character by a string.\<close>

definition replace_char :: "char \<Rightarrow> string \<Rightarrow> string \<Rightarrow> string" where
  "replace_char c r s = concat (map (\<lambda>x. if x = c then r else [x]) s)"

text \<open>Decimal formatting: \<open>{}\<close> and, with zero padding to a width, \<open>{:0w}\<close>.\<close>

fun show_nat :: "nat \<Rightarrow> string" where
  "show_nat n = (if n < 10 then [char_of (48 + n)]
     else show_nat (n div 10) @ [char_of (48 + n mod 10)])"

declare show_nat.simps [simp del]

definition pad_zero :: "nat \<Rightarrow> string \<Rightarrow> string" where
  "pad_zero w s = replicate (w - length s) (CHR ''0'') @ s"

definition format_zero :: "nat \<Rightarrow> int \<Rightarrow> string" where
  "format_zero w x = (if x < 0 then CHR ''-'' # pad_zero (w - 1) (show_nat (nat (- x)))
     else pad_zero w (show_nat (nat x)))"

lemma split_once_Some:
  "split_once c s = Some (a, b) \<longleftrightarrow> s = a @ c # b \<and> c \<notin> set a"
proof (induction s arbitrary: a b)
  case Nil
  then show ?case by simp
next
  case (Cons x xs)
  show ?case
  proof (cases "x = c")
    case True
    then show ?thesis by (cases a) auto
  next
    case False
    have "split_once c (x # xs) = Some (a, b) \<longleftrightarrow>
        (\<exists>a'. a = x # a' \<and> split_once c xs = Some (a', b))"
      using False by auto
    also have "\<dots> \<longleftrightarrow> x # xs = a @ c # b \<and> c \<notin> set a"
      using False Cons.IH by (cases a) auto
    finally show ?thesis .
  qed
qed

lemma split_once_None: "split_once c s = None \<longleftrightarrow> c \<notin> set s"
  by (induction s) auto

lemma split_once_notin [simp]: "c \<notin> set s \<Longrightarrow> split_once c s = None"
  by (simp add: split_once_None)

lemma split_on_not_Nil [simp]: "split_on c s \<noteq> []"
  by (induction s) (auto split: list.splits)

lemma join_split_on: "join_with [c] (split_on c s) = s"
proof (induction s)
  case Nil
  then show ?case by simp
next
  case (Cons x xs)
  obtain p ps where ps: "split_on c xs = p # ps"
    by (cases "split_on c xs") auto
  have "join_with [c] ((x # p) # ps) = x # join_with [c] (p # ps)"
    by (cases ps) auto
  with Cons ps show ?case by auto
qed

lemma split_on_parts: "p \<in> set (split_on c s) \<Longrightarrow> c \<notin> set p"
proof (induction s arbitrary: p)
  case Nil
  then show ?case by simp
next
  case (Cons x xs)
  then show ?case by (cases "split_on c xs") (auto split: if_splits)
qed

lemma split_on_append: "split_on c (a @ c # b) = split_on c a @ split_on c b"
proof (induction a)
  case (Cons x a)
  then show ?case by (cases "split_on c a") auto
qed simp

lemma split_on_notin: "c \<notin> set s \<Longrightarrow> split_on c s = [s]"
  by (induction s) auto

lemma strip_prefix_Some: "strip_prefix p s = Some r \<longleftrightarrow> s = p @ r"
  by (induction p s rule: strip_prefix.induct) auto

lemma char_of_nat_digit:
  "n < 10 \<Longrightarrow> is_ascii_digit (char_of (48 + n)) \<and> digit_val (char_of (48 + n)) = n \<and> char_of (48 + n) \<noteq> CHR ''+''"
proof -
  assume "n < 10"
  then have code: "(of_char (char_of (48 + n)) :: nat) = 48 + n" by simp
  have plus: "(of_char (CHR ''+'') :: nat) = 43" by simp
  have "48 + n \<noteq> (43 :: nat)" by simp
  then have "char_of (48 + n) \<noteq> CHR ''+''" using code plus by metis
  with code show ?thesis using \<open>n < 10\<close> by (simp add: is_ascii_digit_def digit_val_def)
qed

lemma show_nat_digits:
  "show_nat n \<noteq> [] \<and> list_all is_ascii_digit (show_nat n) \<and> hd (show_nat n) \<noteq> CHR ''+''
    \<and> foldl (\<lambda>a c. 10 * a + digit_val c) 0 (show_nat n) = n"
proof (induction n rule: show_nat.induct)
  case (1 n)
  show ?case
  proof (cases "n < 10")
    case True
    then show ?thesis using char_of_nat_digit [of n] by (subst (1 2 3 4) show_nat.simps) simp
  next
    case False
    have "n mod 10 < 10" by simp
    with False show ?thesis using 1 char_of_nat_digit [of "n mod 10"] by (subst (1 2 3 4) show_nat.simps) auto
  qed
qed

text \<open>Parsing undoes decimal formatting.\<close>

lemma parse_uint_show_nat: "n \<le> mx \<Longrightarrow> parse_uint mx (show_nat n) = Some n"
  using show_nat_digits [of n]
  by (cases "show_nat n") (auto simp: parse_uint_def Let_def)

section \<open>Bytes\<close>

text \<open>\<open>to_le_bytes\<close> of a \<open>w\<close>-byte unsigned integer.\<close>

fun le_bytes :: "nat \<Rightarrow> nat \<Rightarrow> bytes" where
  "le_bytes 0 n = []"
| "le_bytes (Suc w) n = char_of (n mod 256) # le_bytes w (n div 256)"

fun of_le_bytes :: "bytes \<Rightarrow> nat" where
  "of_le_bytes [] = 0"
| "of_le_bytes (b # bs) = of_char b + 256 * of_le_bytes bs"

lemma length_le_bytes [simp]: "length (le_bytes w n) = w"
  by (induction w arbitrary: n) auto

lemma of_le_bytes_le_bytes: "n < 256 ^ w \<Longrightarrow> of_le_bytes (le_bytes w n) = n"
proof (induction w arbitrary: n)
  case (Suc w)
  then have "n div 256 < 256 ^ w" by (simp add: less_mult_imp_div_less mult.commute)
  with Suc.IH show ?case by simp
qed simp

lemma le_bytes_inj: "m < 256 ^ w \<Longrightarrow> n < 256 ^ w \<Longrightarrow> le_bytes w m = le_bytes w n \<longleftrightarrow> m = n"
  by (metis of_le_bytes_le_bytes)

lemma of_le_bytes_bound: "of_le_bytes bs < 256 ^ length bs"
proof (induction bs)
  case (Cons b bs)
  have "(of_char b :: nat) < 256" by (metis of_char_mod_256 mod_less_divisor zero_less_numeral)
  then have "of_le_bytes (b # bs) < 256 + 256 * of_le_bytes bs" by simp
  also have "\<dots> = 256 * (of_le_bytes bs + 1)" by simp
  also have "\<dots> \<le> 256 * 256 ^ length bs" using Cons by (intro mult_le_mono2) simp
  finally show ?case by simp
qed simp

lemma le_bytes_of_le_bytes: "le_bytes (length bs) (of_le_bytes bs) = bs"
proof (induction bs)
  case (Cons b bs)
  have "(of_char b :: nat) < 256" by (metis of_char_mod_256 mod_less_divisor zero_less_numeral)
  with Cons show ?case by simp
qed simp

section \<open>Results\<close>

text \<open>
  A \<open>Result<T, E>\<close> is a sum with the error on the left. \<open>traverse\<close> is a loop that pushes
  \<open>f(x)?\<close> for each element: it stops at the first error.
\<close>

fun traverse :: "('a \<Rightarrow> 'e + 'b) \<Rightarrow> 'a list \<Rightarrow> 'e + 'b list" where
  "traverse f [] = Inr []"
| "traverse f (x # xs) =
     (case f x of Inl e \<Rightarrow> Inl e
      | Inr y \<Rightarrow> (case traverse f xs of Inl e \<Rightarrow> Inl e | Inr ys \<Rightarrow> Inr (y # ys)))"

lemma traverse_Inr_iff:
  "traverse f xs = Inr ys \<longleftrightarrow> list_all2 (\<lambda>x y. f x = Inr y) xs ys"
proof (induction xs arbitrary: ys)
  case Nil
  then show ?case by auto
next
  case (Cons x xs)
  show ?case
  proof (cases "traverse f xs")
    case (Inl e)
    then have "\<not> list_all2 (\<lambda>x y. f x = Inr y) xs zs" for zs
      using Cons.IH [of zs] by simp
    with Inl show ?thesis by (cases ys) (auto split: sum.splits)
  next
    case (Inr zs)
    then have "list_all2 (\<lambda>x y. f x = Inr y) xs us \<longleftrightarrow> us = zs" for us
      using Cons.IH [of us] by auto
    with Inr show ?thesis by (cases ys) (auto split: sum.splits)
  qed
qed

lemma traverse_map_Inr: "\<forall>x \<in> set xs. f x = Inr (g x) \<Longrightarrow> traverse f xs = Inr (map g xs)"
  by (simp add: traverse_Inr_iff list_all2_conv_all_nth)

lemma traverse_length: "traverse f xs = Inr ys \<Longrightarrow> length ys = length xs"
  by (auto simp: traverse_Inr_iff dest: list_all2_lengthD)

fun is_ok :: "'e + 'a \<Rightarrow> bool" where
  "is_ok (Inl _) = False"
| "is_ok (Inr _) = True"

section \<open>Lists and maps\<close>

lemma all_less_add: "(\<forall>i < m + n. P i) \<longleftrightarrow> (\<forall>i < m. P i) \<and> (\<forall>i < n. P (m + i))" for m n :: nat
  by (metis add_diff_inverse_nat nat_add_left_cancel_less trans_less_add1)

text \<open>\<open>Iterator::position\<close>.\<close>

fun position :: "('a \<Rightarrow> bool) \<Rightarrow> 'a list \<Rightarrow> nat option" where
  "position P [] = None"
| "position P (x # xs) = (if P x then Some 0 else map_option Suc (position P xs))"

lemma position_Some: "position P xs = Some i \<Longrightarrow> i < length xs \<and> P (xs ! i)"
  by (induction xs arbitrary: i) (auto split: if_splits)

lemma position_None: "position P xs = None \<longleftrightarrow> (\<forall>x \<in> set xs. \<not> P x)"
  by (induction xs) auto

lemma drop_dropWhile_count:
  assumes "n \<le> length xs"
  shows "n + length (takeWhile P (drop n xs)) = length xs - length (dropWhile P (drop n xs))"
proof -
  have "length (takeWhile P (drop n xs)) + length (dropWhile P (drop n xs)) = length (drop n xs)"
    by (metis length_append takeWhile_dropWhile_id)
  with assms show ?thesis by simp
qed

lemma suffix_drop_dropWhile: "suffix (dropWhile P (drop n xs)) xs"
  using suffix_drop suffix_dropWhile suffix_order.trans by blast

end
