(* ===== verification/Core_Types.thy ===== *)
theory Core_Types
  imports Prelude
begin

text \<open>
  The data model of \<open>crates/core\<close>: JSON values, events and links, the source and kind
  descriptors with their merge (\<open>resolve\<close>), and the \<open>name@version\<close> kind references.
  \<open>new_event_id\<close> and \<open>now_ms_utc\<close> read the system's random source and clock: the
  operations that call them take the value they return as an argument.
\<close>

section \<open>JSON values\<close>

text \<open>
  \<open>serde_json::Value\<close>. A number keeps serde's three representations; a float is its
  bit pattern. An object is the list of its entries in iteration order.
\<close>

datatype json_number = PosInt u64 | NegInt i64 | Float64 nat

datatype json =
    Null
  | Bool bool
  | Number json_number
  | String string
  | Array "json list"
  | Object "(string \<times> json) list"

definition json_get :: "json \<Rightarrow> string \<Rightarrow> json option" where
  \<comment> \<open>\<open>Value::get\<close> with a string key\<close>
  "json_get v k = (case v of Object es \<Rightarrow> map_of es k | _ \<Rightarrow> None)"

section \<open>Events\<close>

record link =
  rel :: string
  uri :: string
  mime :: "string option"
  link_bytes :: "i64 option"
  sha256 :: "string option"

record event =
  event_id :: ulid
  source_id :: string
  kind :: string
  ts_ms_utc :: i64
  semantic :: json
  links :: "link list option"
  trace_id :: "string option"
  ingest_ts_ms_utc :: "i64 option"
  seq :: "u64 option"
  producer_id :: "string option"
  schema_invalid :: "bool option"

section \<open>Descriptors\<close>

record source_descriptor =
  sd_source_id :: string
  sd_kinds :: "string list"
  sd_description :: string
  sd_usage :: string
  sd_caveats :: string
  sd_semantic_schema :: "json option"
  sd_units :: "string option"
  sd_sampling_hint_ms :: "i64 option"
  sd_freshness_ttl_ms :: "i64 option"
  sd_location :: "string option"
  sd_updated_ts_ms_utc :: i64

record kind_descriptor =
  kd_kind :: string
  kd_version :: string
  kd_description :: string
  kd_usage :: string
  kd_caveats :: string
  kd_semantic_schema :: "json option"
  kd_units :: "string option"
  kd_updated_ts_ms_utc :: i64

record resolved_descriptor =
  rd_source_id :: string
  rd_kind :: string
  rd_kind_version :: string
  rd_description :: string
  rd_usage :: string
  rd_caveats :: string
  rd_semantic_schema :: "json option"
  rd_units :: "string option"
  rd_sampling_hint_ms :: "i64 option"
  rd_freshness_ttl_ms :: "i64 option"
  rd_location :: "string option"

definition pick :: "string \<Rightarrow> string \<Rightarrow> string" where
  "pick src fallback = (if src = [] then fallback else src)"

definition or_else :: "'a option \<Rightarrow> 'a option \<Rightarrow> 'a option" where
  [rust_defs]: "or_else a b = (case a of Some x \<Rightarrow> Some x | None \<Rightarrow> b)"

definition resolve :: "source_descriptor \<Rightarrow> kind_descriptor \<Rightarrow> resolved_descriptor" where
  "resolve source knd =
     \<lparr> rd_source_id = sd_source_id source,
       rd_kind = kd_kind knd,
       rd_kind_version = kd_version knd,
       rd_description = pick (sd_description source) (kd_description knd),
       rd_usage = pick (sd_usage source) (kd_usage knd),
       rd_caveats = pick (sd_caveats source) (kd_caveats knd),
       rd_semantic_schema = or_else (sd_semantic_schema source) (kd_semantic_schema knd),
       rd_units = or_else (sd_units source) (kd_units knd),
       rd_sampling_hint_ms = sd_sampling_hint_ms source,
       rd_freshness_ttl_ms = sd_freshness_ttl_ms source,
       rd_location = sd_location source \<rparr>"

section \<open>Kind references\<close>

record kind_ref =
  kr_name :: string
  kr_version :: "string option"

text \<open>\<open>Error::InvalidKindRef\<close>, by the three messages \<open>from_str\<close> builds.\<close>

datatype kind_ref_error = EmptyString | MissingName string | MissingVersion string

definition kind_ref_new :: "string \<Rightarrow> kind_ref" where
  "kind_ref_new n = \<lparr> kr_name = n, kr_version = None \<rparr>"

definition kind_ref_with_version :: "string \<Rightarrow> string \<Rightarrow> kind_ref" where
  "kind_ref_with_version n v = \<lparr> kr_name = n, kr_version = Some v \<rparr>"

definition kind_ref_from_str :: "string \<Rightarrow> kind_ref_error + kind_ref" where
  "kind_ref_from_str s =
     (if s = [] then Inl EmptyString
      else case split_once CHR ''@'' s of
        None \<Rightarrow> Inr \<lparr> kr_name = s, kr_version = None \<rparr>
      | Some (name, version) \<Rightarrow>
          if name = [] then Inl (MissingName s)
          else if version = [] then Inl (MissingVersion s)
          else Inr \<lparr> kr_name = name, kr_version = Some version \<rparr>)"

definition kind_ref_display :: "kind_ref \<Rightarrow> string" where
  "kind_ref_display k = (case kr_version k of
     None \<Rightarrow> kr_name k
   | Some v \<Rightarrow> kr_name k @ ''@'' @ v)"

text \<open>
  The bare name of a kind, \<open>kind.split_once('@').map_or(kind, |(n, _)| n)\<close>, which
  retention matching and the embed selector share.
\<close>

definition bare_kind :: "string \<Rightarrow> string" where
  "bare_kind k = (case split_once CHR ''@'' k of None \<Rightarrow> k | Some (n, _) \<Rightarrow> n)"

section \<open>Facts\<close>

text \<open>A minimal event, as the unit tests build them; used where a concrete input is needed.\<close>

definition sample_event :: "ulid \<Rightarrow> string \<Rightarrow> string \<Rightarrow> i64 \<Rightarrow> event" where
  "sample_event i s k t =
     \<lparr> event_id = i, source_id = s, kind = k, ts_ms_utc = t, semantic = String ''{}'',
       links = None, trace_id = None, ingest_ts_ms_utc = Some t, seq = Some 1,
       producer_id = None, schema_invalid = None \<rparr>"

lemma sample_event_simps [simp]:
  "event_id (sample_event i s k t) = i" "source_id (sample_event i s k t) = s"
  "kind (sample_event i s k t) = k" "ts_ms_utc (sample_event i s k t) = t"
  "semantic (sample_event i s k t) = String ''{}''" "links (sample_event i s k t) = None"
  "ingest_ts_ms_utc (sample_event i s k t) = Some t" "seq (sample_event i s k t) = Some 1"
  "trace_id (sample_event i s k t) = None" "producer_id (sample_event i s k t) = None"
  "schema_invalid (sample_event i s k t) = None"
  by (simp_all add: sample_event_def)

text \<open>The references \<open>from_str\<close> can produce: a non-empty name without \<open>@\<close>, a non-empty version.\<close>

definition kind_ref_wf :: "kind_ref \<Rightarrow> bool" where
  "kind_ref_wf k \<longleftrightarrow> kr_name k \<noteq> [] \<and> CHR ''@'' \<notin> set (kr_name k)
     \<and> kr_version k \<noteq> Some []"

lemma kind_ref_parse_display:
  assumes "kind_ref_from_str s = Inr k"
  shows "kind_ref_wf k" and "kind_ref_display k = s"
  using assms
  by (auto simp: kind_ref_from_str_def kind_ref_wf_def kind_ref_display_def split_once_Some
      split_once_None split: if_splits option.split_asm)

lemma kind_ref_display_parse:
  assumes "kind_ref_wf k"
  shows "kind_ref_from_str (kind_ref_display k) = Inr k"
proof (cases "kr_version k")
  case None
  then have "kind_ref_display k = kr_name k" by (simp add: kind_ref_display_def)
  with None assms show ?thesis
    by (cases k) (simp add: kind_ref_from_str_def kind_ref_wf_def)
next
  case (Some v)
  have "split_once CHR ''@'' (kind_ref_display k) = Some (kr_name k, v)"
    using assms Some by (simp add: split_once_Some kind_ref_display_def kind_ref_wf_def)
  with Some assms show ?thesis
    by (cases k) (auto simp: kind_ref_from_str_def kind_ref_display_def kind_ref_wf_def)
qed

lemma bare_kind_from_str:
  "kind_ref_from_str s = Inr k \<Longrightarrow> bare_kind s = kr_name k"
  by (auto simp: kind_ref_from_str_def bare_kind_def split: if_splits option.splits)

lemma bare_kind_versioned: "CHR ''@'' \<notin> set n \<Longrightarrow> bare_kind (n @ CHR ''@'' # v) = n"
proof -
  assume "CHR ''@'' \<notin> set n"
  then have "split_once CHR ''@'' (n @ CHR ''@'' # v) = Some (n, v)"
    by (simp add: split_once_Some)
  then show ?thesis by (simp add: bare_kind_def)
qed

lemma bare_kind_idem: "bare_kind (bare_kind k) = bare_kind k"
  by (auto simp: bare_kind_def split_once_Some split: option.splits)

text \<open>
  Parsing a kind reference accepts exactly the display forms of well-formed references
  (a non-empty name without \<open>@\<close> and, if there is one, a non-empty version), and parsing and
  \<open>Display\<close> are inverse to each other on them; every other string is an error.
\<close>

lemma kind_ref_roundtrip:
  "kind_ref_from_str s = Inr k \<longleftrightarrow> kind_ref_wf k \<and> kind_ref_display k = s"
  using kind_ref_parse_display kind_ref_display_parse by blast

text \<open>
  The merge rule of descriptors: the text fields come from the source unless it leaves them
  empty, the schema and the units come from the source whenever it sets them, and never from
  both sides; identity fields and hints are never taken from the other descriptor.
\<close>

lemma resolve_merge_rule:
  "rd_source_id (resolve s k) = sd_source_id s \<and> rd_kind (resolve s k) = kd_kind k
   \<and> rd_kind_version (resolve s k) = kd_version k
   \<and> rd_description (resolve s k)
       = (if sd_description s \<noteq> [] then sd_description s else kd_description k)
   \<and> rd_usage (resolve s k) = (if sd_usage s \<noteq> [] then sd_usage s else kd_usage k)
   \<and> rd_caveats (resolve s k) = (if sd_caveats s \<noteq> [] then sd_caveats s else kd_caveats k)
   \<and> rd_semantic_schema (resolve s k)
       = (if sd_semantic_schema s = None then kd_semantic_schema k else sd_semantic_schema s)
   \<and> rd_units (resolve s k) = (if sd_units s = None then kd_units k else sd_units s)
   \<and> rd_freshness_ttl_ms (resolve s k) = sd_freshness_ttl_ms s"
  by (auto simp: resolve_def pick_def or_else_def split: option.splits)

end
