(* ===== verification/Hot_Ring.thy ===== *)
theory Hot_Ring
  imports Core_Types
begin

text \<open>
  \<open>crates/store/src/hot_ring.rs\<close>: one bounded ring of events per \<open>(source_id, kind)\<close>.
  \<open>push\<close> is the only operation that changes a ring: it appends, evicts from the front while the
  ring is longer than \<open>max_events\<close>, then evicts from the front while the front event is older
  than \<open>max_age\<close>. The two locks are taken inside one call, so a call is one step here; the
  clock reading \<open>now\<close> is an argument.
\<close>

section \<open>State and operations\<close>

record hot_ring_config =
  max_events :: usize
  max_age :: duration

definition hot_ring_config_default :: hot_ring_config where
  "hot_ring_config_default = \<lparr> max_events = 256, max_age = from_secs 60 \<rparr>"

type_synonym ring_key = "string \<times> string"
type_synonym ring = "event list" \<comment> \<open>front of the deque first\<close>

record hot_rings =
  config :: hot_ring_config
  rings :: "ring_key \<Rightarrow> ring option"

definition hot_rings_new :: "hot_ring_config \<Rightarrow> hot_rings" where
  "hot_rings_new c = \<lparr> config = c, rings = Map.empty \<rparr>"

definition event_key :: "event \<Rightarrow> ring_key" where
  "event_key e = (source_id e, kind e)"

text \<open>The first eviction loop: \<open>while r.events.len() > max_events\<close>.\<close>

fun evict_len :: "usize \<Rightarrow> ring \<Rightarrow> nat \<Rightarrow> ring \<times> nat" where
  "evict_len mx [] evicted = ([], evicted)"
| "evict_len mx (e # es) evicted =
     (if length (e # es) > mx then evict_len mx es (evicted + 1) else (e # es, evicted))"

definition age_ref :: "event \<Rightarrow> i64" where
  "age_ref e = (case ingest_ts_ms_utc e of Some t \<Rightarrow> t | None \<Rightarrow> ts_ms_utc e)"

text \<open>The second eviction loop: \<open>while let Some(front)\<close>.\<close>

fun evict_age :: "i64 \<Rightarrow> ring \<Rightarrow> nat \<Rightarrow> ring \<times> nat" where
  "evict_age cutoff [] evicted = ([], evicted)"
| "evict_age cutoff (front # es) evicted =
     (if age_ref front < cutoff then evict_age cutoff es (evicted + 1)
      else (front # es, evicted))"

definition ring_cutoff :: "hot_ring_config \<Rightarrow> i64 \<Rightarrow> i64" where
  "ring_cutoff c now = saturating_sub now (i64_try_from (as_millis (max_age c)))"

definition hot_push :: "i64 \<Rightarrow> event \<Rightarrow> hot_rings \<Rightarrow> hot_rings \<times> nat" where
  "hot_push now e hr =
     (let key = event_key e;
          r = (case rings hr key of Some r \<Rightarrow> r | None \<Rightarrow> []);
          (r1, n1) = evict_len (max_events (config hr)) (r @ [e]) 0;
          (r2, n2) = evict_age (ring_cutoff (config hr) now) r1 n1
      in (hr\<lparr> rings := (rings hr)(key \<mapsto> r2) \<rparr>, n2))"

definition hot_latest :: "hot_rings \<Rightarrow> string \<Rightarrow> string \<Rightarrow> event option" where
  "hot_latest hr s k = (case rings hr (s, k) of
     None \<Rightarrow> None
   | Some r \<Rightarrow> if r = [] then None else Some (last r))"

definition hot_snapshot :: "hot_rings \<Rightarrow> string \<Rightarrow> string \<Rightarrow> event list" where
  "hot_snapshot hr s k = (case rings hr (s, k) of None \<Rightarrow> [] | Some r \<Rightarrow> r)"

definition hot_keys :: "hot_rings \<Rightarrow> ring_key set" where
  "hot_keys hr = dom (rings hr)"

section \<open>The eviction loops\<close>

lemma evict_len_eq: "evict_len mx r n = (drop (length r - mx) r, n + (length r - mx))"
proof (induction mx r n rule: evict_len.induct)
  case (2 mx e es n)
  then show ?case by (auto simp: Suc_diff_le drop_Cons')
qed simp

lemma evict_age_eq:
  "evict_age c r n = (dropWhile (\<lambda>e. age_ref e < c) r, n + length (takeWhile (\<lambda>e. age_ref e < c) r))"
  by (induction c r n rule: evict_age.induct) auto

text \<open>The ring a push leaves, as one expression.\<close>

definition pushed :: "hot_ring_config \<Rightarrow> i64 \<Rightarrow> ring \<Rightarrow> event \<Rightarrow> ring" where
  "pushed c now r e = dropWhile (\<lambda>x. age_ref x < ring_cutoff c now)
     (drop (length r + 1 - max_events c) (r @ [e]))"

lemma hot_push_eq:
  "hot_push now e hr =
     (hr\<lparr> rings := (rings hr)(event_key e \<mapsto>
        pushed (config hr) now (hot_snapshot hr (source_id e) (kind e)) e) \<rparr>,
      length (hot_snapshot hr (source_id e) (kind e)) + 1
      - length (pushed (config hr) now (hot_snapshot hr (source_id e) (kind e)) e))"
proof -
  let ?r = "hot_snapshot hr (source_id e) (kind e)"
  let ?mx = "max_events (config hr)" and ?old = "\<lambda>x. age_ref x < ring_cutoff (config hr) now"
  have r: "(case rings hr (event_key e) of Some r \<Rightarrow> r | None \<Rightarrow> []) = ?r"
    by (simp add: hot_snapshot_def event_key_def split: option.splits)
  have "(length ?r + 1 - ?mx) + length (takeWhile ?old (drop (length ?r + 1 - ?mx) (?r @ [e])))
      = length ?r + 1 - length (pushed (config hr) now ?r e)"
    using drop_dropWhile_count [of "length ?r + 1 - ?mx" "?r @ [e]" ?old]
    by (simp add: pushed_def del: drop_append)
  then show ?thesis
    unfolding hot_push_def Let_def r evict_len_eq evict_age_eq case_prod_conv pushed_def
    by (simp del: drop_append)
qed

lemma pushed_suffix: "suffix (pushed c now r e) (r @ [e])"
  unfolding pushed_def by (rule suffix_drop_dropWhile)

lemma pushed_length: "length (pushed c now r e) \<le> max_events c"
proof -
  have "length (pushed c now r e) \<le> length (drop (length r + 1 - max_events c) (r @ [e]))"
    unfolding pushed_def by (rule length_dropWhile_le)
  then show ?thesis by simp
qed

lemma hot_snapshot_push:
  "hot_snapshot (fst (hot_push now e hr)) s k =
     (if (s, k) = event_key e then pushed (config hr) now (hot_snapshot hr s k) e
      else hot_snapshot hr s k)"
  by (auto simp: hot_push_eq hot_snapshot_def event_key_def)

lemma config_hot_push [simp]: "config (fst (hot_push now e hr)) = config hr"
  by (simp add: hot_push_eq)

section \<open>Invariant\<close>

text \<open>
  Every ring is within its count bound and holds only events of its own key.
\<close>

definition hot_inv :: "hot_rings \<Rightarrow> bool" where
  "hot_inv hr \<longleftrightarrow> (\<forall>s k. length (hot_snapshot hr s k) \<le> max_events (config hr)
     \<and> (\<forall>e \<in> set (hot_snapshot hr s k). event_key e = (s, k)))"

lemma hot_inv_new: "hot_inv (hot_rings_new c)"
  by (simp add: hot_inv_def hot_rings_new_def hot_snapshot_def)

lemma hot_inv_push:
  assumes "hot_inv hr"
  shows "hot_inv (fst (hot_push now e hr))"
proof -
  have "set (pushed (config hr) now r e) \<subseteq> insert e (set r)" for r
    using pushed_suffix [of "config hr" now r e] set_mono_suffix by fastforce
  with assms show ?thesis
    by (fastforce simp: hot_inv_def hot_snapshot_push pushed_length event_key_def)
qed

text \<open>Runs: a sequence of pushes, each with the clock reading it saw.\<close>

fun hot_run :: "hot_rings \<Rightarrow> (i64 \<times> event) list \<Rightarrow> hot_rings" where
  "hot_run hr [] = hr"
| "hot_run hr ((now, e) # ps) = hot_run (fst (hot_push now e hr)) ps"

lemma hot_run_snoc: "hot_run hr (ps @ [(now, e)]) = fst (hot_push now e (hot_run hr ps))"
  by (induction ps arbitrary: hr) auto

lemma hot_run_config [simp]: "config (hot_run hr ps) = config hr"
  by (induction ps arbitrary: hr) auto

lemma hot_run_inv: "hot_inv hr \<Longrightarrow> hot_inv (hot_run hr ps)"
  by (induction ps arbitrary: hr) (auto simp: hot_inv_push)

definition key_history :: "(i64 \<times> event) list \<Rightarrow> string \<Rightarrow> string \<Rightarrow> event list" where
  "key_history ps s k = filter (\<lambda>e. event_key e = (s, k)) (map snd ps)"

lemma hot_run_suffix: "suffix (hot_snapshot (hot_run (hot_rings_new c) ps) s k) (key_history ps s k)"
proof (induction ps rule: rev_induct)
  case Nil
  then show ?case by (simp add: hot_rings_new_def hot_snapshot_def)
next
  case (snoc p ps)
  obtain now e where p: "p = (now, e)" by (cases p)
  let ?hr = "hot_run (hot_rings_new c) ps"
  have hist: "key_history (ps @ [(now, e)]) s k
      = key_history ps s k @ (if event_key e = (s, k) then [e] else [])"
    by (simp add: key_history_def)
  show ?case
  proof (cases "event_key e = (s, k)")
    case True
    have "suffix (pushed (config ?hr) now (hot_snapshot ?hr s k) e) (hot_snapshot ?hr s k @ [e])"
      by (rule pushed_suffix)
    moreover have "suffix (hot_snapshot ?hr s k @ [e]) (key_history ps s k @ [e])"
      using snoc.IH by (auto simp: suffix_def)
    ultimately have "suffix (pushed (config ?hr) now (hot_snapshot ?hr s k) e) (key_history ps s k @ [e])"
      by (rule suffix_order.trans)
    with True show ?thesis
      by (simp add: p hot_run_snoc hot_snapshot_push hist)
  next
    case False
    with snoc.IH show ?thesis
      by (auto simp: p hot_run_snoc hot_snapshot_push hist)
  qed
qed

section \<open>Age\<close>

text \<open>
  With ingest times in arrival order, which the single normalizer task gives, the front is the
  oldest event, so evicting from the front leaves no expired event behind.
\<close>

lemma dropWhile_sorted_all:
  "sorted (map f xs) \<Longrightarrow> x \<in> set (dropWhile (\<lambda>y. f y < (c::'b::linorder)) xs) \<Longrightarrow> c \<le> f x"
proof (induction xs)
  case (Cons y ys)
  then show ?case by (auto split: if_splits)
qed simp

lemma sorted_pushed:
  assumes "sorted (map age_ref (r @ [e]))"
  shows "sorted (map age_ref (pushed c now r e))"
proof -
  from pushed_suffix obtain zs where "r @ [e] = zs @ pushed c now r e"
    by (metis suffix_def)
  with assms show ?thesis by (metis map_append sorted_append)
qed

lemma pushed_fresh:
  assumes "sorted (map age_ref (r @ [e]))" and "x \<in> set (pushed c now r e)"
  shows "ring_cutoff c now \<le> age_ref x"
proof -
  have "sorted (map age_ref (drop (length r + 1 - max_events c) (r @ [e])))"
    using assms(1) by (metis drop_map sorted_wrt_drop)
  then show ?thesis
    using assms(2) unfolding pushed_def by (rule dropWhile_sorted_all)
qed

section \<open>Properties\<close>

text \<open>
  C22. One push, on every branch: the ring of the event's key becomes the longest fresh part of
  the last \<open>max_events\<close> entries of the old ring with the event appended, every other ring is
  untouched, and the number returned is exactly how many events left the ring.
\<close>

theorem hot_push_effect:
  "hot_snapshot (fst (hot_push now e hr)) s k
     = (if (s, k) = event_key e
        then dropWhile (\<lambda>x. age_ref x < ring_cutoff (config hr) now)
               (drop (length (hot_snapshot hr s k) + 1 - max_events (config hr))
                 (hot_snapshot hr s k @ [e]))
        else hot_snapshot hr s k)
   \<and> snd (hot_push now e hr) + length (hot_snapshot (fst (hot_push now e hr)) (source_id e) (kind e))
     = length (hot_snapshot hr (source_id e) (kind e)) + 1"
proof -
  let ?r = "hot_snapshot hr (source_id e) (kind e)"
  have "length (pushed (config hr) now ?r e) \<le> length ?r + 1"
    using suffix_length_le [OF pushed_suffix [of "config hr" now ?r e]] by simp
  then have "snd (hot_push now e hr) + length (pushed (config hr) now ?r e) = length ?r + 1"
    by (simp add: hot_push_eq)
  then show ?thesis
    unfolding hot_snapshot_push pushed_def by (simp add: event_key_def)
qed

text \<open>
  Whatever is pushed, in whatever order and at whatever times, a snapshot of a key is a
  contiguous run of the most recent events pushed under that key, in push order, at most
  \<open>max_events\<close> long: separate keys never displace each other and nothing is reordered.
\<close>

lemma hot_ring_recent_window:
  "suffix (hot_snapshot (hot_run (hot_rings_new c) ps) s k) (key_history ps s k)
   \<and> length (hot_snapshot (hot_run (hot_rings_new c) ps) s k) \<le> max_events c"
  using hot_run_suffix hot_run_inv [OF hot_inv_new, of c ps]
  by (simp add: hot_inv_def hot_rings_new_def)

text \<open>
  The age bound: if the events of the ring carry non-decreasing ingest times up to the new
  one, then after a push every event in the ring is at least as recent as \<open>now - max_age\<close>, and
  a new event that is itself fresh is what \<open>latest\<close> returns.
\<close>

lemma hot_push_fresh:
  assumes "sorted (map age_ref (hot_snapshot hr (source_id e) (kind e) @ [e]))"
    and "max_events (config hr) \<noteq> 0" and "ring_cutoff (config hr) now \<le> age_ref e"
  shows "(\<forall>x \<in> set (hot_snapshot (fst (hot_push now e hr)) (source_id e) (kind e)).
            ring_cutoff (config hr) now \<le> age_ref x)
    \<and> hot_latest (fst (hot_push now e hr)) (source_id e) (kind e) = Some e"
proof -
  let ?r = "hot_snapshot hr (source_id e) (kind e)"
  let ?p = "pushed (config hr) now ?r e"
  let ?old = "\<lambda>x. age_ref x < ring_cutoff (config hr) now"
  have own: "hot_snapshot (fst (hot_push now e hr)) (source_id e) (kind e) = ?p"
    by (simp add: hot_snapshot_push event_key_def)
  have "drop (length ?r + 1 - max_events (config hr)) (?r @ [e])
      = drop (length ?r + 1 - max_events (config hr)) ?r @ [e]"
    using assms(2) by simp
  then have "e \<in> set ?p"
    using assms(3) by (simp add: pushed_def dropWhile_append3)
  then have ne: "?p \<noteq> []" by auto
  with pushed_suffix [of "config hr" now ?r e] have "last ?p = e"
    by (metis last_appendR last_snoc suffix_def)
  moreover have "hot_latest (fst (hot_push now e hr)) (source_id e) (kind e) = Some (last ?p)"
    using ne by (simp add: hot_latest_def hot_push_eq event_key_def)
  ultimately show ?thesis
    using own pushed_fresh [OF assms(1)] by simp
qed

end
