(* ===== verification/Cold_Store.thy ===== *)
theory Cold_Store
  imports Hot_Ring
begin

text \<open>
  \<open>crates/store/src/cold/store.rs\<close>: the SQLite cold store. The two tables are the state;
  each SQL statement of the source is its set-level meaning on them (\<open>INSERT OR IGNORE\<close> on the
  primary key, the guarded upsert, \<open>SELECT ... WHERE ... ORDER BY ... LIMIT\<close>, \<open>DELETE\<close>).

  Not under \<open>src/\<close>, so parameters: the ULID and serde codecs (record \<open>codec\<close>), SQLite's
  \<open>LIKE\<close> operator (\<open>like\<close>, pattern first), and when the engine fails: \<open>append\<close> runs statement by statement in a
  transaction, and \<open>tx_fault\<close> says which of its calls fails; every other call writes with a single statement at most, and \<open>db\<close> is
  \<open>Some\<close> error when it fails.
\<close>

section \<open>Parameters and errors\<close>

record codec =
  ulid_to_string :: "ulid \<Rightarrow> string"
  ulid_from_string :: "string \<Rightarrow> string + ulid"
  json_to_string :: "json \<Rightarrow> string + string"
  json_from_str :: "string \<Rightarrow> string + json"
  links_to_string :: "link list \<Rightarrow> string + string"
  links_from_str :: "string \<Rightarrow> string + link list"

datatype sql_error = Engine string | FromSqlConversionFailure nat string

datatype cold_error = Sqlite sql_error | Io string | Encode string | Decode string

section \<open>Tables\<close>

text \<open>The columns both tables have; \<open>events\<close> has \<open>day\<close> in addition.\<close>

record stored_row =
  c_event_id :: string
  c_source_id :: string
  c_kind :: string
  c_ts_ms_utc :: i64
  c_ingest_ts_ms_utc :: i64
  c_seq :: "i64 option"
  c_producer_id :: "string option"
  c_trace_id :: "string option"
  c_semantic :: string
  c_links :: "string option"
  c_schema_invalid :: "bool option"

record event_row = stored_row +
  c_day :: string

record cold_store =
  events_tbl :: "event_row list" \<comment> \<open>\<open>events\<close>, primary key \<open>event_id\<close>\<close>
  latest_tbl :: "ring_key \<Rightarrow> stored_row option" \<comment> \<open>\<open>latest\<close>, primary key \<open>(source_id, kind)\<close>\<close>

text \<open>\<open>migrate\<close> on a fresh database creates the two tables empty.\<close>

definition cold_open_in_memory :: cold_store where
  "cold_open_in_memory = \<lparr> events_tbl = [], latest_tbl = Map.empty \<rparr>"

record window_filter =
  start_ms :: i64
  end_ms :: i64
  source_filter :: "string list option"
  kind_filter :: "string list option"
  limit :: u32

record anchor =
  a_ts_ms_utc :: i64
  a_event_id :: ulid

definition MAX_WINDOW_LIMIT :: u32 where
  "MAX_WINDOW_LIMIT = 10000"

section \<open>Day keys\<close>

definition i32_try_from_or_zero :: "int \<Rightarrow> int" where
  [rust_defs]: "i32_try_from_or_zero y = (if - (2 ^ 31) \<le> y \<and> y \<le> 2 ^ 31 - 1 then y else 0)"

definition civil_date :: "i64 \<Rightarrow> int \<times> int \<times> int" where
  "civil_date days0 =
     (let days = days0 + 719468;
          era = (if days \<ge> 0 then trunc_div days 146097 else trunc_div (days - 146096) 146097);
          doe = days - era * 146097;
          yoe = (doe - doe div 1460 + doe div 36524 - doe div 146096) div 365;
          y = yoe + era * 400;
          doy = doe - (365 * yoe + yoe div 4 - yoe div 100);
          mp = (5 * doy + 2) div 153;
          d = doy - (153 * mp + 2) div 5 + 1;
          m = (if mp < 10 then mp + 3 else mp - 9);
          y_full = (if m \<le> 2 then y + 1 else y)
      in (i32_try_from_or_zero y_full, m, d))"

definition day_of :: "i64 \<Rightarrow> string" where
  "day_of ts =
     (let secs = trunc_div ts 1000;
          days_since_epoch = trunc_div secs 86400;
          (y, m, d) = civil_date days_since_epoch
      in format_zero 4 y @ ''-'' @ format_zero 2 m @ ''-'' @ format_zero 2 d)"

section \<open>Writing\<close>

definition encode_links :: "codec \<Rightarrow> link list option \<Rightarrow> cold_error + string option" where
  "encode_links c ls = (case ls of
     Some l \<Rightarrow> (case links_to_string c l of Inl m \<Rightarrow> Inl (Encode m) | Inr t \<Rightarrow> Inr (Some t))
   | None \<Rightarrow> Inr None)"

text \<open>The parameters bound to both statements.\<close>

definition stored_row_of :: "codec \<Rightarrow> event \<Rightarrow> cold_error + stored_row" where
  "stored_row_of c e = (case json_to_string c (semantic e) of
     Inl m \<Rightarrow> Inl (Encode m)
   | Inr sem \<Rightarrow> (case encode_links c (links e) of
       Inl x \<Rightarrow> Inl x
     | Inr ls \<Rightarrow> Inr
        \<lparr> c_event_id = ulid_to_string c (event_id e), c_source_id = source_id e,
          c_kind = kind e, c_ts_ms_utc = ts_ms_utc e,
          c_ingest_ts_ms_utc = (case ingest_ts_ms_utc e of Some t \<Rightarrow> t | None \<Rightarrow> ts_ms_utc e),
          c_seq = map_option u64_as_i64 (seq e), c_producer_id = producer_id e,
          c_trace_id = trace_id e, c_semantic = sem, c_links = ls,
          c_schema_invalid = schema_invalid e \<rparr>))"

definition event_row_of :: "codec \<Rightarrow> event \<Rightarrow> cold_error + event_row" where
  "event_row_of c e = (case stored_row_of c e of
     Inl x \<Rightarrow> Inl x
   | Inr r \<Rightarrow> Inr (stored_row.extend r (event_row.fields (day_of (ts_ms_utc e)))))"

text \<open>\<open>INSERT OR IGNORE INTO events\<close>.\<close>

definition insert_or_ignore :: "event_row \<Rightarrow> event_row list \<Rightarrow> event_row list" where
  "insert_or_ignore row tbl =
     (if c_event_id row \<in> c_event_id ` set tbl then tbl else tbl @ [row])"

text \<open>
  A transaction: the tables at \<open>BEGIN\<close>, and what the statements since then have made of them. SQLite and \<open>rusqlite\<close> document
  that \<open>COMMIT\<close> makes the latter the tables of the store and that a \<open>Transaction\<close> which is dropped before that, as by
  an early return, is rolled back to the former.
\<close>

record transaction =
  tx_before :: cold_store
  tx_tables :: cold_store

definition tx_begin :: "cold_store \<Rightarrow> transaction" where
  "tx_begin st = \<lparr> tx_before = st, tx_tables = st \<rparr>"

definition tx_commit :: "transaction \<Rightarrow> cold_store" where
  "tx_commit tx = tx_tables tx"

definition tx_drop :: "transaction \<Rightarrow> cold_store" where
  "tx_drop tx = tx_before tx"

text \<open>Which call of the transaction fails, if any, counting from \<open>BEGIN\<close>.\<close>

type_synonym tx_fault = "(nat \<times> sql_error) option"

definition fails_at :: "tx_fault \<Rightarrow> nat \<Rightarrow> sql_error option" where
  "fails_at f i = (case f of None \<Rightarrow> None | Some (j, x) \<Rightarrow> if i = j then Some x else None)"

text \<open>The first loop of \<open>append\<close>; \<open>i\<close> is the number of its next call.\<close>

fun insert_events :: "codec \<Rightarrow> tx_fault \<Rightarrow> nat \<Rightarrow> event list \<Rightarrow> transaction \<Rightarrow> transaction \<times> (cold_error + unit)" where
  "insert_events c f i [] tx = (tx, Inr ())"
| "insert_events c f i (e # es) tx = (case event_row_of c e of
     Inl x \<Rightarrow> (tx, Inl x)
   | Inr row \<Rightarrow> (case fails_at f i of
       Some x \<Rightarrow> (tx, Inl (Sqlite x))
     | None \<Rightarrow> insert_events c f (i + 1) es
         (tx\<lparr> tx_tables := (tx_tables tx)\<lparr> events_tbl := insert_or_ignore row (events_tbl (tx_tables tx)) \<rparr> \<rparr>)))"

text \<open>
  \<open>INSERT INTO latest ... ON CONFLICT(source_id, kind) DO UPDATE ... WHERE excluded.ts_ms_utc >
  latest.ts_ms_utc\<close>.
\<close>

definition row_key :: "'a stored_row_scheme \<Rightarrow> ring_key" where
  "row_key r = (c_source_id r, c_kind r)"

definition upsert_latest ::
  "stored_row \<Rightarrow> (ring_key \<Rightarrow> stored_row option) \<Rightarrow> (ring_key \<Rightarrow> stored_row option)" where
  "upsert_latest row tbl = (case tbl (row_key row) of
     None \<Rightarrow> tbl(row_key row \<mapsto> row)
   | Some cur \<Rightarrow> if c_ts_ms_utc row > c_ts_ms_utc cur then tbl(row_key row \<mapsto> row) else tbl)"

text \<open>
  The collapse of a batch: the values of the \<open>HashMap\<close> \<open>latest_in_batch\<close>, one per key, here in
  order of first insertion; \<open>current_update_perm\<close> of the next theory shows the order does not
  matter to the table (it decides which of two errors is reported).
\<close>

fun latest_in_batch_put :: "event \<Rightarrow> event list \<Rightarrow> event list" where
  "latest_in_batch_put e [] = [e]"
| "latest_in_batch_put e (cur # vs) =
     (if event_key cur = event_key e
      then (if ts_ms_utc e > ts_ms_utc cur then e else cur) # vs
      else cur # latest_in_batch_put e vs)"

definition latest_in_batch :: "event list \<Rightarrow> event list" where
  "latest_in_batch es = fold latest_in_batch_put es []"

text \<open>The second loop.\<close>

fun upsert_all :: "codec \<Rightarrow> tx_fault \<Rightarrow> nat \<Rightarrow> event list \<Rightarrow> transaction \<Rightarrow> transaction \<times> (cold_error + unit)" where
  "upsert_all c f i [] tx = (tx, Inr ())"
| "upsert_all c f i (e # es) tx = (case stored_row_of c e of
     Inl x \<Rightarrow> (tx, Inl x)
   | Inr row \<Rightarrow> (case fails_at f i of
       Some x \<Rightarrow> (tx, Inl (Sqlite x))
     | None \<Rightarrow> upsert_all c f (i + 1) es
         (tx\<lparr> tx_tables := (tx_tables tx)\<lparr> latest_tbl := upsert_latest row (latest_tbl (tx_tables tx)) \<rparr> \<rparr>)))"

text \<open>
  The calls after \<open>BEGIN\<close>: preparing the insertion, one execution per event, preparing the upsert, one execution per pair,
  and \<open>COMMIT\<close>. The first that fails ends the function with the transaction as far as it got.
\<close>

definition append_calls :: "event list \<Rightarrow> nat" where
  "append_calls es = length es + length (latest_in_batch es) + 4"

definition append_body :: "codec \<Rightarrow> tx_fault \<Rightarrow> event list \<Rightarrow> transaction \<Rightarrow> transaction \<times> (cold_error + unit)" where
  "append_body c f es tx = (case fails_at f 1 of
     Some x \<Rightarrow> (tx, Inl (Sqlite x))
   | None \<Rightarrow> (case insert_events c f 2 es tx of
       (tx, Inl x) \<Rightarrow> (tx, Inl x)
     | (tx, Inr _) \<Rightarrow> (case fails_at f (length es + 2) of
         Some x \<Rightarrow> (tx, Inl (Sqlite x))
       | None \<Rightarrow> (case upsert_all c f (length es + 3) (latest_in_batch es) tx of
           (tx, Inl x) \<Rightarrow> (tx, Inl x)
         | (tx, Inr _) \<Rightarrow> (case fails_at f (length es + length (latest_in_batch es) + 3) of
             Some x \<Rightarrow> (tx, Inl (Sqlite x))
           | None \<Rightarrow> (tx, Inr ()))))))"

definition cold_append ::
  "codec \<Rightarrow> tx_fault \<Rightarrow> event list \<Rightarrow> cold_store \<Rightarrow> cold_store \<times> (cold_error + unit)" where
  "cold_append c f es st =
     (if es = [] then (st, Inr ())
      else case fails_at f 0 of
        Some x \<Rightarrow> (st, Inl (Sqlite x))
      | None \<Rightarrow> (case append_body c f es (tx_begin st) of
          (tx, Inl x) \<Rightarrow> (tx_drop tx, Inl x)
        | (tx, Inr _) \<Rightarrow> (tx_commit tx, Inr ())))"

section \<open>Reading\<close>

definition decode_links :: "codec \<Rightarrow> string option \<Rightarrow> sql_error + link list option" where
  "decode_links c t = (case t of
     Some s \<Rightarrow> (case links_from_str c s of
         Inl m \<Rightarrow> Inl (FromSqlConversionFailure 9 m) | Inr l \<Rightarrow> Inr (Some l))
   | None \<Rightarrow> Inr None)"

definition row_to_event :: "codec \<Rightarrow> 'a stored_row_scheme \<Rightarrow> sql_error + event" where
  "row_to_event c row = (case ulid_from_string c (c_event_id row) of
     Inl m \<Rightarrow> Inl (FromSqlConversionFailure 0 m)
   | Inr i \<Rightarrow> (case json_from_str c (c_semantic row) of
       Inl m \<Rightarrow> Inl (FromSqlConversionFailure 8 m)
     | Inr v \<Rightarrow> (case decode_links c (c_links row) of
         Inl x \<Rightarrow> Inl x
       | Inr ls \<Rightarrow> Inr
          \<lparr> event_id = i, source_id = c_source_id row, kind = c_kind row,
            ts_ms_utc = c_ts_ms_utc row, semantic = v, links = ls,
            trace_id = c_trace_id row, ingest_ts_ms_utc = Some (c_ingest_ts_ms_utc row),
            seq = map_option i64_as_u64 (c_seq row), producer_id = c_producer_id row,
            schema_invalid = c_schema_invalid row \<rparr>)))"

text \<open>\<open>query_row(..., row_to_event).optional()?\<close>.\<close>

definition optional_row :: "codec \<Rightarrow> 'a stored_row_scheme option \<Rightarrow> cold_error + event option" where
  "optional_row c r = (case r of
     None \<Rightarrow> Inr None
   | Some row \<Rightarrow> (case row_to_event c row of Inl x \<Rightarrow> Inl (Sqlite x) | Inr e \<Rightarrow> Inr (Some e)))"

definition cold_latest ::
  "codec \<Rightarrow> sql_error option \<Rightarrow> string \<Rightarrow> string \<Rightarrow> cold_store \<Rightarrow> cold_error + event option" where
  "cold_latest c db s k st = (case db of
     Some x \<Rightarrow> Inl (Sqlite x)
   | None \<Rightarrow> optional_row c (latest_tbl st (s, k)))"

definition get_by_id ::
  "codec \<Rightarrow> sql_error option \<Rightarrow> ulid \<Rightarrow> cold_store \<Rightarrow> cold_error + event option" where
  "get_by_id c db i st = (case db of
     Some x \<Rightarrow> Inl (Sqlite x)
   | None \<Rightarrow> optional_row c (find (\<lambda>r. c_event_id r = ulid_to_string c i) (events_tbl st)))"

definition glob_to_like :: "string \<Rightarrow> string" where
  "glob_to_like g =
     replace_char CHR ''*'' [CHR ''%'']
       (replace_char CHR ''_'' [CHR 0x5C, CHR ''_'']
         (replace_char CHR ''%'' [CHR 0x5C, CHR ''%''] g))"

text \<open>
  The condition \<open>glob_clause\<close> adds for a column with the patterns bound by \<open>query_window\<close>: an
  \<open>OR\<close> of \<open>LIKE\<close>s, and nothing for an absent or an empty list.
\<close>

definition glob_clause :: "(string \<Rightarrow> string \<Rightarrow> bool) \<Rightarrow> string list option \<Rightarrow> string \<Rightarrow> bool" where
  "glob_clause like globs col = (case globs of
     None \<Rightarrow> True
   | Some gs \<Rightarrow> if length gs = 0 then True else list_ex (\<lambda>g. like (glob_to_like g) col) gs)"

definition row_pos :: "'a stored_row_scheme \<Rightarrow> i64 \<times> string" where
  "row_pos r = (c_ts_ms_utc r, c_event_id r)"

definition after_anchor :: "codec \<Rightarrow> anchor option \<Rightarrow> event_row \<Rightarrow> bool" where
  "after_anchor c a r = (case a of
     None \<Rightarrow> True
   | Some an \<Rightarrow> c_ts_ms_utc r > a_ts_ms_utc an
       \<or> (c_ts_ms_utc r = a_ts_ms_utc an \<and> c_event_id r > ulid_to_string c (a_event_id an)))"

definition window_where :: "(string \<Rightarrow> string \<Rightarrow> bool) \<Rightarrow> window_filter \<Rightarrow> event_row \<Rightarrow> bool" where
  "window_where like f r \<longleftrightarrow>
     c_ts_ms_utc r \<ge> start_ms f \<and> c_ts_ms_utc r < end_ms f
     \<and> glob_clause like (source_filter f) (c_source_id r)
     \<and> glob_clause like (kind_filter f) (c_kind r)"

text \<open>The rows the statement of \<open>query_window\<close> returns, in order.\<close>

definition window_rows :: "codec \<Rightarrow> (string \<Rightarrow> string \<Rightarrow> bool) \<Rightarrow> window_filter \<Rightarrow> anchor option
    \<Rightarrow> cold_store \<Rightarrow> event_row list" where
  "window_rows c like f a st =
     take (min (limit f) MAX_WINDOW_LIMIT)
       (sort_key row_pos (filter (\<lambda>r. window_where like f r \<and> after_anchor c a r) (events_tbl st)))"

definition query_window :: "codec \<Rightarrow> (string \<Rightarrow> string \<Rightarrow> bool) \<Rightarrow> sql_error option
    \<Rightarrow> window_filter \<Rightarrow> anchor option \<Rightarrow> cold_store \<Rightarrow> cold_error + event list" where
  "query_window c like db f a st = (case db of
     Some x \<Rightarrow> Inl (Sqlite x)
   | None \<Rightarrow> (case traverse (row_to_event c) (window_rows c like f a st) of
       Inl x \<Rightarrow> Inl (Sqlite x) | Inr es \<Rightarrow> Inr es))"

definition event_count :: "sql_error option \<Rightarrow> cold_store \<Rightarrow> cold_error + u64" where
  "event_count db st = (case db of
     Some x \<Rightarrow> Inl (Sqlite x) | None \<Rightarrow> Inr (length (events_tbl st)))"

definition distinct_source_kind_pairs ::
  "sql_error option \<Rightarrow> cold_store \<Rightarrow> cold_error + ring_key list" where
  "distinct_source_kind_pairs db st = (case db of
     Some x \<Rightarrow> Inl (Sqlite x) | None \<Rightarrow> Inr (sort (remdups (map row_key (events_tbl st)))))"

definition pair_rows :: "string \<Rightarrow> string \<Rightarrow> cold_store \<Rightarrow> event_row list" where
  "pair_rows s k st = filter (\<lambda>r. row_key r = (s, k)) (events_tbl st)"

definition count_for_pair ::
  "sql_error option \<Rightarrow> string \<Rightarrow> string \<Rightarrow> cold_store \<Rightarrow> cold_error + i64" where
  "count_for_pair db s k st = (case db of
     Some x \<Rightarrow> Inl (Sqlite x) | None \<Rightarrow> Inr (int (length (pair_rows s k st))))"

section \<open>Sweeping\<close>

text \<open>\<open>DELETE FROM events WHERE P\<close>: the new table and the number of affected rows.\<close>

definition delete_where :: "(event_row \<Rightarrow> bool) \<Rightarrow> cold_store \<Rightarrow> cold_store \<times> u64" where
  "delete_where P st =
     (st\<lparr> events_tbl := filter (\<lambda>r. \<not> P r) (events_tbl st) \<rparr>,
      length (filter P (events_tbl st)))"

definition cold_sweep_max_age :: "sql_error option \<Rightarrow> string \<Rightarrow> string \<Rightarrow> i64 \<Rightarrow> bool
    \<Rightarrow> cold_store \<Rightarrow> cold_store \<times> (cold_error + u64)" where
  "cold_sweep_max_age db s k cutoff dry_run st = (case db of
     Some x \<Rightarrow> (st, Inl (Sqlite x))
   | None \<Rightarrow>
       let P = (\<lambda>r. row_key r = (s, k) \<and> c_ts_ms_utc r < cutoff) in
       if dry_run then (st, Inr (length (filter P (events_tbl st))))
       else let (st', n) = delete_where P st in (st', Inr n))"

definition cold_sweep_max_count :: "sql_error option \<Rightarrow> string \<Rightarrow> string \<Rightarrow> i64 \<Rightarrow> bool
    \<Rightarrow> cold_store \<Rightarrow> cold_store \<times> (cold_error + u64)" where
  "cold_sweep_max_count db s k keep_last dry_run st = (case db of
     Some x \<Rightarrow> (st, Inl (Sqlite x))
   | None \<Rightarrow>
       let total = int (length (pair_rows s k st));
           drop_count = max (wrap_i64 (total - keep_last)) 0
       in if dry_run \<or> drop_count = 0 then (st, Inr (nat drop_count))
          else let ids = map c_event_id (take (nat drop_count) (sort_key row_pos (pair_rows s k st)));
                   (st', n) = delete_where (\<lambda>r. c_event_id r \<in> set ids) st
               in (st', Inr n))"

text \<open>
  SQLite's \<open>LENGTH\<close> of a \<open>TEXT\<close> value: the number of characters before the first \<open>NUL\<close>, that is
  the bytes that do not continue a UTF-8 sequence.
\<close>

definition sql_length :: "string \<Rightarrow> i64" where
  "sql_length t = int (length (filter (\<lambda>ch. \<not> (128 \<le> (of_char ch :: nat) \<and> (of_char ch :: nat) < 192))
     (takeWhile (\<lambda>ch. ch \<noteq> CHR 0x00) t)))"

fun bytes_to_drop :: "i64 \<Rightarrow> i64 \<Rightarrow> event_row list \<Rightarrow> string list" where
  "bytes_to_drop max_bytes running [] = []"
| "bytes_to_drop max_bytes running (r # rs) =
     (let running' = saturating_add running (sql_length (c_semantic r))
      in if running' > max_bytes then c_event_id r # bytes_to_drop max_bytes running' rs
         else bytes_to_drop max_bytes running' rs)"

definition cold_sweep_max_bytes :: "sql_error option \<Rightarrow> string \<Rightarrow> string \<Rightarrow> i64 \<Rightarrow> bool
    \<Rightarrow> cold_store \<Rightarrow> cold_store \<times> (cold_error + u64)" where
  "cold_sweep_max_bytes db s k max_bytes dry_run st = (case db of
     Some x \<Rightarrow> (st, Inl (Sqlite x))
   | None \<Rightarrow>
       let to_drop = bytes_to_drop max_bytes 0 (rev (sort_key row_pos (pair_rows s k st)))
       in if dry_run then (st, Inr (length to_drop))
          else if to_drop = [] then (st, Inr 0)
          else let (st', n) = delete_where (\<lambda>r. c_event_id r \<in> set to_drop) st
               in (st', Inr n))"

end
