(* ===== verification/Cold_Invariant.thy ===== *)
theory Cold_Invariant
  imports Cold_Store
begin

text \<open>
  The invariant of the cold store and the refinement of \<open>append\<close>: the two tables implement a log
  keyed by event id in which the first write wins, and a current-state map keyed by
  \<open>(source_id, kind)\<close> in which the strictly newest timestamp wins.
\<close>

section \<open>What the code relies on\<close>

text \<open>
  Documented behaviour of the \<open>ulid\<close> crate: the canonical text form parses back. For an event,
  \<open>encodable\<close> says that serde's text form of its payload and links parses back to them, and that
  its sequence number is a \<open>u64\<close>.
\<close>

definition ulid_codec :: "codec \<Rightarrow> bool" where
  "ulid_codec c \<longleftrightarrow> (\<forall>u. ulid_from_string c (ulid_to_string c u) = Inr u)"

definition encodable :: "codec \<Rightarrow> event \<Rightarrow> bool" where
  "encodable c e \<longleftrightarrow>
     (\<exists>t. json_to_string c (semantic e) = Inr t \<and> json_from_str c t = Inr (semantic e))
     \<and> (\<forall>l. links e = Some l \<longrightarrow>
          (\<exists>t. links_to_string c l = Inr t \<and> links_from_str c t = Inr l))
     \<and> (\<forall>n. seq e = Some n \<longrightarrow> n \<le> u64_max)"

text \<open>A concrete codec, for the witnesses.\<close>

definition demo_codec :: codec where
  "demo_codec =
     \<lparr> ulid_to_string = (\<lambda>u. replicate (unat u) CHR ''A''), ulid_from_string = (\<lambda>s. Inr (of_nat (length s))),
       json_to_string = (\<lambda>v. case v of String s \<Rightarrow> Inr s | _ \<Rightarrow> Inl ''unsupported''),
       json_from_str = (\<lambda>s. Inr (String s)),
       links_to_string = (\<lambda>_. Inl ''unsupported''), links_from_str = (\<lambda>_. Inl ''unsupported'') \<rparr>"

lemma demo_ulid_codec [simp]: "ulid_codec demo_codec"
  by (simp add: ulid_codec_def demo_codec_def)

lemma demo_encodable [simp]: "encodable demo_codec (sample_event i s k t)"
  by (simp add: encodable_def demo_codec_def u64_max_def)

lemma ulid_to_string_inj: "ulid_codec c \<Longrightarrow> ulid_to_string c i = ulid_to_string c j \<longleftrightarrow> i = j"
  by (metis ulid_codec_def sum.inject(2))

section \<open>Encoding and decoding a row\<close>

text \<open>What a stored event reads back as: the ingest time defaults to the event time.\<close>

definition stored_form :: "event \<Rightarrow> event" where
  "stored_form e = e\<lparr> ingest_ts_ms_utc := Some (age_ref e) \<rparr>"

lemma stored_form_simps [simp]:
  "event_id (stored_form e) = event_id e" "event_key (stored_form e) = event_key e"
  "ts_ms_utc (stored_form e) = ts_ms_utc e" "source_id (stored_form e) = source_id e"
  "kind (stored_form e) = kind e"
  by (simp_all add: stored_form_def event_key_def)

lemma stored_form_ingested: "ingest_ts_ms_utc e = Some t \<Longrightarrow> stored_form e = e"
  by (cases e) (simp add: stored_form_def age_ref_def)

lemma stored_row_of_encodable:
  assumes "ulid_codec c" and "encodable c e"
  obtains r where "stored_row_of c e = Inr r" and "row_to_event c r = Inr (stored_form e)"
    and "c_event_id r = ulid_to_string c (event_id e)" and "row_key r = event_key e"
    and "c_ts_ms_utc r = ts_ms_utc e"
proof -
  from assms(2) obtain t where t: "json_to_string c (semantic e) = Inr t"
      "json_from_str c t = Inr (semantic e)"
    by (auto simp: encodable_def)
  obtain lt where lt: "encode_links c (links e) = Inr lt" "decode_links c lt = Inr (links e)"
    using assms(2) by (cases "links e") (auto simp: encodable_def encode_links_def decode_links_def)
  have sq: "map_option (i64_as_u64 \<circ> u64_as_i64) (seq e) = seq e"
    using assms(2) by (cases "seq e") (auto simp: encodable_def i64_as_u64_as_i64)
  define r where "r = \<lparr> c_event_id = ulid_to_string c (event_id e), c_source_id = source_id e,
    c_kind = kind e, c_ts_ms_utc = ts_ms_utc e, c_ingest_ts_ms_utc = age_ref e,
    c_seq = map_option u64_as_i64 (seq e), c_producer_id = producer_id e,
    c_trace_id = trace_id e, c_semantic = t, c_links = lt,
    c_schema_invalid = schema_invalid e \<rparr>"
  have "stored_row_of c e = Inr r"
    using t lt by (simp add: stored_row_of_def r_def age_ref_def)
  moreover have "row_to_event c r = Inr (stored_form e)"
    using t lt sq assms(1)
    by (cases e) (simp add: row_to_event_def r_def ulid_codec_def stored_form_def option.map_comp)
  ultimately show ?thesis
    using that by (simp add: r_def row_key_def event_key_def)
qed

definition enc :: "codec \<Rightarrow> event \<Rightarrow> stored_row" where
  "enc c e = projr (stored_row_of c e)"

definition enc_ev :: "codec \<Rightarrow> event \<Rightarrow> event_row" where
  "enc_ev c e = stored_row.extend (enc c e) (event_row.fields (day_of (ts_ms_utc e)))"

lemma extend_simps [simp]:
  "c_event_id (stored_row.extend r x) = c_event_id r"
  "row_key (stored_row.extend r x) = row_key r"
  "row_pos (stored_row.extend r x) = row_pos r"
  "c_ts_ms_utc (stored_row.extend r x) = c_ts_ms_utc r"
  by (simp_all add: stored_row.extend_def row_key_def row_pos_def)

lemma row_to_event_extend [simp]: "row_to_event c (stored_row.extend r x) = row_to_event c r"
  by (simp add: row_to_event_def stored_row.extend_def split: sum.split)

lemma enc_props:
  assumes "ulid_codec c" and "encodable c e"
  shows "stored_row_of c e = Inr (enc c e)" and "event_row_of c e = Inr (enc_ev c e)"
    and "row_to_event c (enc c e) = Inr (stored_form e)"
    and "row_to_event c (enc_ev c e) = Inr (stored_form e)"
    and "c_event_id (enc c e) = ulid_to_string c (event_id e)"
    and "c_event_id (enc_ev c e) = ulid_to_string c (event_id e)"
    and "row_key (enc c e) = event_key e"
    and "c_ts_ms_utc (enc c e) = ts_ms_utc e"
  by (rule stored_row_of_encodable [OF assms];
      simp add: enc_def enc_ev_def event_row_of_def)+

section \<open>Invariant\<close>

text \<open>A row is decodable, and its key column is the canonical form of the id it decodes to.\<close>

definition row_ok :: "codec \<Rightarrow> 'a stored_row_scheme \<Rightarrow> bool" where
  "row_ok c r \<longleftrightarrow> (\<exists>e. row_to_event c r = Inr e \<and> ulid_to_string c (event_id e) = c_event_id r)"

definition events_ok :: "codec \<Rightarrow> event_row list \<Rightarrow> bool" where
  "events_ok c tbl \<longleftrightarrow> distinct (map c_event_id tbl) \<and> list_all (row_ok c) tbl"

definition latest_ok :: "codec \<Rightarrow> (ring_key \<Rightarrow> stored_row option) \<Rightarrow> bool" where
  "latest_ok c tbl \<longleftrightarrow> (\<forall>k r. tbl k = Some r \<longrightarrow> row_ok c r \<and> row_key r = k)"

definition cold_inv :: "codec \<Rightarrow> cold_store \<Rightarrow> bool" where
  "cold_inv c st \<longleftrightarrow> events_ok c (events_tbl st) \<and> latest_ok c (latest_tbl st)"

lemma cold_inv_open: "cold_inv c cold_open_in_memory"
  by (simp add: cold_inv_def cold_open_in_memory_def events_ok_def latest_ok_def)

lemma row_ok_enc:
  assumes "ulid_codec c" and "encodable c e"
  shows "row_ok c (enc c e)" and "row_ok c (enc_ev c e)"
  using enc_props [OF assms] by (auto simp: row_ok_def)

section \<open>The transaction of a batch\<close>

text \<open>A statement never touches the tables at \<open>BEGIN\<close>, and what it does to the others does not depend on later failures.\<close>

lemma insert_events_before: "tx_before (fst (insert_events c f i es tx)) = tx_before tx"
  by (induction es arbitrary: i tx) (auto split: sum.split option.split)

lemma upsert_all_before: "tx_before (fst (upsert_all c f i es tx)) = tx_before tx"
  by (induction es arbitrary: i tx) (auto split: sum.split option.split)

lemma append_body_before: "tx_before (fst (append_body c f es tx)) = tx_before tx"
  using insert_events_before [of c f 2 es tx] upsert_all_before [of c f "length es + 3" "latest_in_batch es"]
  by (auto simp: append_body_def split: option.split prod.split sum.split) (metis fst_conv)+

text \<open>What the loops do when they get to their end, and why they do not.\<close>

definition fault_in :: "tx_fault \<Rightarrow> nat \<Rightarrow> nat \<Rightarrow> cold_error \<Rightarrow> bool" where
  "fault_in f lo hi x \<longleftrightarrow> (\<exists>i \<in> {lo ..< hi}. \<exists>e. f = Some (i, e) \<and> x = Sqlite e)"

lemma fault_inI: "fails_at f i = Some e \<Longrightarrow> lo \<le> i \<Longrightarrow> i < hi \<Longrightarrow> fault_in f lo hi (Sqlite e)"
  by (auto simp: fault_in_def fails_at_def split: option.split_asm if_split_asm)

lemma fault_in_mono: "fault_in f lo hi x \<Longrightarrow> lo' \<le> lo \<Longrightarrow> hi \<le> hi' \<Longrightarrow> fault_in f lo' hi' x"
  by (fastforce simp: fault_in_def)

lemma fails_at_None [simp]: "fails_at None i = None"
  by (simp add: fails_at_def)

lemma insert_events_cases:
  "case insert_events c f i es tx of
     (tx', Inl x) \<Rightarrow> fault_in f i (i + length es) x \<or> (\<exists>e \<in> set es. event_row_of c e = Inl x)
   | (tx', Inr _) \<Rightarrow> (\<forall>j \<in> {i ..< i + length es}. fails_at f j = None)
       \<and> (\<exists>rows. traverse (event_row_of c) es = Inr rows
          \<and> tx' = tx\<lparr> tx_tables := (tx_tables tx)\<lparr> events_tbl := fold insert_or_ignore rows (events_tbl (tx_tables tx)) \<rparr> \<rparr>)"
proof (induction es arbitrary: i tx)
  case (Cons e es)
  show ?case
  proof (cases "event_row_of c e")
    case (Inr row)
    show ?thesis
    proof (cases "fails_at f i")
      case None
      have range: "{i ..< i + length (e # es)} = insert i {i + 1 ..< i + 1 + length es}" by auto
      let ?tx = "tx\<lparr> tx_tables := (tx_tables tx)\<lparr> events_tbl := insert_or_ignore row (events_tbl (tx_tables tx)) \<rparr> \<rparr>"
      obtain tx' r where rec: "insert_events c f (i + 1) es ?tx = (tx', r)" by (cases "insert_events c f (i + 1) es ?tx")
      have all: "insert_events c f i (e # es) tx = (tx', r)" using rec by (simp add: Inr None)
      have fault: "fault_in f (i + 1) (i + 1 + length es) x \<Longrightarrow> fault_in f i (i + length (e # es)) x" for x
        by (erule fault_in_mono) simp_all
      show ?thesis
        using Cons.IH [of "i + 1" ?tx] fault unfolding range rec all prod.case
        by (cases r) (auto simp: Inr None)
    qed (simp add: Inr fault_inI)
  qed simp
qed simp

lemma upsert_all_cases:
  "case upsert_all c f i es tx of
     (tx', Inl x) \<Rightarrow> fault_in f i (i + length es) x \<or> (\<exists>e \<in> set es. stored_row_of c e = Inl x)
   | (tx', Inr _) \<Rightarrow> (\<forall>j \<in> {i ..< i + length es}. fails_at f j = None)
       \<and> (\<exists>rows. traverse (stored_row_of c) es = Inr rows
          \<and> tx' = tx\<lparr> tx_tables := (tx_tables tx)\<lparr> latest_tbl := fold upsert_latest rows (latest_tbl (tx_tables tx)) \<rparr> \<rparr>)"
proof (induction es arbitrary: i tx)
  case (Cons e es)
  show ?case
  proof (cases "stored_row_of c e")
    case (Inr row)
    show ?thesis
    proof (cases "fails_at f i")
      case None
      have range: "{i ..< i + length (e # es)} = insert i {i + 1 ..< i + 1 + length es}" by auto
      let ?tx = "tx\<lparr> tx_tables := (tx_tables tx)\<lparr> latest_tbl := upsert_latest row (latest_tbl (tx_tables tx)) \<rparr> \<rparr>"
      obtain tx' r where rec: "upsert_all c f (i + 1) es ?tx = (tx', r)" by (cases "upsert_all c f (i + 1) es ?tx")
      have all: "upsert_all c f i (e # es) tx = (tx', r)" using rec by (simp add: Inr None)
      have fault: "fault_in f (i + 1) (i + 1 + length es) x \<Longrightarrow> fault_in f i (i + length (e # es)) x" for x
        by (erule fault_in_mono) simp_all
      show ?thesis
        using Cons.IH [of "i + 1" ?tx] fault unfolding range rec all prod.case
        by (cases r) (auto simp: Inr None)
    qed (simp add: Inr fault_inI)
  qed simp
qed simp

lemma set_latest_in_batch_put: "set (latest_in_batch_put e vs) \<subseteq> insert e (set vs)"
  by (induction vs) auto

lemma set_latest_in_batch: "set (latest_in_batch es) \<subseteq> set es"
proof -
  have "set (fold latest_in_batch_put es vs) \<subseteq> set es \<union> set vs" for vs
    by (induction es arbitrary: vs) (use set_latest_in_batch_put in fastforce)+
  from this [of "[]"] show ?thesis by (simp add: latest_in_batch_def)
qed

text \<open>A whole call: nothing, with the reason, or everything.\<close>

lemma event_row_of_Inl: "event_row_of c e = Inl x \<longleftrightarrow> stored_row_of c e = Inl x"
  by (simp add: event_row_of_def split: sum.split)

lemma append_body_cases:
  "case append_body c f es tx of
     (tx', Inl x) \<Rightarrow> fault_in f 1 (append_calls es) x \<or> (\<exists>e \<in> set es. stored_row_of c e = Inl x)
   | (tx', Inr _) \<Rightarrow> (\<forall>j \<in> {1 ..< append_calls es}. fails_at f j = None)
       \<and> (\<exists>rows lts. traverse (event_row_of c) es = Inr rows \<and> traverse (stored_row_of c) (latest_in_batch es) = Inr lts
          \<and> tx_tables tx' = \<lparr> events_tbl = fold insert_or_ignore rows (events_tbl (tx_tables tx)),
               latest_tbl = fold upsert_latest lts (latest_tbl (tx_tables tx)) \<rparr>)"
proof -
  let ?n = "length es" and ?vs = "latest_in_batch es"
  note calls = append_calls_def [of es]
  have wide: "fault_in f 2 (2 + ?n) x \<Longrightarrow> fault_in f 1 (append_calls es) x"
    "fault_in f (?n + 3) (?n + 3 + length ?vs) x \<Longrightarrow> fault_in f 1 (append_calls es) x" for x
    by (erule fault_in_mono; simp add: calls)+
  obtain tx1 r1 where 1: "insert_events c f 2 es tx = (tx1, r1)" by (cases "insert_events c f 2 es tx")
  obtain tx2 r2 where 2: "upsert_all c f (?n + 3) ?vs tx1 = (tx2, r2)" by (cases "upsert_all c f (?n + 3) ?vs tx1")
  have c1: "case r1 of Inl x \<Rightarrow> fault_in f 2 (2 + ?n) x \<or> (\<exists>e \<in> set es. stored_row_of c e = Inl x)
      | Inr _ \<Rightarrow> (\<forall>j \<in> {2 ..< 2 + ?n}. fails_at f j = None) \<and> (\<exists>rows. traverse (event_row_of c) es = Inr rows
          \<and> tx1 = tx\<lparr> tx_tables := (tx_tables tx)\<lparr> events_tbl := fold insert_or_ignore rows (events_tbl (tx_tables tx)) \<rparr> \<rparr>)"
    using insert_events_cases [where c = c and f = f and i = 2 and es = es and tx = tx] by (simp only: 1 prod.case event_row_of_Inl)
  have c2: "case r2 of Inl x \<Rightarrow> fault_in f (?n + 3) (?n + 3 + length ?vs) x \<or> (\<exists>e \<in> set ?vs. stored_row_of c e = Inl x)
      | Inr _ \<Rightarrow> (\<forall>j \<in> {?n + 3 ..< ?n + 3 + length ?vs}. fails_at f j = None)
          \<and> (\<exists>lts. traverse (stored_row_of c) ?vs = Inr lts
          \<and> tx2 = tx1\<lparr> tx_tables := (tx_tables tx1)\<lparr> latest_tbl := fold upsert_latest lts (latest_tbl (tx_tables tx1)) \<rparr> \<rparr>)"
    using upsert_all_cases [where c = c and f = f and i = "?n + 3" and es = ?vs and tx = tx1] by (simp only: 2 prod.case)
  have range: "{1 ..< append_calls es} = {1} \<union> {2 ..< 2 + ?n} \<union> {?n + 2} \<union> {?n + 3 ..< ?n + 3 + length ?vs} \<union> {?n + length ?vs + 3}"
    by (auto simp: calls)
  show ?thesis
  proof (cases "fails_at f 1")
    case None
    note n1 = None [unfolded One_nat_def]
    show ?thesis
    proof (cases r1)
      case (Inl x)
      then have "append_body c f es tx = (tx1, Inl x)" by (simp add: append_body_def n1 1)
      then show ?thesis using c1 wide(1) Inl by auto
    next
      case (Inr u)
      show ?thesis
      proof (cases "fails_at f (?n + 2)")
        case None
        note n2 = None [unfolded add_2_eq_Suc']
        show ?thesis
        proof (cases r2)
          case (Inl x)
          then have "append_body c f es tx = (tx2, Inl x)" by (simp add: append_body_def n1 n2 1 2 \<open>r1 = Inr u\<close>)
          then show ?thesis using c2 wide(2) set_latest_in_batch [of es] Inl by auto
        next
          case (Inr v)
          note r2 = Inr
          show ?thesis
          proof (cases "fails_at f (?n + length ?vs + 3)")
            case None
            then have "append_body c f es tx = (tx2, Inr ())" by (simp add: append_body_def n1 n2 1 2 r2 \<open>r1 = Inr u\<close>)
            then show ?thesis using c1 c2 n1 n2 None r2 \<open>r1 = Inr u\<close> unfolding range by auto
          qed (simp add: append_body_def n1 n2 1 2 r2 \<open>r1 = Inr u\<close> calls fault_inI)
        qed
      qed (simp add: append_body_def n1 1 Inr calls fault_inI)
    qed
  qed (simp add: append_body_def calls fault_inI)
qed

lemma cold_append_cases:
  "case cold_append c f es st of
     (st', Inl x) \<Rightarrow> st' = st \<and> (fault_in f 0 (append_calls es) x \<or> (\<exists>e \<in> set es. stored_row_of c e = Inl x))
   | (st', Inr _) \<Rightarrow> (es = [] \<or> (\<forall>j \<in> {0 ..< append_calls es}. fails_at f j = None))
       \<and> (\<exists>rows lts. traverse (event_row_of c) es = Inr rows \<and> traverse (stored_row_of c) (latest_in_batch es) = Inr lts
          \<and> st' = \<lparr> events_tbl = fold insert_or_ignore rows (events_tbl st), latest_tbl = fold upsert_latest lts (latest_tbl st) \<rparr>)"
proof (cases "es = []")
  case True
  then show ?thesis by (cases st) (simp add: cold_append_def latest_in_batch_def)
next
  case False
  obtain tx r where b: "append_body c f es (tx_begin st) = (tx, r)" by (cases "append_body c f es (tx_begin st)")
  have before: "tx_before tx = st" using append_body_before [of c f es "tx_begin st"] by (simp add: b) (simp add: tx_begin_def)
  have range: "{0 ..< append_calls es} = insert 0 {1 ..< append_calls es}" by (auto simp: append_calls_def)
  show ?thesis
  proof (cases "fails_at f 0")
    case None
    have tables: "tx_tables (tx_begin st) = st" by (simp add: tx_begin_def)
    have body: "case r of Inl x \<Rightarrow> fault_in f 0 (append_calls es) x \<or> (\<exists>e \<in> set es. stored_row_of c e = Inl x)
      | Inr _ \<Rightarrow> (\<forall>j \<in> {1 ..< append_calls es}. fails_at f j = None)
       \<and> (\<exists>rows lts. traverse (event_row_of c) es = Inr rows \<and> traverse (stored_row_of c) (latest_in_batch es) = Inr lts
          \<and> tx_tables tx = \<lparr> events_tbl = fold insert_or_ignore rows (events_tbl st),
               latest_tbl = fold upsert_latest lts (latest_tbl st) \<rparr>)"
      using append_body_cases [where c = c and f = f and es = es and tx = "tx_begin st"]
      unfolding b prod.case tables by (cases r) (auto intro: fault_in_mono [of _ 1])
    then show ?thesis
      unfolding range by (cases r) (simp_all add: cold_append_def False None b tx_drop_def tx_commit_def before)
  qed (simp add: cold_append_def False append_calls_def fault_inI)
qed

lemma cold_append_encodable:
  assumes "ulid_codec c" and "\<forall>e \<in> set es. encodable c e"
  shows "cold_append c None es st =
    (\<lparr> events_tbl = fold insert_or_ignore (map (enc_ev c) es) (events_tbl st),
       latest_tbl = fold upsert_latest (map (enc c) (latest_in_batch es)) (latest_tbl st) \<rparr>, Inr ())"
proof -
  have "\<forall>e \<in> set (latest_in_batch es). encodable c e"
    using set_latest_in_batch assms(2) by blast
  then have "traverse (event_row_of c) es = Inr (map (enc_ev c) es)"
      "traverse (stored_row_of c) (latest_in_batch es) = Inr (map (enc c) (latest_in_batch es))"
    using assms(2) by (auto intro!: traverse_map_Inr simp: enc_props [OF assms(1)])
  moreover have "\<not> fault_in None 0 (append_calls es) x" "\<not> (\<exists>e \<in> set es. stored_row_of c e = Inl x)" for x
    using assms(2) by (auto simp: fault_in_def enc_props [OF assms(1)])
  ultimately show ?thesis
    using cold_append_cases [where c = c and f = None and es = es and st = st] by (auto split: prod.split_asm sum.split_asm)
qed

text \<open>What every statement keeps, the call keeps.\<close>

lemma cold_append_keeps:
  assumes start: "P st"
    and ins: "\<And>e row st. e \<in> set es \<Longrightarrow> event_row_of c e = Inr row \<Longrightarrow> P st
      \<Longrightarrow> P (st\<lparr> events_tbl := insert_or_ignore row (events_tbl st) \<rparr>)"
    and ups: "\<And>e row st. e \<in> set es \<Longrightarrow> stored_row_of c e = Inr row \<Longrightarrow> P st
      \<Longrightarrow> P (st\<lparr> latest_tbl := upsert_latest row (latest_tbl st) \<rparr>)"
  shows "P (fst (cold_append c f es st))"
proof -
  have 1: "P (st'\<lparr> events_tbl := fold insert_or_ignore rows (events_tbl st') \<rparr>)"
    if "list_all2 (\<lambda>e row. event_row_of c e = Inr row) xs rows" "set xs \<subseteq> set es" "P st'" for xs rows st'
    using that
  proof (induction arbitrary: st' rule: list_all2_induct)
    case (Cons e xs row rows)
    then show ?case using ins [of e row st'] by fastforce
  qed simp
  have 2: "P (st'\<lparr> latest_tbl := fold upsert_latest rows (latest_tbl st') \<rparr>)"
    if "list_all2 (\<lambda>e row. stored_row_of c e = Inr row) xs rows" "set xs \<subseteq> set es" "P st'" for xs rows st'
    using that
  proof (induction arbitrary: st' rule: list_all2_induct)
    case (Cons e xs row rows)
    then show ?case using ups [of e row st'] by fastforce
  qed simp
  show ?thesis
  proof (cases "cold_append c f es st")
    case (Pair st' r)
    show ?thesis
    proof (cases r)
      case Inl
      then show ?thesis using cold_append_cases [where c = c and f = f and es = es and st = st] start by (simp add: Pair)
    next
      case (Inr u)
      then obtain rows lts where rows: "list_all2 (\<lambda>e row. event_row_of c e = Inr row) es rows"
          "list_all2 (\<lambda>e row. stored_row_of c e = Inr row) (latest_in_batch es) lts"
        and st': "st' = \<lparr> events_tbl = fold insert_or_ignore rows (events_tbl st), latest_tbl = fold upsert_latest lts (latest_tbl st) \<rparr>"
        using cold_append_cases [where c = c and f = f and es = es and st = st] by (auto simp: Pair traverse_Inr_iff)
      have "st' = (st\<lparr> events_tbl := fold insert_or_ignore rows (events_tbl st) \<rparr>)\<lparr> latest_tbl := fold upsert_latest lts (latest_tbl st) \<rparr>"
        by (cases st) (simp add: st')
      then show ?thesis
        using 2 [OF rows(2) set_latest_in_batch 1 [OF rows(1) subset_refl start]] by (simp add: Pair)
    qed
  qed
qed

lemma insert_or_ignore_ok: "events_ok c tbl \<Longrightarrow> row_ok c r \<Longrightarrow> events_ok c (insert_or_ignore r tbl)"
  by (simp add: events_ok_def insert_or_ignore_def)

lemma fold_insert_or_ignore_ok:
  "events_ok c tbl \<Longrightarrow> list_all (row_ok c) rows \<Longrightarrow> events_ok c (fold insert_or_ignore rows tbl)"
  by (induction rows arbitrary: tbl) (simp_all add: insert_or_ignore_ok)

lemma upsert_latest_ok:
  assumes "latest_ok c tbl" and "row_ok c row"
  shows "latest_ok c (upsert_latest row tbl)"
  unfolding latest_ok_def
proof (intro allI impI)
  fix k r
  assume "upsert_latest row tbl k = Some r"
  then have "tbl k = Some r \<or> (k = row_key row \<and> r = row)"
    by (simp add: upsert_latest_def split: option.split_asm if_split_asm)
  then show "row_ok c r \<and> row_key r = k"
  proof
    assume "tbl k = Some r"
    then show ?thesis using assms(1) unfolding latest_ok_def by blast
  next
    assume "k = row_key row \<and> r = row"
    then show ?thesis using assms(2) by simp
  qed
qed

lemma fold_upsert_latest_ok:
  "latest_ok c tbl \<Longrightarrow> list_all (row_ok c) rows \<Longrightarrow> latest_ok c (fold upsert_latest rows tbl)"
  by (induction rows arbitrary: tbl) (simp_all add: upsert_latest_ok)

lemma cold_inv_append:
  assumes "ulid_codec c" and "\<forall>e \<in> set es. encodable c e" and "cold_inv c st"
  shows "cold_inv c (fst (cold_append c f es st))"
proof (rule cold_append_keeps [where P = "cold_inv c", OF assms(3)])
  fix e row st
  assume "e \<in> set es" "cold_inv c st"
  then show "event_row_of c e = Inr row \<Longrightarrow> cold_inv c (st\<lparr> events_tbl := insert_or_ignore row (events_tbl st) \<rparr>)"
    using assms(2) enc_props(2) [OF assms(1)] row_ok_enc(2) [OF assms(1)] by (auto simp: cold_inv_def intro: insert_or_ignore_ok)
next
  fix e row st
  assume "e \<in> set es" "cold_inv c st"
  then show "stored_row_of c e = Inr row \<Longrightarrow> cold_inv c (st\<lparr> latest_tbl := upsert_latest row (latest_tbl st) \<rparr>)"
    using assms(2) enc_props(1) [OF assms(1)] row_ok_enc(1) [OF assms(1)] by (auto simp: cold_inv_def intro: upsert_latest_ok)
qed

lemma cold_inv_delete: "cold_inv c st \<Longrightarrow> cold_inv c (fst (delete_where P st))"
  by (simp add: cold_inv_def delete_where_def events_ok_def list_all_iff distinct_map_filter)

section \<open>The collapse of a batch\<close>

text \<open>The per-event reference: upsert every event of the batch in order.\<close>

definition newer :: "event \<Rightarrow> event \<Rightarrow> event" where
  "newer e cur = (if ts_ms_utc e > ts_ms_utc cur then e else cur)"

lemma newer_assoc: "newer (newer a b) d = newer a (newer b d)"
  by (auto simp: newer_def)

lemma fold_newer_assoc: "newer (fold newer xs x) d = fold newer xs (newer x d)"
  by (induction xs arbitrary: x d) (auto simp: newer_assoc)

definition current_update :: "event \<Rightarrow> (ring_key \<Rightarrow> event option) \<Rightarrow> (ring_key \<Rightarrow> event option)" where
  "current_update e m = m(event_key e \<mapsto>
     (case m (event_key e) of None \<Rightarrow> e | Some cur \<Rightarrow> newer e cur))"

definition newest :: "event list \<Rightarrow> event option \<Rightarrow> event option" where
  "newest es cur = fold (\<lambda>e acc. Some (case acc of None \<Rightarrow> e | Some d \<Rightarrow> newer e d)) es cur"

lemma newest_Some [simp]: "newest es (Some d) = Some (fold newer es d)"
  by (induction es arbitrary: d) (auto simp: newest_def)

lemma newest_simps: "newest [] cur = cur"
  "newest (e # es) cur = newest es (Some (case cur of None \<Rightarrow> e | Some d \<Rightarrow> newer e d))"
  by (simp_all add: newest_def)

lemma current_update_at: "fold current_update es m k = newest (filter (\<lambda>e. event_key e = k) es) (m k)"
  by (induction es arbitrary: m) (auto simp: current_update_def newest_simps)

lemma newest_append: "newest (xs @ ys) cur = newest ys (newest xs cur)"
  by (simp add: newest_def)

lemma filter_key_at_most_one:
  "distinct (map f vs) \<Longrightarrow> filter (\<lambda>v. f v = k) vs = [] \<or> (\<exists>v. filter (\<lambda>v. f v = k) vs = [v])"
proof (induction vs)
  case (Cons v vs)
  have "f v = k \<Longrightarrow> filter (\<lambda>v. f v = k) vs = []"
    using Cons.prems by (auto simp: filter_empty_conv image_iff)
  with Cons show ?case by auto
qed simp

lemma latest_in_batch_put_filter:
  "distinct (map event_key vs) \<Longrightarrow>
   filter (\<lambda>v. event_key v = k) (latest_in_batch_put e vs)
     = (if event_key e = k
        then (case filter (\<lambda>v. event_key v = k) vs of [] \<Rightarrow> [e] | cur # _ \<Rightarrow> [newer e cur])
        else filter (\<lambda>v. event_key v = k) vs)"
proof (induction vs)
  case (Cons v vs)
  show ?case
  proof (cases "event_key v = event_key e")
    case True
    have "event_key e = k \<Longrightarrow> filter (\<lambda>v. event_key v = k) vs = []"
      using Cons.prems True by (auto simp: filter_empty_conv image_iff)
    with True show ?thesis by (auto simp: newer_def)
  next
    case False
    with Cons show ?thesis by auto
  qed
qed simp

lemma keys_latest_in_batch_put:
  "map event_key (latest_in_batch_put e vs) =
     (if event_key e \<in> event_key ` set vs then map event_key vs else map event_key vs @ [event_key e])"
  by (induction vs) auto

lemma distinct_latest_in_batch_put:
  "distinct (map event_key vs) \<Longrightarrow> distinct (map event_key (latest_in_batch_put e vs))"
  by (auto simp: keys_latest_in_batch_put)

lemma distinct_fold_latest_in_batch_put:
  "distinct (map event_key vs) \<Longrightarrow> distinct (map event_key (fold latest_in_batch_put es vs))"
  by (induction es arbitrary: vs) (simp_all add: distinct_latest_in_batch_put)

lemma distinct_latest_in_batch: "distinct (map event_key (latest_in_batch es))"
  unfolding latest_in_batch_def by (rule distinct_fold_latest_in_batch_put) simp

lemma newest_latest_in_batch_put:
  assumes "distinct (map event_key vs)"
  shows "newest (filter (\<lambda>v. event_key v = k) (latest_in_batch_put e vs)) cur
    = newest (filter (\<lambda>v. event_key v = k) (vs @ [e])) cur"
  using filter_key_at_most_one [OF assms, of k]
  by (auto simp: latest_in_batch_put_filter [OF assms] newest_simps newer_assoc split: option.splits)

lemma newest_latest_in_batch:
  "distinct (map event_key vs) \<Longrightarrow>
   newest (filter (\<lambda>v. event_key v = k) (fold latest_in_batch_put es vs)) cur
     = newest (filter (\<lambda>v. event_key v = k) (vs @ es)) cur"
proof (induction es arbitrary: vs)
  case (Cons e es)
  have "newest (filter (\<lambda>v. event_key v = k) (latest_in_batch_put e vs @ es)) cur
      = newest (filter (\<lambda>v. event_key v = k) ((vs @ [e]) @ es)) cur"
    using newest_latest_in_batch_put [OF Cons.prems] by (simp only: filter_append newest_append)
  with Cons show ?case by (simp add: distinct_latest_in_batch_put)
qed simp

lemma current_update_collapse:
  "fold current_update (latest_in_batch es) m = fold current_update es m"
  by (rule ext) (simp add: current_update_at latest_in_batch_def newest_latest_in_batch)

lemma current_update_perm:
  assumes "distinct (map event_key vs)" and "mset ws = mset vs"
  shows "fold current_update ws m = fold current_update vs m"
proof
  fix k
  have ws: "distinct (map event_key ws)"
    using assms by (metis mset_map mset_eq_imp_distinct_iff)
  have "mset (filter (\<lambda>e. event_key e = k) ws) = mset (filter (\<lambda>e. event_key e = k) vs)"
    using assms(2) by (metis mset_filter)
  then have "filter (\<lambda>e. event_key e = k) ws = filter (\<lambda>e. event_key e = k) vs"
    using filter_key_at_most_one [OF assms(1), of k] filter_key_at_most_one [OF ws, of k]
    by (metis mset.simps(1) mset_single_iff mset_zero_iff)
  then show "fold current_update ws m k = fold current_update vs m k"
    by (simp add: current_update_at)
qed

end
