(* ===== verification/Cold_Refinement.thy ===== *)
theory Cold_Refinement
  imports Cold_Invariant
begin

text \<open>
  \<open>append\<close> refines its abstract contract. The abstract state of the cold store is a log
  \<open>ulid \<rightharpoonup> event\<close> (what \<open>get_by_id\<close> answers) and a current-state map (what \<open>latest\<close>
  answers); a batch inserts its events into the first, first write wins, and updates the second,
  strictly newer timestamp wins, event by event.
\<close>

section \<open>Abstraction\<close>

definition answer :: "cold_error + event option \<Rightarrow> event option" where
  "answer r = (case r of Inr x \<Rightarrow> x | Inl _ \<Rightarrow> None)"

definition log_of :: "codec \<Rightarrow> cold_store \<Rightarrow> ulid \<Rightarrow> event option" where
  "log_of c st i = answer (get_by_id c None i st)"

definition current_of :: "codec \<Rightarrow> cold_store \<Rightarrow> ring_key \<Rightarrow> event option" where
  "current_of c st k = answer (cold_latest c None (fst k) (snd k) st)"

definition log_insert :: "event \<Rightarrow> (ulid \<Rightarrow> event option) \<Rightarrow> (ulid \<Rightarrow> event option)" where
  "log_insert e m = (case m (event_id e) of None \<Rightarrow> m(event_id e \<mapsto> e) | Some _ \<Rightarrow> m)"

section \<open>One statement\<close>

lemma row_to_event_fields:
  assumes "row_to_event c r = Inr e"
  shows "ts_ms_utc e = c_ts_ms_utc r" and "event_key e = row_key r"
  using assms
  by (auto simp: row_to_event_def row_key_def event_key_def split: sum.split_asm)

definition decoded :: "codec \<Rightarrow> 'a stored_row_scheme option \<Rightarrow> event option" where
  "decoded c r = answer (optional_row c r)"

lemma decoded_simps:
  "decoded c None = None"
  "row_to_event c r = Inr e \<Longrightarrow> decoded c (Some r) = Some e"
  by (simp_all add: decoded_def optional_row_def answer_def)

lemma log_of_eq: "log_of c st i = decoded c (find (\<lambda>r. c_event_id r = ulid_to_string c i) (events_tbl st))"
  by (simp add: log_of_def get_by_id_def decoded_def)

lemma current_of_eq: "current_of c st k = decoded c (latest_tbl st k)"
  by (simp add: current_of_def cold_latest_def decoded_def)

lemma find_append:
  "find P (xs @ ys) = (case find P xs of None \<Rightarrow> find P ys | Some x \<Rightarrow> Some x)"
  by (induction xs) auto

lemma log_insert_or_ignore:
  assumes c: "ulid_codec c" "encodable c e" and ok: "events_ok c tbl"
  shows "(\<lambda>i. decoded c (find (\<lambda>r. c_event_id r = ulid_to_string c i) (insert_or_ignore (enc_ev c e) tbl)))
    = log_insert (stored_form e) (\<lambda>i. decoded c (find (\<lambda>r. c_event_id r = ulid_to_string c i) tbl))"
    (is "?L = log_insert _ ?M")
proof
  fix i
  let ?P = "\<lambda>i r. c_event_id r = ulid_to_string c i"
  have some: "\<exists>x. ?M j = Some x" if "find (?P j) tbl = Some r" for j r
  proof -
    from that have "r \<in> set tbl" by (auto simp: find_Some_iff)
    then have "row_ok c r" using ok by (simp add: events_ok_def list_all_iff)
    with that show ?thesis by (auto simp: row_ok_def decoded_simps)
  qed
  have present: "(c_event_id (enc_ev c e) \<in> c_event_id ` set tbl) \<longleftrightarrow> find (?P (event_id e)) tbl \<noteq> None"
    using enc_props(6) [OF c] by (force simp: find_None_iff)
  show "?L i = log_insert (stored_form e) ?M i"
  proof (cases "find (?P (event_id e)) tbl")
    case None
    then show ?thesis
      using present enc_props [OF c] ulid_to_string_inj [OF c(1)]
      by (auto simp: insert_or_ignore_def find_append log_insert_def decoded_simps split: option.split)
  next
    case (Some r)
    then show ?thesis
      using present some [OF Some] by (auto simp: insert_or_ignore_def log_insert_def)
  qed
qed

lemma current_upsert:
  assumes c: "ulid_codec c" "encodable c e" and ok: "latest_ok c tbl"
  shows "(\<lambda>k. decoded c (upsert_latest (enc c e) tbl k))
    = current_update (stored_form e) (\<lambda>k. decoded c (tbl k))"
proof
  fix k
  show "decoded c (upsert_latest (enc c e) tbl k) = current_update (stored_form e) (\<lambda>k. decoded c (tbl k)) k"
  proof (cases "tbl (event_key e)")
    case None
    then show ?thesis
      using enc_props [OF c] by (auto simp: upsert_latest_def current_update_def decoded_simps)
  next
    case (Some r)
    then obtain x where x: "row_to_event c r = Inr x"
      using ok unfolding latest_ok_def row_ok_def by blast
    then have "ts_ms_utc x = c_ts_ms_utc r" by (rule row_to_event_fields)
    then show ?thesis
      using Some x enc_props [OF c]
      by (auto simp: upsert_latest_def current_update_def decoded_simps newer_def)
  qed
qed

section \<open>A batch\<close>

lemma log_fold:
  assumes "ulid_codec c" and "list_all (encodable c) es" and "events_ok c tbl"
  shows "(\<lambda>i. decoded c (find (\<lambda>r. c_event_id r = ulid_to_string c i)
            (fold insert_or_ignore (map (enc_ev c) es) tbl)))
    = fold (log_insert \<circ> stored_form) es
        (\<lambda>i. decoded c (find (\<lambda>r. c_event_id r = ulid_to_string c i) tbl))"
  using assms(2,3)
proof (induction es arbitrary: tbl)
  case (Cons e es)
  then have e: "encodable c e" and "events_ok c (insert_or_ignore (enc_ev c e) tbl)"
    using insert_or_ignore_ok row_ok_enc(2) [OF assms(1)] by auto
  with Cons show ?case by (simp add: log_insert_or_ignore [OF assms(1) e])
qed simp

lemma current_fold:
  assumes "ulid_codec c" and "list_all (encodable c) es" and "latest_ok c tbl"
  shows "(\<lambda>k. decoded c (fold upsert_latest (map (enc c) es) tbl k))
    = fold (current_update \<circ> stored_form) es (\<lambda>k. decoded c (tbl k))"
  using assms(2,3)
proof (induction es arbitrary: tbl)
  case (Cons e es)
  then have e: "encodable c e" and "latest_ok c (upsert_latest (enc c e) tbl)"
    using upsert_latest_ok row_ok_enc(1) [OF assms(1)] by auto
  with Cons show ?case by (simp add: current_upsert [OF assms(1) e])
qed simp

lemma latest_in_batch_stored_form:
  "latest_in_batch (map stored_form es) = map stored_form (latest_in_batch es)"
proof -
  have put: "latest_in_batch_put (stored_form e) (map stored_form vs)
      = map stored_form (latest_in_batch_put e vs)" for e vs
    by (induction vs) auto
  have "fold latest_in_batch_put (map stored_form es) (map stored_form vs)
      = map stored_form (fold latest_in_batch_put es vs)" for vs
    by (induction es arbitrary: vs) (auto simp: put)
  from this [of "[]"] show ?thesis by (simp add: latest_in_batch_def)
qed

lemma current_collapse_stored:
  "fold (current_update \<circ> stored_form) (latest_in_batch es) m = fold (current_update \<circ> stored_form) es m"
  using current_update_collapse [of "map stored_form es" m]
  by (simp add: latest_in_batch_stored_form fold_map)

text \<open>The contract of a batch, in the abstract state.\<close>

lemma cold_append_abs:
  assumes "ulid_codec c" and "list_all (encodable c) es" and "cold_inv c st"
  shows "log_of c (fst (cold_append c None es st)) = fold (log_insert \<circ> stored_form) es (log_of c st)"
    and "current_of c (fst (cold_append c None es st))
      = fold (current_update \<circ> stored_form) es (current_of c st)"
proof -
  have enc: "\<forall>e \<in> set es. encodable c e" using assms(2) by (simp add: list_all_iff)
  have encl: "list_all (encodable c) (latest_in_batch es)"
    using enc set_latest_in_batch by (auto simp: list_all_iff)
  have ok: "events_ok c (events_tbl st)" "latest_ok c (latest_tbl st)"
    using assms(3) by (auto simp: cold_inv_def)
  show "log_of c (fst (cold_append c None es st)) = fold (log_insert \<circ> stored_form) es (log_of c st)"
    using log_fold [OF assms(1,2) ok(1)]
    by (simp add: log_of_eq [abs_def] cold_append_encodable [OF assms(1) enc])
  show "current_of c (fst (cold_append c None es st))
      = fold (current_update \<circ> stored_form) es (current_of c st)"
    using current_fold [OF assms(1) encl ok(2)]
    by (simp add: current_of_eq [abs_def] cold_append_encodable [OF assms(1) enc] current_collapse_stored)
qed

lemma log_insert_fold_keeps: "m i = Some x \<Longrightarrow> fold (log_insert \<circ> f) es m i = Some x"
proof (induction es arbitrary: m)
  case (Cons e es)
  then have "log_insert (f e) m i = Some x" by (auto simp: log_insert_def split: option.split)
  then show ?case using Cons.IH by simp
qed simp

lemma log_insert_fold_dom:
  "fold (log_insert \<circ> stored_form) es m i = None \<longleftrightarrow> m i = None \<and> i \<notin> event_id ` set es"
proof (induction es arbitrary: m)
  case (Cons e es)
  then show ?case by (auto simp: log_insert_def split: option.splits)
qed simp

lemma log_insert_fold_idem:
  "event_id ` set es \<subseteq> dom m \<Longrightarrow> fold (log_insert \<circ> stored_form) es m = m"
proof (induction es arbitrary: m)
  case (Cons e es)
  then have "log_insert (stored_form e) m = m" by (auto simp: log_insert_def)
  with Cons show ?case by simp
qed simp

lemma newer_ts: "ts_ms_utc (newer a b) = max (ts_ms_utc a) (ts_ms_utc b)"
  by (simp add: newer_def)

lemma fold_newer_ge_init: "ts_ms_utc d \<le> ts_ms_utc (fold newer xs d)"
proof (induction xs arbitrary: d)
  case (Cons y ys)
  have "ts_ms_utc d \<le> ts_ms_utc (newer y d)" by (simp add: newer_ts)
  also have "\<dots> \<le> ts_ms_utc (fold newer ys (newer y d))" by (rule Cons.IH)
  finally show ?case by simp
qed simp

lemma fold_newer_ge:
  "x \<in> insert d (set xs) \<Longrightarrow> ts_ms_utc x \<le> ts_ms_utc (fold newer xs d)"
proof (induction xs arbitrary: d)
  case (Cons y ys)
  show ?case
  proof (cases "x \<in> set ys")
    case True
    then show ?thesis using Cons.IH by simp
  next
    case False
    then have "ts_ms_utc x \<le> ts_ms_utc (newer y d)" using Cons.prems by (auto simp: newer_ts)
    also have "\<dots> \<le> ts_ms_utc (fold newer ys (newer y d))" by (rule fold_newer_ge_init)
    finally show ?thesis by simp
  qed
qed simp

lemma fold_newer_absorb: "\<forall>x \<in> set xs. ts_ms_utc x \<le> ts_ms_utc d \<Longrightarrow> fold newer xs d = d"
  by (induction xs) (auto simp: newer_def)

lemma newest_idem: "newest es (newest es cur) = newest es cur"
proof (cases "newest es cur")
  case None
  then have "es = []" by (cases es) (auto simp: newest_simps)
  then show ?thesis by (simp add: newest_simps)
next
  case (Some d)
  have "\<forall>x \<in> set es. ts_ms_utc x \<le> ts_ms_utc d"
  proof (cases cur)
    case None
    show ?thesis
    proof (cases es)
      case (Cons y ys)
      then have "d = fold newer ys y" using Some None by (simp add: newest_simps)
      then show ?thesis using Cons fold_newer_ge [of _ y ys] by auto
    qed simp
  next
    case (Some b)
    then show ?thesis using fold_newer_ge [of _ b es] \<open>newest es cur = Some d\<close> by auto
  qed
  then show ?thesis using Some fold_newer_absorb by simp
qed

lemma current_update_fold_idem:
  "fold (current_update \<circ> stored_form) es (fold (current_update \<circ> stored_form) es m)
    = fold (current_update \<circ> stored_form) es m"
  by (rule ext) (simp add: fold_map [symmetric] current_update_at newest_idem)

section \<open>Properties\<close>

text \<open>
  C1. \<open>append\<close> refines the abstract cold store: on encodable events and a working engine it
  succeeds, keeps the invariant, adds exactly the events whose id is new (the first write of an
  id wins, also inside a batch), and moves \<open>latest\<close> exactly as upserting the events one by one
  would, although it runs one upsert per \<open>(source_id, kind)\<close> on the collapsed batch.
\<close>

theorem cold_append_refines:
  assumes "ulid_codec c" and "list_all (encodable c) es" and "cold_inv c st"
  shows "snd (cold_append c None es st) = Inr ()
    \<and> cold_inv c (fst (cold_append c None es st))
    \<and> log_of c (fst (cold_append c None es st)) = fold (log_insert \<circ> stored_form) es (log_of c st)
    \<and> current_of c (fst (cold_append c None es st))
        = fold (current_update \<circ> stored_form) es (current_of c st)"
proof -
  have enc: "\<forall>e \<in> set es. encodable c e" using assms(2) by (simp add: list_all_iff)
  have "snd (cold_append c None es st) = Inr ()"
    by (simp add: cold_append_encodable [OF assms(1) enc])
  then show ?thesis
    using cold_append_abs [OF assms] cold_inv_append [OF assms(1) enc assms(3)] by blast
qed

theorem cold_append_refines_witness:
  "log_of demo_codec (fst (cold_append demo_codec None [sample_event 1 ''s'' ''k'' 7] cold_open_in_memory)) 1
     = Some (stored_form (sample_event 1 ''s'' ''k'' 7))"
proof -
  have "log_of demo_codec (fst (cold_append demo_codec None [sample_event 1 ''s'' ''k'' 7] cold_open_in_memory))
      = log_insert (stored_form (sample_event 1 ''s'' ''k'' 7)) (log_of demo_codec cold_open_in_memory)"
    using cold_append_refines [OF demo_ulid_codec _ cold_inv_open, of "[sample_event 1 ''s'' ''k'' 7]"]
    by (simp add: demo_encodable)
  moreover have "log_of demo_codec cold_open_in_memory i = None" for i
    by (simp add: log_of_eq cold_open_in_memory_def decoded_simps)
  ultimately show ?thesis by (simp add: log_insert_def)
qed

text \<open>
  Re-sending a batch changes nothing: appending the same events a second time leaves both the
  log and the current-state map as the first append left them (the idempotent dedupe on
  \<open>event_id\<close> that forwarding with retries relies on).
\<close>

lemma cold_append_idempotent:
  assumes "ulid_codec c" and "list_all (encodable c) es" and "cold_inv c st"
  shows "let st1 = fst (cold_append c None es st); st2 = fst (cold_append c None es st1)
    in log_of c st2 = log_of c st1 \<and> current_of c st2 = current_of c st1"
proof -
  let ?st1 = "fst (cold_append c None es st)"
  have inv: "cold_inv c ?st1"
    using cold_inv_append [OF assms(1) _ assms(3)] assms(2) by (simp add: list_all_iff)
  have "event_id ` set es \<subseteq> dom (log_of c ?st1)"
    unfolding cold_append_abs(1) [OF assms] by (rule subsetI) (simp only: dom_def mem_Collect_eq log_insert_fold_dom, blast)
  then show ?thesis
    using cold_append_abs [OF assms(1,2) inv] cold_append_abs(2) [OF assms]
    by (simp add: Let_def log_insert_fold_idem current_update_fold_idem)
qed

text \<open>
  C16. \<open>append\<close> is atomic, wherever in its transaction a call of the engine fails or an event cannot be encoded, also when part of
  the batch has been written by then: it reports that error and both tables are what they were, or it
  reports none, no call failed, and every event of the batch has been written to both tables.
\<close>

theorem cold_append_atomic:
  "case cold_append c f es st of
     (st', Inl x) \<Rightarrow> st' = st \<and> ((\<exists>i \<in> {0 ..< append_calls es}. \<exists>e. f = Some (i, e) \<and> x = Sqlite e)
         \<or> (\<exists>e \<in> set es. stored_row_of c e = Inl x))
   | (st', Inr _) \<Rightarrow> (es = [] \<or> (case f of None \<Rightarrow> True | Some (i, _) \<Rightarrow> append_calls es \<le> i))
       \<and> (\<exists>rows lts. traverse (event_row_of c) es = Inr rows \<and> traverse (stored_row_of c) (latest_in_batch es) = Inr lts
          \<and> st' = \<lparr> events_tbl = fold insert_or_ignore rows (events_tbl st), latest_tbl = fold upsert_latest lts (latest_tbl st) \<rparr>)"
proof -
  have "append_calls es \<le> i" if "\<forall>j \<in> {0 ..< append_calls es}. fails_at (Some (i, e)) j = None" for i e
    using that by (force simp: fails_at_def not_le [symmetric])
  then show ?thesis
    using cold_append_cases [where c = c and f = f and es = es and st = st] unfolding fault_in_def
    by (cases "cold_append c f es st") (auto split: sum.split_asm option.split)
qed

theorem cold_append_atomic_witness:
  "let es = [sample_event 2 ''s'' ''k'' 7, sample_event 3 ''s'' ''k'' 8]; f = Some (3, Engine ''disk full'')
   in cold_append demo_codec f es cold_open_in_memory = (cold_open_in_memory, Inl (Sqlite (Engine ''disk full'')))
     \<and> length (events_tbl (tx_tables (fst (append_body demo_codec f es (tx_begin cold_open_in_memory))))) = 1"
proof -
  let ?es = "[sample_event 2 ''s'' ''k'' 7, sample_event 3 ''s'' ''k'' 8]" and ?f = "Some (3, Engine ''disk full'')"
  have "length (latest_in_batch ?es) = 1" by (simp add: latest_in_batch_def event_key_def)
  then have calls: "append_calls ?es = 7" by (simp add: append_calls_def)
  have enc: "stored_row_of demo_codec e \<noteq> Inl x" if "e \<in> set ?es" for e x
    using that enc_props(1) [OF demo_ulid_codec] by auto
  have "cold_append demo_codec ?f ?es cold_open_in_memory = (cold_open_in_memory, Inl (Sqlite (Engine ''disk full'')))"
    using cold_append_atomic [where c = demo_codec and f = ?f and es = ?es and st = cold_open_in_memory] enc
    by (cases "cold_append demo_codec ?f ?es cold_open_in_memory") (auto simp: calls split: sum.split_asm)
  moreover have "event_row_of demo_codec (sample_event i s k t) = Inr (enc_ev demo_codec (sample_event i s k t))" for i s k t
    by (rule enc_props(2)) simp_all
  then have "length (events_tbl (tx_tables (fst (append_body demo_codec ?f ?es (tx_begin cold_open_in_memory))))) = 1"
    by (simp add: append_body_def fails_at_def tx_begin_def cold_open_in_memory_def insert_or_ignore_def)
  ultimately show ?thesis by (simp add: Let_def)
qed

end
