(* ===== verification/Batch_Loop.thy ===== *)
theory Batch_Loop
  imports Prelude
begin

text \<open>
  The buffer-and-flush loop. Four tasks of the program have the same shape: the cold writer, the
  embedder task, the forwarder and the client's batcher each receive items from a channel, push them
  on a buffer, and flush it when it is full, when a ticker fires and when the channel closes. Each is
  modelled in its own theory as it is written; the locale \<open>batch_task\<close> is what they have in common,
  and what follows from it.
\<close>

text \<open>What \<open>select!\<close> yields: an item, the ticker, or the end of the channel.\<close>

datatype 'e batch_input = Recv 'e | Tick | Closed

fun received :: "'e batch_input list \<Rightarrow> 'e list" where
  "received [] = []"
| "received (Recv e # is) = e # received is"
| "received (_ # is) = received is"

lemma received_append: "received (xs @ ys) = received xs @ received ys"
  by (induction xs rule: received.induct) auto

locale batch_task =
  fixes conv :: "'e \<Rightarrow> 'b"
    and bufr :: "'s \<Rightarrow> 'b list"
    and sink :: "'s \<Rightarrow> 'w"
    and size_of :: "'s \<Rightarrow> nat"
    and push :: "'e \<Rightarrow> 's \<Rightarrow> 's"
    and flush :: "'f \<Rightarrow> 's \<Rightarrow> 's"
    and step :: "'f \<Rightarrow> 'e batch_input \<Rightarrow> 's \<Rightarrow> 's"
    and deliver :: "'f \<Rightarrow> 'b list \<Rightarrow> 'w \<Rightarrow> 'w"
  assumes push_buf: "bufr (push e s) = bufr s @ [conv e]"
    and push_sink: "sink (push e s) = sink s"
    and push_size: "size_of (push e s) = size_of s"
    and flush_buf: "bufr (flush f s) = []"
    and flush_sink: "sink (flush f s) = deliver f (bufr s) (sink s)"
    and flush_size: "size_of (flush f s) = size_of s"
    and step_recv: "step f (Recv e) s =
      (if length (bufr (push e s)) \<ge> size_of s then flush f (push e s) else push e s)"
    and step_tick: "step f Tick s = (if bufr s = [] then s else flush f s)"
    and step_closed: "step f Closed s = (if bufr s = [] then s else flush f s)"
begin

definition run :: "('f \<times> 'e batch_input) list \<Rightarrow> 's \<Rightarrow> 's" where
  "run is s = fold (\<lambda>(f, i). step f i) is s"

lemma run_simps: "run [] s = s" "run ((f, i) # is) s = run is (step f i s)"
  by (simp_all add: run_def)

lemma run_append: "run (xs @ ys) s = run ys (run xs s)"
  by (simp add: run_def)

lemma step_size: "size_of (step f i s) = size_of s"
  by (cases i) (simp_all add: step_recv step_tick step_closed push_size flush_size)

lemma run_size: "size_of (run is s) = size_of s"
  by (induction "is" arbitrary: s) (auto simp: run_simps step_size)

text \<open>The buffer never holds a full batch between two steps.\<close>

lemma step_bounded:
  assumes "length (bufr s) < max 1 (size_of s)"
  shows "length (bufr (step f i s)) < max 1 (size_of s)"
  using assms by (cases i) (auto simp: step_recv step_tick step_closed push_buf flush_buf)

lemma run_bounded:
  assumes "length (bufr s) < max 1 (size_of s)"
  shows "length (bufr (run is s)) < max 1 (size_of s)"
  using assms
proof (induction "is" arbitrary: s)
  case (Cons p "is")
  obtain f i where p: "p = (f, i)" by (cases p)
  have "length (bufr (step f i s)) < max 1 (size_of (step f i s))"
    using step_bounded [OF Cons.prems] by (simp add: step_size)
  from Cons.IH [OF this] show ?case by (simp add: p run_simps step_size)
qed (simp add: run_simps)

text \<open>One step delivers nothing or one non-empty batch, and loses nothing.\<close>

definition batch_ok :: "nat \<Rightarrow> 'b list \<Rightarrow> bool" where
  "batch_ok n b \<longleftrightarrow> b \<noteq> [] \<and> length b \<le> max 1 n"

lemma step_batches:
  assumes "length (bufr s) < max 1 (size_of s)"
  shows "\<exists>bs. sink (step f i s) = fold (deliver f) bs (sink s) \<and> list_all (batch_ok (size_of s)) bs
    \<and> concat bs @ bufr (step f i s) = bufr s @ map conv (received [i])"
proof (cases i)
  case (Recv e)
  show ?thesis
  proof (cases "length (bufr (push e s)) \<ge> size_of s")
    case True
    then show ?thesis
      using assms Recv
      by (intro exI [of _ "[bufr s @ [conv e]]"])
        (auto simp: step_recv push_buf push_sink flush_buf flush_sink batch_ok_def)
  next
    case False
    then show ?thesis
      using Recv by (intro exI [of _ "[]"]) (simp add: step_recv push_buf push_sink)
  qed
next
  case Tick
  then show ?thesis
    using assms
    by (cases "bufr s = []"; intro exI [of _ "if bufr s = [] then [] else [bufr s]"])
      (auto simp: step_tick flush_buf flush_sink batch_ok_def)
next
  case Closed
  then show ?thesis
    using assms
    by (cases "bufr s = []"; intro exI [of _ "if bufr s = [] then [] else [bufr s]"])
      (auto simp: step_closed flush_buf flush_sink batch_ok_def)
qed

text \<open>
  Conservation: over a whole run the delivered batches followed by the buffer are the initial buffer
  followed by the received items, in order; every batch is non-empty and within the batch size.
\<close>

lemma run_batches:
  assumes "length (bufr s) < max 1 (size_of s)"
  shows "\<exists>ds. sink (run is s) = fold (\<lambda>(f, b). deliver f b) ds (sink s)
    \<and> list_all (batch_ok (size_of s) \<circ> snd) ds \<and> set (map fst ds) \<subseteq> set (map fst is)
    \<and> concat (map snd ds) @ bufr (run is s) = bufr s @ map conv (received (map snd is))"
  using assms
proof (induction "is" arbitrary: s)
  case Nil
  then show ?case by (intro exI [of _ "[]"]) (simp add: run_simps)
next
  case (Cons p "is")
  obtain f i where p: "p = (f, i)" by (cases p)
  obtain bs where bs: "sink (step f i s) = fold (deliver f) bs (sink s)"
      "list_all (batch_ok (size_of s)) bs"
      "concat bs @ bufr (step f i s) = bufr s @ map conv (received [i])"
    using step_batches [OF Cons.prems] by blast
  have "length (bufr (step f i s)) < max 1 (size_of (step f i s))"
    using step_bounded [OF Cons.prems] by (simp add: step_size)
  from Cons.IH [OF this, unfolded step_size] obtain ds where ds:
      "sink (run is (step f i s)) = fold (\<lambda>(f, b). deliver f b) ds (sink (step f i s))"
      "list_all (batch_ok (size_of s) \<circ> snd) ds" "set (map fst ds) \<subseteq> set (map fst is)"
      "concat (map snd ds) @ bufr (run is (step f i s)) = bufr (step f i s) @ map conv (received (map snd is))"
    by blast
  have "fold (deliver f) bs w = fold (\<lambda>(f, b). deliver f b) (map (Pair f) bs) w" for w
    by (induction bs arbitrary: w) auto
  then have "sink (run (p # is) s) = fold (\<lambda>(f, b). deliver f b) (map (Pair f) bs @ ds) (sink s)"
    using bs(1) ds(1) by (simp add: p run_simps)
  moreover have "received (map snd (p # is)) = received [i] @ received (map snd is)"
    using received_append [of "[i]" "map snd is"] by (simp add: p)
  then have "bufr s @ map conv (received (map snd (p # is)))
      = (concat bs @ bufr (step f i s)) @ map conv (received (map snd is))"
    by (simp add: bs(3))
  then have "concat (map snd (map (Pair f) bs @ ds)) @ bufr (run (p # is) s)
      = bufr s @ map conv (received (map snd (p # is)))"
    by (simp add: p run_simps comp_def ds(4))
  moreover have "list_all (batch_ok (size_of s) \<circ> snd) (map (Pair f) bs @ ds)"
      "set (map fst (map (Pair f) bs @ ds)) \<subseteq> set (map fst (p # is))"
    using bs(2) ds(2,3) by (auto simp: p list_all_iff)
  ultimately show ?case by blast
qed

text \<open>A run that starts with an empty buffer.\<close>

lemma start_bounded: "bufr s = [] \<Longrightarrow> length (bufr s) < max 1 (size_of s)"
  by simp

lemma run_batches_empty:
  assumes "bufr s = []"
  shows "\<exists>ds. sink (run is s) = fold (\<lambda>(f, b). deliver f b) ds (sink s)
    \<and> list_all (batch_ok (size_of s) \<circ> snd) ds \<and> set (map fst ds) \<subseteq> set (map fst is)
    \<and> concat (map snd ds) @ bufr (run is s) = map conv (received (map snd is))"
  using run_batches [OF start_bounded [OF assms], of "is"] by (simp only: assms append_Nil)

text \<open>When the channel has closed nothing is left in the buffer.\<close>

lemma run_closed: "bufr (run (is @ [(f, Closed)]) s) = []"
  by (simp add: run_append run_simps step_closed flush_buf)

lemma run_closed_batches:
  assumes "bufr s = []"
  shows "\<exists>ds. sink (run (is @ [(f, Closed)]) s) = fold (\<lambda>(f, b). deliver f b) ds (sink s)
    \<and> list_all (batch_ok (size_of s) \<circ> snd) ds \<and> set (map fst ds) \<subseteq> insert f (set (map fst is))
    \<and> concat (map snd ds) = map conv (received (map snd is))"
  using run_batches_empty [OF assms, of "is @ [(f, Closed)]"]
  by (simp add: run_closed received_append)

end

end
