(* ===== verification/Cold_Writer.thy ===== *)
theory Cold_Writer
  imports Cold_Refinement Batch_Loop
begin

text \<open>
  \<open>crates/store/src/cold/writer.rs\<close>: the task that drains the normalizer's events into the cold
  store in batches. A failed commit drops its batch and counts it. Counters are natural numbers
  (no run reaches \<open>2^64\<close>).
\<close>

section \<open>State and steps\<close>

record cold_writer_config =
  cw_batch_size :: usize
  cw_batch_age :: duration

definition cold_writer_config_default :: cold_writer_config where
  "cold_writer_config_default = \<lparr> cw_batch_size = 256, cw_batch_age = from_millis 500 \<rparr>"

record cold_writer_metrics =
  cm_batches_committed :: u64
  cm_events_committed :: u64
  cm_events_dropped :: u64
  cm_commit_errors :: u64
  cm_pending_buffer :: u64

record cold_writer =
  cw_store :: cold_store
  cw_metrics :: cold_writer_metrics
  cw_config :: cold_writer_config
  cw_buf :: "event list"

definition cold_writer_new :: "cold_store \<Rightarrow> cold_writer_config \<Rightarrow> cold_writer" where
  "cold_writer_new st cfg = \<lparr> cw_store = st,
     cw_metrics = \<lparr> cm_batches_committed = 0, cm_events_committed = 0, cm_events_dropped = 0,
       cm_commit_errors = 0, cm_pending_buffer = 0 \<rparr>,
     cw_config = cfg, cw_buf = [] \<rparr>"

text \<open>What one flush does to the store and the counters.\<close>

definition commit_batch :: "codec \<Rightarrow> tx_fault \<Rightarrow> event list
    \<Rightarrow> cold_store \<times> cold_writer_metrics \<Rightarrow> cold_store \<times> cold_writer_metrics" where
  "commit_batch c db buf = (\<lambda>(st, m).
     let n = length buf in
     case cold_append c db buf st of
       (st', Inr _) \<Rightarrow> (st', m\<lparr> cm_batches_committed := cm_batches_committed m + 1,
          cm_events_committed := cm_events_committed m + n \<rparr>)
     | (st', Inl _) \<Rightarrow> (st', m\<lparr> cm_commit_errors := cm_commit_errors m + 1,
          cm_events_dropped := cm_events_dropped m + n \<rparr>))"

definition cold_writer_flush :: "codec \<Rightarrow> tx_fault \<Rightarrow> cold_writer \<Rightarrow> cold_writer" where
  "cold_writer_flush c db w =
     (case commit_batch c db (cw_buf w) (cw_store w, cw_metrics w) of
        (st, m) \<Rightarrow> w\<lparr> cw_store := st, cw_metrics := m\<lparr> cm_pending_buffer := 0 \<rparr>, cw_buf := [] \<rparr>)"

definition cold_writer_push :: "event \<Rightarrow> cold_writer \<Rightarrow> cold_writer" where
  "cold_writer_push e w =
     (let buf = cw_buf w @ [e]
      in w\<lparr> cw_buf := buf, cw_metrics := (cw_metrics w)\<lparr> cm_pending_buffer := length buf \<rparr> \<rparr>)"

text \<open>One turn of the loop; on \<open>Closed\<close> the task ends after it.\<close>

fun cold_writer_step :: "codec \<Rightarrow> tx_fault \<Rightarrow> event batch_input \<Rightarrow> cold_writer \<Rightarrow> cold_writer" where
  "cold_writer_step c db (Recv e) w =
     (let w' = cold_writer_push e w in
      if length (cw_buf w') \<ge> cw_batch_size (cw_config w) then cold_writer_flush c db w' else w')"
| "cold_writer_step c db Tick w = (if cw_buf w = [] then w else cold_writer_flush c db w)"
| "cold_writer_step c db Closed w = (if cw_buf w = [] then w else cold_writer_flush c db w)"

definition cold_writer_run :: "codec \<Rightarrow> (tx_fault \<times> event batch_input) list \<Rightarrow> cold_writer \<Rightarrow> cold_writer" where
  "cold_writer_run c is w = fold (\<lambda>(db, i). cold_writer_step c db i) is w"

section \<open>The loop contract\<close>

text \<open>The store and the counters, without the gauge.\<close>

definition cw_sink :: "cold_writer \<Rightarrow> cold_store \<times> cold_writer_metrics" where
  "cw_sink w = (cw_store w, (cw_metrics w)\<lparr> cm_pending_buffer := 0 \<rparr>)"

lemma commit_batch_gauge:
  "commit_batch c db buf (st, m\<lparr> cm_pending_buffer := g \<rparr>)
     = (case commit_batch c db buf (st, m) of (st', m') \<Rightarrow> (st', m'\<lparr> cm_pending_buffer := g \<rparr>))"
  by (auto simp: commit_batch_def Let_def split: prod.split sum.split)

interpretation cw: batch_task "\<lambda>e. e" cw_buf cw_sink "\<lambda>w. cw_batch_size (cw_config w)" cold_writer_push
    "cold_writer_flush c" "cold_writer_step c" "commit_batch c" for c
  by unfold_locales
    (auto simp: cold_writer_push_def cold_writer_flush_def cw_sink_def commit_batch_gauge Let_def
      split: prod.split)

lemma cw_run_eq: "cw.run c is w = cold_writer_run c is w"
  by (simp add: cw.run_def cold_writer_run_def)

section \<open>A run\<close>

definition cw_total :: "cold_store \<times> cold_writer_metrics \<Rightarrow> nat" where
  "cw_total s = cm_events_committed (snd s) + cm_events_dropped (snd s)"

lemma commit_batch_total: "cw_total (commit_batch c db b s) = cw_total s + length b"
  by (cases s) (auto simp: commit_batch_def cw_total_def Let_def split: prod.split sum.split)

lemma deliveries_total:
  "cw_total (fold (\<lambda>(f, b). commit_batch c f b) ds s) = cw_total s + length (concat (map snd ds))"
  by (induction ds arbitrary: s) (auto simp: commit_batch_total)

text \<open>With a working engine every batch is committed, and the log is what inserting them gives.\<close>

lemma commit_batch_ok:
  assumes "ulid_codec c" and "list_all (encodable c) b" and "cold_inv c (fst s)"
  shows "cold_inv c (fst (commit_batch c None b s))"
    and "log_of c (fst (commit_batch c None b s)) = fold (log_insert \<circ> stored_form) b (log_of c (fst s))"
    and "current_of c (fst (commit_batch c None b s)) = fold (current_update \<circ> stored_form) b (current_of c (fst s))"
    and "cm_events_dropped (snd (commit_batch c None b s)) = cm_events_dropped (snd s)"
proof -
  obtain st m where s: "s = (st, m)" by (cases s)
  have enc: "\<forall>e \<in> set b. encodable c e" using assms(2) by (simp add: list_all_iff)
  have ok: "snd (cold_append c None b st) = Inr ()"
    by (simp add: cold_append_encodable [OF assms(1) enc])
  have fst: "fst (commit_batch c None b s) = fst (cold_append c None b st)"
    using ok by (cases "cold_append c None b st") (simp add: s commit_batch_def Let_def)
  show "cold_inv c (fst (commit_batch c None b s))"
    unfolding fst using cold_inv_append [OF assms(1) enc] assms(3) by (simp add: s)
  show "log_of c (fst (commit_batch c None b s)) = fold (log_insert \<circ> stored_form) b (log_of c (fst s))"
    unfolding fst using cold_append_abs(1) [OF assms(1,2)] assms(3) by (simp add: s)
  show "current_of c (fst (commit_batch c None b s)) = fold (current_update \<circ> stored_form) b (current_of c (fst s))"
    unfolding fst using cold_append_abs(2) [OF assms(1,2)] assms(3) by (simp add: s)
  show "cm_events_dropped (snd (commit_batch c None b s)) = cm_events_dropped (snd s)"
    using ok by (cases "cold_append c None b st") (simp add: s commit_batch_def Let_def)
qed

lemma deliveries_ok:
  assumes "ulid_codec c" and "list_all (list_all (encodable c) \<circ> snd) ds" and "\<forall>d \<in> set ds. fst d = None"
    and "cold_inv c (fst s)"
  shows "log_of c (fst (fold (\<lambda>(f, b). commit_batch c f b) ds s))
      = fold (log_insert \<circ> stored_form) (concat (map snd ds)) (log_of c (fst s))
    \<and> current_of c (fst (fold (\<lambda>(f, b). commit_batch c f b) ds s))
      = fold (current_update \<circ> stored_form) (concat (map snd ds)) (current_of c (fst s))
    \<and> cm_events_dropped (snd (fold (\<lambda>(f, b). commit_batch c f b) ds s)) = cm_events_dropped (snd s)"
  using assms(2-)
proof (induction ds arbitrary: s)
  case (Cons d ds)
  obtain b where d: "d = (None, b)" using Cons.prems(2) by (cases d) auto
  note b = commit_batch_ok [OF assms(1), of b s]
  show ?case
    using Cons.IH [of "commit_batch c None b s"] Cons.prems b by (simp add: d comp_def)
qed simp

text \<open>A run to the end of the channel, with a working engine.\<close>

lemma cold_writer_closed:
  assumes "ulid_codec c" and "cold_inv c st"
    and "list_all (encodable c) (received (map snd is))" and "\<forall>p \<in> set is. fst p = None"
  shows "let w = cold_writer_run c (is @ [(None, Closed)]) (cold_writer_new st cfg)
    in cw_buf w = [] \<and> cm_events_dropped (cw_metrics w) = 0
      \<and> cm_events_committed (cw_metrics w) = length (received (map snd is))
      \<and> log_of c (cw_store w) = fold (log_insert \<circ> stored_form) (received (map snd is)) (log_of c st)
      \<and> current_of c (cw_store w)
          = fold (current_update \<circ> stored_form) (received (map snd is)) (current_of c st)"
proof -
  let ?init = "cold_writer_new st cfg" and ?is = "is @ [(None, Closed)]"
  let ?w = "cold_writer_run c ?is ?init"
  have start: "cw_buf ?init = []" "cw_sink ?init = (st, cw_metrics ?init)"
    by (simp_all add: cold_writer_new_def cw_sink_def)
  have closed: "cw_buf ?w = []" using cw.run_closed by (simp add: cw_run_eq [symmetric])
  obtain ds where ds: "cw_sink ?w = fold (\<lambda>(f, b). commit_batch c f b) ds (cw_sink ?init)"
      "set (map fst ds) \<subseteq> insert None (set (map fst is))"
      "concat (map snd ds) = received (map snd is)"
    using cw.run_closed_batches [OF start(1), of c "is" None] unfolding cw_run_eq list.map_ident by blast
  have none: "\<forall>d \<in> set ds. fst d = None" using ds(2) assms(4) by fastforce
  have enc: "list_all (list_all (encodable c) \<circ> snd) ds"
    using assms(3) unfolding ds(3) [symmetric] by (auto simp: list_all_iff)
  have sink: "fst (cw_sink w) = cw_store w" "cm_events_dropped (snd (cw_sink w)) = cm_events_dropped (cw_metrics w)"
      "cw_total (cw_sink w) = cm_events_committed (cw_metrics w) + cm_events_dropped (cw_metrics w)" for w
    by (simp_all add: cw_sink_def cw_total_def)
  have zero: "cm_events_committed (cw_metrics ?init) = 0" "cm_events_dropped (cw_metrics ?init) = 0"
    by (simp_all add: cold_writer_new_def)
  have store: "cw_store ?init = st" by (simp add: cold_writer_new_def)
  then have "cold_inv c (fst (cw_sink ?init))" using assms(2) by (simp add: sink)
  note ok = deliveries_ok [OF assms(1) enc none this, folded ds(1), unfolded ds(3) sink store zero]
  have "cw_total (cw_sink ?w) = length (received (map snd is))"
    using deliveries_total [of c ds "cw_sink ?init", folded ds(1), unfolded ds(3)]
    by (simp add: sink zero)
  with ok closed show ?thesis by (simp add: Let_def sink)
qed

section \<open>Properties\<close>

text \<open>
  C6. The cold writer loses nothing: with a working engine and encodable events, once its channel has
  closed the log and the current-state map are those obtained by inserting every received event one
  by one in the order received, whatever the batch size and whenever the ticker fired.
\<close>

theorem cold_writer_durable:
  assumes "ulid_codec c" and "cold_inv c st"
    and "list_all (encodable c) (received (map snd is))" and "\<forall>p \<in> set is. fst p = None"
  shows "let w = cold_writer_run c (is @ [(None, Closed)]) (cold_writer_new st cfg)
    in cw_buf w = [] \<and> cm_events_dropped (cw_metrics w) = 0
      \<and> cm_events_committed (cw_metrics w) = length (received (map snd is))
      \<and> log_of c (cw_store w) = fold (log_insert \<circ> stored_form) (received (map snd is)) (log_of c st)
      \<and> current_of c (cw_store w)
          = fold (current_update \<circ> stored_form) (received (map snd is)) (current_of c st)"
  by (rule cold_writer_closed [OF assms])

theorem cold_writer_durable_witness:
  "log_of demo_codec (cw_store (cold_writer_run demo_codec
      [(None, Recv (sample_event 1 ''s'' ''k'' 7)), (None, Closed)]
      (cold_writer_new cold_open_in_memory cold_writer_config_default)))
    = log_insert (stored_form (sample_event 1 ''s'' ''k'' 7)) (log_of demo_codec cold_open_in_memory)"
  using cold_writer_durable [OF demo_ulid_codec cold_inv_open,
      of "[(None, Recv (sample_event 1 ''s'' ''k'' 7))]" cold_writer_config_default]
  by (simp add: Let_def)

text \<open>
  The cold writer accounts for every event, failing engine or not: at any moment the events
  committed, the events dropped and the events still buffered add up to the events received, and the
  buffer is shorter than a batch.
\<close>

lemma cold_writer_accounting:
  "let w = cold_writer_run c is (cold_writer_new st cfg)
   in cm_events_committed (cw_metrics w) + cm_events_dropped (cw_metrics w) + length (cw_buf w)
        = length (received (map snd is))
      \<and> length (cw_buf w) < max 1 (cw_batch_size cfg)"
proof -
  let ?init = "cold_writer_new st cfg" and ?w = "cold_writer_run c is (cold_writer_new st cfg)"
  have start: "cw_buf ?init = []" "cw_batch_size (cw_config ?init) = cw_batch_size cfg"
      "cw_total (cw_sink ?init) = 0"
    by (simp_all add: cold_writer_new_def cw_total_def cw_sink_def)
  obtain ds where ds: "cw_sink ?w = fold (\<lambda>(f, b). commit_batch c f b) ds (cw_sink ?init)"
      "concat (map snd ds) @ cw_buf ?w = received (map snd is)"
    using cw.run_batches_empty [OF start(1), of c "is"] unfolding cw_run_eq list.map_ident by blast
  have "cw_total (cw_sink ?w) = length (concat (map snd ds))"
    using deliveries_total [of c ds "cw_sink ?init"] ds(1) start(3) by simp
  then have "cw_total (cw_sink ?w) + length (cw_buf ?w) = length (received (map snd is))"
    using ds(2) by (metis length_append)
  moreover have "length (cw_buf ?w) < max 1 (cw_batch_size cfg)"
    using cw.run_bounded [of ?init c "is"] start by (simp add: cw_run_eq)
  ultimately show ?thesis by (simp add: Let_def cw_total_def cw_sink_def)
qed

end
