(* ===== verification/Globs.thy ===== *)
theory Globs
  imports Core_Types
begin

text \<open>
  The glob patterns of tokens, descriptor filters and vector filters. The \<open>globset\<close> crate is not
  under \<open>src/\<close>: whether a pattern compiles, whether a set of patterns builds and whether a pattern
  matches a string are parameters (record \<open>glob_lib\<close>); a compiled set is the list of its patterns,
  and matches when one of them does.
\<close>

record glob_lib =
  glob_error :: "string \<Rightarrow> string option" \<comment> \<open>\<open>Glob::new\<close>: the error, if any\<close>
  globset_error :: "string list \<Rightarrow> string option" \<comment> \<open>\<open>GlobSetBuilder::build\<close>\<close>
  glob_match :: "string \<Rightarrow> string \<Rightarrow> bool"

type_synonym glob_set = "string list"

definition glob_set_is_match :: "glob_lib \<Rightarrow> glob_set \<Rightarrow> string \<Rightarrow> bool" where
  "glob_set_is_match gl g s = list_ex (\<lambda>p. glob_match gl p s) g"

fun add_globs :: "glob_lib \<Rightarrow> string list \<Rightarrow> string + unit" where
  "add_globs gl [] = Inr ()"
| "add_globs gl (p # ps) = (case glob_error gl p of Some e \<Rightarrow> Inl e | None \<Rightarrow> add_globs gl ps)"

text \<open>Compiling a list of patterns: the first bad pattern, then the set as a whole.\<close>

definition compile_globs :: "glob_lib \<Rightarrow> string list \<Rightarrow> string + glob_set" where
  "compile_globs gl ps = (case add_globs gl ps of
     Inl e \<Rightarrow> Inl e
   | Inr _ \<Rightarrow> (case globset_error gl ps of Some e \<Rightarrow> Inl e | None \<Rightarrow> Inr ps))"

text \<open>The filters of queries: an absent or an empty list stands for no filter.\<close>

definition build_filter_globs :: "glob_lib \<Rightarrow> string list option \<Rightarrow> string + glob_set option" where
  "build_filter_globs gl patterns = (case patterns of
     None \<Rightarrow> Inr None
   | Some p \<Rightarrow> if p = [] then Inr None
       else (case compile_globs gl p of Inl e \<Rightarrow> Inl e | Inr g \<Rightarrow> Inr (Some g)))"

definition filter_globs_match :: "glob_lib \<Rightarrow> glob_set option \<Rightarrow> string \<Rightarrow> bool" where
  "filter_globs_match gl g s = (case g of None \<Rightarrow> True | Some gs \<Rightarrow> glob_set_is_match gl gs s)"

lemma add_globs_Inr: "add_globs gl ps = Inr u \<longleftrightarrow> (\<forall>p \<in> set ps. glob_error gl p = None)"
  by (induction ps) (auto split: option.splits)

lemma compile_globs_Inr:
  "compile_globs gl ps = Inr g \<longleftrightarrow>
     g = ps \<and> (\<forall>p \<in> set ps. glob_error gl p = None) \<and> globset_error gl ps = None"
proof (cases "add_globs gl ps")
  case (Inl e)
  then have "\<not> (\<forall>p \<in> set ps. glob_error gl p = None)"
    using add_globs_Inr [of gl ps "()"] by simp
  with Inl show ?thesis by (auto simp: compile_globs_def)
next
  case (Inr u)
  then have "\<forall>p \<in> set ps. glob_error gl p = None" using add_globs_Inr by blast
  with Inr show ?thesis by (auto simp: compile_globs_def split: option.splits)
qed

text \<open>A library in which every pattern compiles and matches itself or, as \<open>*\<close>, everything.\<close>

definition demo_globs :: glob_lib where
  "demo_globs = \<lparr> glob_error = (\<lambda>_. None), globset_error = (\<lambda>_. None),
     glob_match = (\<lambda>p s. p = ''*'' \<or> p = s) \<rparr>"

lemma demo_globs_simps [simp]:
  "glob_error demo_globs p = None" "globset_error demo_globs ps = None"
  "glob_match demo_globs p s \<longleftrightarrow> p = ''*'' \<or> p = s"
  by (simp_all add: demo_globs_def)

lemma compile_demo_globs [simp]: "compile_globs demo_globs ps = Inr ps"
  by (simp add: compile_globs_Inr)

end
