(* ===== verification/Float32.thy ===== *)
theory Float32
  imports Prelude
begin

text \<open>
  Rust's \<open>f32\<close>, as the vector index uses it: bit patterns, addition and multiplication with IEEE 754
  rounding to nearest even, and the partial order of \<open>partial_cmp\<close>. A \<open>NaN\<close> result is the
  canonical quiet one; Rust leaves its payload open, and no operation used here observes it.
\<close>

type_synonym f32 = nat \<comment> \<open>the 32-bit pattern\<close>

datatype ordering = Less | Equal | Greater

definition f32_sign :: "f32 \<Rightarrow> bool" where
  "f32_sign b \<longleftrightarrow> (b div 2 ^ 31) mod 2 = 1"

definition f32_exp :: "f32 \<Rightarrow> nat" where
  "f32_exp b = (b div 2 ^ 23) mod 256"

definition f32_man :: "f32 \<Rightarrow> nat" where
  "f32_man b = b mod 2 ^ 23"

definition f32_is_nan :: "f32 \<Rightarrow> bool" where
  "f32_is_nan b \<longleftrightarrow> f32_exp b = 255 \<and> f32_man b \<noteq> 0"

definition f32_is_inf :: "f32 \<Rightarrow> bool" where
  "f32_is_inf b \<longleftrightarrow> f32_exp b = 255 \<and> f32_man b = 0"

definition f32_nan :: f32 where
  "f32_nan = 0x7FC00000"

text \<open>
  The value in units of \<open>2^-149\<close>, the smallest positive \<open>f32\<close>. An infinity gets a value beyond
  every finite one, which is all the order needs.
\<close>

definition f32_mag :: "f32 \<Rightarrow> nat" where
  "f32_mag b = (if f32_exp b = 0 then f32_man b else (2 ^ 23 + f32_man b) * 2 ^ (f32_exp b - 1))"

definition f32_val :: "f32 \<Rightarrow> int" where
  "f32_val b = (if f32_sign b then - int (f32_mag b) else int (f32_mag b))"

fun bit_length :: "nat \<Rightarrow> nat" where
  "bit_length n = (if n = 0 then 0 else Suc (bit_length (n div 2)))"

declare bit_length.simps [simp del]

text \<open>Round a magnitude in units of \<open>2^-(149 + s)\<close> to nearest even; overflow gives infinity.\<close>

definition f32_round :: "nat \<Rightarrow> nat \<Rightarrow> f32" where
  "f32_round s n =
     (let e = max (bit_length n - 24) s;
          q = n div 2 ^ e;
          r = n mod 2 ^ e;
          q' = (if 2 * r > 2 ^ e \<or> (2 * r = 2 ^ e \<and> odd q) then q + 1 else q);
          bits = (e - s) * 2 ^ 23 + q'
      in min bits (255 * 2 ^ 23))"

definition f32_pack :: "bool \<Rightarrow> nat \<Rightarrow> f32" where
  "f32_pack neg bits = (if neg then 2 ^ 31 + bits else bits)"

definition f32_add :: "f32 \<Rightarrow> f32 \<Rightarrow> f32" where
  "f32_add a b =
     (if f32_is_nan a \<or> f32_is_nan b then f32_nan
      else if f32_is_inf a then (if f32_is_inf b \<and> f32_sign a \<noteq> f32_sign b then f32_nan else a)
      else if f32_is_inf b then b
      else let v = f32_val a + f32_val b in
        if v = 0 then f32_pack (f32_sign a \<and> f32_sign b) 0
        else f32_pack (v < 0) (f32_round 0 (nat \<bar>v\<bar>)))"

definition f32_mul :: "f32 \<Rightarrow> f32 \<Rightarrow> f32" where
  "f32_mul a b =
     (let neg = (f32_sign a \<noteq> f32_sign b) in
      if f32_is_nan a \<or> f32_is_nan b then f32_nan
      else if f32_is_inf a \<or> f32_is_inf b
      then (if f32_mag a = 0 \<or> f32_mag b = 0 then f32_nan else f32_pack neg (255 * 2 ^ 23))
      else f32_pack neg (f32_round 149 (f32_mag a * f32_mag b)))"

definition partial_cmp :: "f32 \<Rightarrow> f32 \<Rightarrow> ordering option" where
  "partial_cmp a b =
     (if f32_is_nan a \<or> f32_is_nan b then None
      else Some (if f32_val a < f32_val b then Less
                 else if f32_val a > f32_val b then Greater else Equal))"

text \<open>\<open>a.partial_cmp(&b).unwrap_or(Ordering::Equal)\<close>, and the operator \<open>>\<close>.\<close>

definition cmp_or_equal :: "f32 \<Rightarrow> f32 \<Rightarrow> ordering" where
  "cmp_or_equal a b = (case partial_cmp a b of Some c \<Rightarrow> c | None \<Rightarrow> Equal)"

definition f32_gt :: "f32 \<Rightarrow> f32 \<Rightarrow> bool" where
  "f32_gt a b \<longleftrightarrow> partial_cmp a b = Some Greater"

lemma cmp_or_equal_eq:
  "\<not> f32_is_nan a \<Longrightarrow> \<not> f32_is_nan b \<Longrightarrow> cmp_or_equal a b =
     (if f32_val a < f32_val b then Less else if f32_val a > f32_val b then Greater else Equal)"
  by (simp add: cmp_or_equal_def partial_cmp_def)

lemma f32_gt_eq: "\<not> f32_is_nan a \<Longrightarrow> \<not> f32_is_nan b \<Longrightarrow> f32_gt a b \<longleftrightarrow> f32_val a > f32_val b"
  by (auto simp: f32_gt_def partial_cmp_def)

text \<open>Known values: 1.0 + 2.0 = 3.0, 1.5 * 1.5 = 2.25, 0.1 + 0.2 = 0.3 after rounding, and
  the overflow of the largest finite value to infinity.\<close>

lemma bit_length_numeral [simp]:
  "bit_length 0 = 0" "bit_length (Suc 0) = 1" "bit_length 1 = 1"
  "bit_length (numeral w) = Suc (bit_length (numeral w div 2))"
  by (simp_all add: bit_length.simps)

lemmas f32_eval = f32_add_def f32_mul_def f32_is_nan_def f32_is_inf_def f32_exp_def f32_man_def
  f32_sign_def f32_val_def f32_mag_def f32_round_def f32_pack_def f32_nan_def Let_def

lemma f32_examples:
  "f32_add 0x3F800000 0x40000000 = 0x40400000"
  "f32_mul 0x3FC00000 0x3FC00000 = 0x40100000"
  "f32_add 0x3DCCCCCD 0x3E4CCCCD = 0x3E99999A"
  "f32_add 0x7F7FFFFF 0x7F7FFFFF = 0x7F800000"
  by (simp_all add: f32_eval)

lemma f32_one: "f32_mul 0x3F800000 0x3F800000 = 0x3F800000" "f32_add 0 0x3F800000 = 0x3F800000"
  by (simp_all add: f32_eval)

end
