(* ===== verification/Vector_Index.thy ===== *)
theory Vector_Index
  imports Cold_Invariant Globs Float32
begin

text \<open>
  \<open>crates/store/src/vector/index.rs\<close>: the vector index, a SQLite table of vector blobs with an
  in-memory mirror that searches read. As in the cold store the table is a list of rows, each
  statement its meaning on it, and \<open>db\<close> says whether the engine fails.
\<close>

section \<open>Data\<close>

datatype vector_error =
    VSqlite sql_error | VIo string | DimMismatch usize usize | ModelMismatch string string
  | VDecode string

record vector_record =
  vr_event_id :: ulid
  vr_source_id :: string
  vr_kind :: string
  vr_ts_ms_utc :: i64
  vr_truncated :: bool
  vr_model_id :: string
  vr_vector :: "f32 list"

record search_hit =
  sh_event_id :: ulid
  sh_source_id :: string
  sh_kind :: string
  sh_ts_ms_utc :: i64
  sh_truncated :: bool
  score :: f32

record vector_filter =
  vf_start_ms :: "i64 option"
  vf_end_ms :: "i64 option"
  vf_source_filter :: "string list option"
  vf_kind_filter :: "string list option"

record in_memory_row =
  m_event_id :: ulid
  m_source_id :: string
  m_kind :: string
  m_ts_ms_utc :: i64
  m_truncated :: bool
  m_vector :: "f32 list"

text \<open>A row of the table \<open>vectors\<close>.\<close>

record vector_row =
  v_event_id :: string
  v_source_id :: string
  v_kind :: string
  v_ts_ms_utc :: i64
  v_truncated :: i64
  v_model_id :: string
  v_vector :: bytes

record vector_index =
  vectors_tbl :: "vector_row list"
  vi_rows :: "in_memory_row list"

section \<open>Blobs\<close>

definition vector_to_bytes :: "f32 list \<Rightarrow> bytes" where
  "vector_to_bytes v = concat (map (le_bytes 4) v)"

fun chunks4 :: "bytes \<Rightarrow> f32 list" where
  "chunks4 (a # b # c # d # r) = of_le_bytes [a, b, c, d] # chunks4 r"
| "chunks4 _ = []"

definition bytes_to_vector :: "bytes \<Rightarrow> vector_error + f32 list" where
  "bytes_to_vector b =
     (if length b mod 4 \<noteq> 0
      then Inl (VDecode (''vector blob length '' @ show_nat (length b) @ '' is not a multiple of 4''))
      else Inr (chunks4 b))"

section \<open>Opening\<close>

definition load_row :: "codec \<Rightarrow> vector_row \<Rightarrow> vector_error + in_memory_row" where
  "load_row c r = (case ulid_from_string c (v_event_id r) of
     Inl m \<Rightarrow> Inl (VDecode m)
   | Inr i \<Rightarrow> (case bytes_to_vector (v_vector r) of
       Inl x \<Rightarrow> Inl x
     | Inr v \<Rightarrow> Inr \<lparr> m_event_id = i, m_source_id = v_source_id r, m_kind = v_kind r,
         m_ts_ms_utc = v_ts_ms_utc r, m_truncated = (v_truncated r \<noteq> 0), m_vector = v \<rparr>))"

text \<open>
  \<open>load_rows\<close>: every row is decoded; the model and the dimension are those of the first row
  (\<open>seen_model\<close>, \<open>seen_dim\<close>), compared after the loop.
\<close>

definition load_rows :: "codec \<Rightarrow> string \<Rightarrow> usize \<Rightarrow> vector_row list \<Rightarrow> vector_error + in_memory_row list" where
  "load_rows c expected_model expected_dim tbl = (case traverse (load_row c) tbl of
     Inl x \<Rightarrow> Inl x
   | Inr out \<Rightarrow>
       (case (tbl, out) of
          (r # _, m # _) \<Rightarrow>
            if v_model_id r \<noteq> expected_model then Inl (ModelMismatch (v_model_id r) expected_model)
            else if length (m_vector m) \<noteq> expected_dim
            then Inl (DimMismatch (length (m_vector m)) expected_dim)
            else Inr out
        | _ \<Rightarrow> Inr out))"

definition vector_from_connection ::
  "codec \<Rightarrow> sql_error option \<Rightarrow> string \<Rightarrow> usize \<Rightarrow> vector_row list \<Rightarrow> vector_error + vector_index" where
  "vector_from_connection c db model dim tbl = (case db of
     Some x \<Rightarrow> Inl (VSqlite x)
   | None \<Rightarrow> (case load_rows c model dim tbl of
       Inl x \<Rightarrow> Inl x
     | Inr rows \<Rightarrow> Inr \<lparr> vectors_tbl = tbl, vi_rows = rows \<rparr>))"

definition vector_open_in_memory :: vector_index where
  "vector_open_in_memory = \<lparr> vectors_tbl = [], vi_rows = [] \<rparr>"

section \<open>Writing\<close>

definition vector_row_of :: "codec \<Rightarrow> vector_record \<Rightarrow> vector_row" where
  "vector_row_of c r = \<lparr> v_event_id = ulid_to_string c (vr_event_id r), v_source_id = vr_source_id r,
     v_kind = vr_kind r, v_ts_ms_utc = vr_ts_ms_utc r, v_truncated = of_bool (vr_truncated r),
     v_model_id = vr_model_id r, v_vector = vector_to_bytes (vr_vector r) \<rparr>"

definition mem_row_of :: "vector_record \<Rightarrow> in_memory_row" where
  "mem_row_of r = \<lparr> m_event_id = vr_event_id r, m_source_id = vr_source_id r, m_kind = vr_kind r,
     m_ts_ms_utc = vr_ts_ms_utc r, m_truncated = vr_truncated r, m_vector = vr_vector r \<rparr>"

text \<open>\<open>INSERT OR REPLACE\<close>: the old row goes, the new one comes last.\<close>

definition insert_or_replace :: "vector_row \<Rightarrow> vector_row list \<Rightarrow> vector_row list" where
  "insert_or_replace row tbl = filter (\<lambda>r. v_event_id r \<noteq> v_event_id row) tbl @ [row]"

definition mirror_put :: "vector_record \<Rightarrow> in_memory_row list \<Rightarrow> in_memory_row list" where
  "mirror_put r rows = (case position (\<lambda>x. m_event_id x = vr_event_id r) rows of
     Some idx \<Rightarrow> rows[idx := mem_row_of r]
   | None \<Rightarrow> rows @ [mem_row_of r])"

definition vector_append :: "codec \<Rightarrow> sql_error option \<Rightarrow> vector_record list \<Rightarrow> vector_index
    \<Rightarrow> vector_index \<times> (vector_error + unit)" where
  "vector_append c db records vi =
     (if records = [] then (vi, Inr ())
      else case db of
        Some x \<Rightarrow> (vi, Inl (VSqlite x))
      | None \<Rightarrow>
          (\<lparr> vectors_tbl = fold (\<lambda>r. insert_or_replace (vector_row_of c r)) records (vectors_tbl vi),
             vi_rows = fold mirror_put records (vi_rows vi) \<rparr>, Inr ()))"

definition vector_len :: "vector_index \<Rightarrow> usize" where
  "vector_len vi = length (vi_rows vi)"

definition vector_sweep_max_age :: "sql_error option \<Rightarrow> string \<Rightarrow> string \<Rightarrow> i64 \<Rightarrow> bool
    \<Rightarrow> vector_index \<Rightarrow> vector_index \<times> (vector_error + u64)" where
  "vector_sweep_max_age db s k cutoff dry_run vi = (case db of
     Some x \<Rightarrow> (vi, Inl (VSqlite x))
   | None \<Rightarrow>
       let P = (\<lambda>r. v_source_id r = s \<and> v_kind r = k \<and> v_ts_ms_utc r < cutoff);
           n = length (filter P (vectors_tbl vi))
       in if dry_run then (vi, Inr n)
          else (\<lparr> vectors_tbl = filter (\<lambda>r. \<not> P r) (vectors_tbl vi),
                  vi_rows = filter (\<lambda>r. \<not> (m_source_id r = s \<and> m_kind r = k \<and> m_ts_ms_utc r < cutoff))
                    (vi_rows vi) \<rparr>, Inr n))"

section \<open>Searching\<close>

definition cosine_similarity :: "f32 list \<Rightarrow> f32 list \<Rightarrow> f32" where
  "cosine_similarity a b = fold (\<lambda>(x, y) dot. f32_add dot (f32_mul x y)) (zip a b) 0"

text \<open>\<open>Iterator::min_by\<close> over \<open>enumerate()\<close>: the first minimum.\<close>

fun min_by_score :: "nat \<Rightarrow> nat \<times> search_hit \<Rightarrow> search_hit list \<Rightarrow> nat \<times> search_hit" where
  "min_by_score n best [] = best"
| "min_by_score n (i, x) (y # ys) =
     min_by_score (n + 1) (if cmp_or_equal (score x) (score y) = Greater then (n, y) else (i, x)) ys"

text \<open>\<open>None\<close> is the panic of \<open>unwrap\<close> on an empty heap, when \<open>top_k\<close> is zero.\<close>

definition insert_top_k :: "search_hit list \<Rightarrow> search_hit \<Rightarrow> usize \<Rightarrow> search_hit list option" where
  "insert_top_k heap hit top_k =
     (if length heap < top_k then Some (heap @ [hit])
      else case heap of
        [] \<Rightarrow> None
      | h # hs \<Rightarrow>
          let (worst_idx, worst) = min_by_score 1 (0, h) hs
          in Some (if f32_gt (score hit) (score worst) then heap[worst_idx := hit] else heap))"

text \<open>
  The stable \<open>sort_by\<close> with the descending comparison; insertion sort, which gives the one stable
  order whenever the comparison is total, that is without \<open>NaN\<close> (with one the order is unspecified).
\<close>

fun insert_desc :: "search_hit \<Rightarrow> search_hit list \<Rightarrow> search_hit list" where
  "insert_desc x [] = [x]"
| "insert_desc x (y # ys) =
     (if cmp_or_equal (score y) (score x) = Greater then y # insert_desc x ys else x # y # ys)"

definition sort_desc :: "search_hit list \<Rightarrow> search_hit list" where
  "sort_desc hs = foldr insert_desc hs []"

definition row_selected :: "glob_lib \<Rightarrow> vector_filter \<Rightarrow> glob_set option \<Rightarrow> glob_set option
    \<Rightarrow> in_memory_row \<Rightarrow> bool" where
  "row_selected gl f source_globs kind_globs row =
     (if (case vf_start_ms f of Some s \<Rightarrow> m_ts_ms_utc row < s | None \<Rightarrow> False) then False
      else if (case vf_end_ms f of Some e \<Rightarrow> m_ts_ms_utc row \<ge> e | None \<Rightarrow> False) then False
      else if \<not> filter_globs_match gl source_globs (m_source_id row) then False
      else filter_globs_match gl kind_globs (m_kind row))"

definition hit_of :: "f32 list \<Rightarrow> in_memory_row \<Rightarrow> search_hit" where
  "hit_of query row = \<lparr> sh_event_id = m_event_id row, sh_source_id = m_source_id row,
     sh_kind = m_kind row, sh_ts_ms_utc = m_ts_ms_utc row, sh_truncated = m_truncated row,
     score = cosine_similarity query (m_vector row) \<rparr>"

fun search_loop :: "usize \<Rightarrow> search_hit list \<Rightarrow> search_hit list \<Rightarrow> search_hit list option" where
  "search_loop top_k [] heap = Some heap"
| "search_loop top_k (h # hs) heap = (case insert_top_k heap h top_k of
     None \<Rightarrow> None | Some heap' \<Rightarrow> search_loop top_k hs heap')"

definition search_kn :: "glob_lib \<Rightarrow> f32 list \<Rightarrow> usize \<Rightarrow> vector_filter \<Rightarrow> vector_index
    \<Rightarrow> (vector_error + search_hit list) option" where
  "search_kn gl query top_k f vi =
     (case build_filter_globs gl (vf_source_filter f) of
        Inl e \<Rightarrow> Some (Inl (VDecode e))
      | Inr source_globs \<Rightarrow> (case build_filter_globs gl (vf_kind_filter f) of
          Inl e \<Rightarrow> Some (Inl (VDecode e))
        | Inr kind_globs \<Rightarrow>
            map_option (\<lambda>heap. Inr (sort_desc heap))
              (search_loop top_k (map (hit_of query)
                 (filter (row_selected gl f source_globs kind_globs) (vi_rows vi))) [])))"

section \<open>Blob round trip\<close>

lemma chunks4_append: "length a = 4 \<Longrightarrow> chunks4 (a @ r) = of_le_bytes a # chunks4 r"
proof -
  assume "length a = 4"
  then obtain w x y z where "a = [w, x, y, z]"
    by (auto simp: length_Suc_conv numeral_eq_Suc)
  then show ?thesis by simp
qed

definition vec_ok :: "f32 list \<Rightarrow> bool" where
  "vec_ok v \<longleftrightarrow> list_all (\<lambda>x. x < 2 ^ 32) v"

lemma chunks4_bytes: "vec_ok v \<Longrightarrow> chunks4 (vector_to_bytes v) = v"
  by (induction v) (simp_all add: vec_ok_def vector_to_bytes_def chunks4_append of_le_bytes_le_bytes)

lemma length_vector_to_bytes: "length (vector_to_bytes v) = 4 * length v"
  by (induction v) (simp_all add: vector_to_bytes_def)

lemma bytes_to_vector_inverse: "vec_ok v \<Longrightarrow> bytes_to_vector (vector_to_bytes v) = Inr v"
  by (simp add: bytes_to_vector_def length_vector_to_bytes chunks4_bytes)

end
