(* ===== verification/Vector_Facts.thy ===== *)
theory Vector_Facts
  imports Vector_Index
begin

text \<open>
  Correctness of the vector index: the mirror agrees with the table across writes, sweeps and a
  reopening, and a search returns the best matches.
\<close>

section \<open>Mirror and table\<close>

text \<open>What a table row and a mirror row must say of the same vector.\<close>

definition vi_inv :: "codec \<Rightarrow> string \<Rightarrow> usize \<Rightarrow> vector_index \<Rightarrow> bool" where
  "vi_inv c model dim vi \<longleftrightarrow>
     distinct (map m_event_id (vi_rows vi)) \<and> distinct (map v_event_id (vectors_tbl vi))
     \<and> list_all (\<lambda>r. v_model_id r = model \<and> (\<exists>m. load_row c r = Inr m
          \<and> length (m_vector m) = dim \<and> v_event_id r = ulid_to_string c (m_event_id m))) (vectors_tbl vi)
     \<and> set (map (load_row c) (vectors_tbl vi)) = Inr ` set (vi_rows vi)"

definition record_ok :: "string \<Rightarrow> usize \<Rightarrow> vector_record \<Rightarrow> bool" where
  "record_ok model dim r \<longleftrightarrow> vr_model_id r = model \<and> length (vr_vector r) = dim \<and> vec_ok (vr_vector r)"

lemma load_row_of:
  assumes "ulid_codec c" and "vec_ok (vr_vector r)"
  shows "load_row c (vector_row_of c r) = Inr (mem_row_of r)"
  using assms by (simp add: load_row_def vector_row_of_def mem_row_of_def ulid_codec_def
      bytes_to_vector_inverse)

lemma load_row_fields:
  "load_row c r = Inr m \<Longrightarrow> m_source_id m = v_source_id r \<and> m_kind m = v_kind r
     \<and> m_ts_ms_utc m = v_ts_ms_utc r"
  by (auto simp: load_row_def split: sum.split_asm)

text \<open>Replacing in place, seen as a set.\<close>

lemma mirror_put_facts:
  assumes "distinct (map m_event_id rows)"
  shows "distinct (map m_event_id (mirror_put r rows))"
    and "set (mirror_put r rows) = insert (mem_row_of r) {m \<in> set rows. m_event_id m \<noteq> vr_event_id r}"
proof -
  let ?P = "\<lambda>x. m_event_id x = vr_event_id r"
  have id: "m_event_id (mem_row_of r) = vr_event_id r" by (simp add: mem_row_of_def)
  have "distinct (map m_event_id (mirror_put r rows))
      \<and> set (mirror_put r rows) = insert (mem_row_of r) {m \<in> set rows. \<not> ?P m}"
  proof (cases "position ?P rows")
    case None
    then have "\<forall>x \<in> set rows. \<not> ?P x" by (simp add: position_None)
    with None assms id show ?thesis by (auto simp: mirror_put_def)
  next
    case (Some i)
    then have i: "i < length rows" "m_event_id (rows ! i) = vr_event_id r"
      using position_Some by fastforce+
    have "map m_event_id (rows[i := mem_row_of r]) = map m_event_id rows"
      using i id by (simp add: map_update list_update_same_conv)
    moreover have "set (rows[i := mem_row_of r]) = insert (mem_row_of r) (set rows - {rows ! i})"
      using i assms by (simp add: set_update_distinct distinct_map)
    moreover have "set rows - {rows ! i} = {m \<in> set rows. \<not> ?P m}"
      using i assms by (auto simp: distinct_map) (metis inj_onD nth_mem)
    ultimately show ?thesis using assms Some by (simp add: mirror_put_def)
  qed
  then show "distinct (map m_event_id (mirror_put r rows))"
    and "set (mirror_put r rows) = insert (mem_row_of r) {m \<in> set rows. m_event_id m \<noteq> vr_event_id r}"
    by simp_all
qed

lemma mirror_put_subset: "set (mirror_put r rows) \<subseteq> insert (mem_row_of r) (set rows)"
  by (auto simp: mirror_put_def split: option.split dest: subsetD [OF set_update_subset_insert])

lemma fold_mirror_put_subset: "set (fold mirror_put rs rows) \<subseteq> set rows \<union> mem_row_of ` set rs"
proof (induction rs arbitrary: rows)
  case (Cons r rs)
  then show ?case using mirror_put_subset [of r rows] Cons [of "mirror_put r rows"] by auto
qed simp

lemma vi_inv_open: "vi_inv c model dim vector_open_in_memory"
  by (simp add: vi_inv_def vector_open_in_memory_def)

lemma vi_inv_put:
  assumes c: "ulid_codec c" and r: "record_ok model dim r" and inv: "vi_inv c model dim vi"
  shows "vi_inv c model dim \<lparr> vectors_tbl = insert_or_replace (vector_row_of c r) (vectors_tbl vi),
    vi_rows = mirror_put r (vi_rows vi) \<rparr>"
proof -
  let ?tbl = "vectors_tbl vi" and ?row = "vector_row_of c r"
  have row: "load_row c ?row = Inr (mem_row_of r)" "v_event_id ?row = ulid_to_string c (vr_event_id r)"
      "v_model_id ?row = model" "length (m_vector (mem_row_of r)) = dim"
      "m_event_id (mem_row_of r) = vr_event_id r"
    using load_row_of [OF c] r unfolding record_ok_def
    by (blast, simp_all add: vector_row_of_def mem_row_of_def)
  have tbl: "\<forall>t \<in> set ?tbl. v_model_id t = model \<and> (\<exists>m. load_row c t = Inr m
      \<and> length (m_vector m) = dim \<and> v_event_id t = ulid_to_string c (m_event_id m))"
    using inv by (simp add: vi_inv_def list_all_iff)
  have loaded: "load_row c ` set ?tbl = Inr ` set (vi_rows vi)" using inv by (simp add: vi_inv_def)
  have "load_row c ` {t \<in> set ?tbl. v_event_id t \<noteq> v_event_id ?row}
      = Inr ` {m \<in> set (vi_rows vi). m_event_id m \<noteq> vr_event_id r}" (is "?L = ?R")
  proof
    show "?L \<subseteq> ?R"
    proof
      fix y
      assume "y \<in> ?L"
      then obtain t where t: "t \<in> set ?tbl" "v_event_id t \<noteq> v_event_id ?row" "y = load_row c t" by blast
      then obtain m where m: "load_row c t = Inr m" "v_event_id t = ulid_to_string c (m_event_id m)"
        using tbl by blast
      then have "m \<in> set (vi_rows vi)" using loaded t(1) by (metis image_iff sum.inject(2))
      with m t row(2) show "y \<in> ?R" by auto
    qed
    show "?R \<subseteq> ?L"
    proof
      fix y
      assume "y \<in> ?R"
      then obtain m where m: "m \<in> set (vi_rows vi)" "m_event_id m \<noteq> vr_event_id r" "y = Inr m" by blast
      then obtain t where t: "t \<in> set ?tbl" "load_row c t = Inr m" using loaded by (metis image_iff)
      then have "v_event_id t = ulid_to_string c (m_event_id m)" using tbl by force
      then have "v_event_id t \<noteq> v_event_id ?row" using m(2) row(2) ulid_to_string_inj [OF c] by simp
      with t m show "y \<in> ?L" by force
    qed
  qed
  moreover have "distinct (map v_event_id (insert_or_replace ?row ?tbl))"
    using inv by (auto simp: vi_inv_def insert_or_replace_def distinct_map_filter)
  ultimately show ?thesis
    using inv tbl row mirror_put_facts [of "vi_rows vi" r]
    by (simp add: vi_inv_def insert_or_replace_def list_all_iff)
qed

lemma vi_inv_append:
  assumes "ulid_codec c" and "list_all (record_ok model dim) rs" and "vi_inv c model dim vi"
  shows "vi_inv c model dim (fst (vector_append c db rs vi))"
proof -
  have "vi_inv c model dim
      \<lparr> vectors_tbl = fold (\<lambda>r. insert_or_replace (vector_row_of c r)) rs (vectors_tbl vi),
        vi_rows = fold mirror_put rs (vi_rows vi) \<rparr>"
    using assms(2,3)
  proof (induction rs arbitrary: vi)
    case (Cons r rs)
    then show ?case using vi_inv_put [OF assms(1), of model dim r vi] by fastforce
  qed (simp add: vi_inv_def)
  then show ?thesis using assms(3) by (cases db) (simp_all add: vector_append_def)
qed

lemma vi_inv_sweep:
  assumes "vi_inv c model dim vi"
  shows "vi_inv c model dim (fst (vector_sweep_max_age db s k cutoff dry vi))"
proof (cases "db = None \<and> \<not> dry")
  case True
  let ?P = "\<lambda>r. v_source_id r = s \<and> v_kind r = k \<and> v_ts_ms_utc r < cutoff"
  let ?Q = "\<lambda>m. m_source_id m = s \<and> m_kind m = k \<and> m_ts_ms_utc m < cutoff"
  have tbl: "\<forall>t \<in> set (vectors_tbl vi). \<exists>m. load_row c t = Inr m"
    and loaded: "load_row c ` set (vectors_tbl vi) = Inr ` set (vi_rows vi)"
    using assms by (auto simp: vi_inv_def list_all_iff)
  have "load_row c ` {t \<in> set (vectors_tbl vi). \<not> ?P t} = Inr ` {m \<in> set (vi_rows vi). \<not> ?Q m}"
    (is "?L = ?R")
  proof
    show "?L \<subseteq> ?R"
    proof
      fix y
      assume "y \<in> ?L"
      then obtain t where t: "t \<in> set (vectors_tbl vi)" "\<not> ?P t" "y = load_row c t" by blast
      then obtain m where m: "load_row c t = Inr m" using tbl by blast
      then have "m \<in> set (vi_rows vi)" using loaded t(1) by (metis image_iff sum.inject(2))
      with m t load_row_fields [OF m] show "y \<in> ?R" by auto
    qed
    show "?R \<subseteq> ?L"
    proof
      fix y
      assume "y \<in> ?R"
      then obtain m where m: "m \<in> set (vi_rows vi)" "\<not> ?Q m" "y = Inr m" by blast
      then obtain t where t: "t \<in> set (vectors_tbl vi)" "load_row c t = Inr m"
        using loaded by (metis image_iff)
      with m load_row_fields [OF t(2)] show "y \<in> ?L" by force
    qed
  qed
  then show ?thesis
    using assms True
    by (simp add: vi_inv_def vector_sweep_max_age_def Let_def list_all_iff distinct_map_filter)
next
  case False
  then show ?thesis using assms by (auto simp: vector_sweep_max_age_def Let_def split: option.split)
qed

section \<open>Search\<close>

definition no_nan :: "search_hit list \<Rightarrow> bool" where
  "no_nan hs \<longleftrightarrow> list_all (\<lambda>h. \<not> f32_is_nan (score h)) hs"

lemma min_by_score_least:
  assumes "i < n" and "xs ! i = x" and "n + length ys = length xs" and "drop n xs = ys"
    and "no_nan xs" and "\<forall>j < n. f32_val (score x) \<le> f32_val (score (xs ! j))"
  shows "case min_by_score n (i, x) ys of (w, h) \<Rightarrow> w < length xs \<and> xs ! w = h
    \<and> (\<forall>j < length xs. f32_val (score h) \<le> f32_val (score (xs ! j)))"
  using assms
proof (induction ys arbitrary: n i x)
  case (Cons y ys)
  have n: "n < length xs" using Cons.prems(3) by simp
  then have y: "xs ! n = y" and ys: "drop (Suc n) xs = ys"
    using Cons.prems(4) by (simp_all add: Cons_nth_drop_Suc [symmetric])
  have nan: "\<not> f32_is_nan (score x)" "\<not> f32_is_nan (score y)"
    using Cons.prems(1,2,5) n y by (auto simp: no_nan_def list_all_length)
  show ?case
  proof (cases "f32_val (score y) < f32_val (score x)")
    case True
    then have "\<forall>j < n + 1. f32_val (score y) \<le> f32_val (score (xs ! j))"
      using Cons.prems(6) y by (force simp: less_Suc_eq)
    then show ?thesis
      using Cons.IH [of n "n + 1" y] True nan n y ys Cons.prems by (simp add: cmp_or_equal_eq)
  next
    case False
    then have "\<forall>j < n + 1. f32_val (score x) \<le> f32_val (score (xs ! j))"
      using Cons.prems(6) y by (force simp: less_Suc_eq)
    then show ?thesis
      using Cons.IH [of i "n + 1" x] False nan n ys Cons.prems by (simp add: cmp_or_equal_eq)
  qed
qed simp

text \<open>The heap holds the best \<open>k\<close> of the hits seen.\<close>

definition best :: "nat \<Rightarrow> search_hit multiset \<Rightarrow> search_hit multiset \<Rightarrow> bool" where
  "best k all H \<longleftrightarrow> H \<subseteq># all \<and> size H = min k (size all)
     \<and> (\<forall>h \<in># H. \<forall>x \<in># all - H. f32_val (score x) \<le> f32_val (score h))"

lemma best_add_room:
  assumes "best k all H" and "size H < k"
  shows "best k (add_mset x all) (add_mset x H)"
proof -
  have "size H = size all" using assms by (auto simp: best_def)
  then have "H = all" using assms(1) by (metis best_def mset_subset_size subset_mset.le_imp_less_or_eq less_irrefl)
  then show ?thesis using assms by (simp add: best_def)
qed

lemma best_replace:
  assumes "best k all H" and "k \<le> size H" and "w \<in># H"
    and "\<forall>h \<in># H. f32_val (score w) \<le> f32_val (score h)" and "f32_val (score w) < f32_val (score x)"
  shows "best k (add_mset x all) (add_mset x (H - {#w#}))"
proof -
  have sub: "H \<subseteq># all" using assms(1) by (simp add: best_def)
  then have "add_mset x all - add_mset x (H - {#w#}) = add_mset w (all - H)"
    using assms(3) by (metis add_mset_diff_bothsides insert_DiffM2 subset_mset.add_diff_assoc2
        diff_union_swap2 add_mset_add_single mset_subset_eq_single subset_mset.diff_diff_right)
  then have rest: "y \<in># add_mset x all - add_mset x (H - {#w#}) \<Longrightarrow> y = w \<or> y \<in># all - H" for y by simp
  have "f32_val (score y) \<le> f32_val (score h)"
    if h: "h \<in># add_mset x (H - {#w#})" and y: "y \<in># add_mset x all - add_mset x (H - {#w#})" for h y
  proof -
    have yw: "f32_val (score y) \<le> f32_val (score w)"
      using rest [OF y] assms(1,3) by (auto simp: best_def)
    have "h = x \<or> h \<in># H" using h by (auto dest: in_diffD)
    then show ?thesis using yw assms(4,5) by force
  qed
  moreover have "size (add_mset x (H - {#w#})) = size H"
    using assms(3) by (simp add: size_Diff_singleton) (metis Suc_pred nonempty_has_size empty_iff set_mset_empty)
  moreover have "size H = k" using assms(1,2) by (simp add: best_def)
  moreover have "k \<le> size all" using assms(1,2) by (simp add: best_def)
  moreover have "add_mset x (H - {#w#}) \<subseteq># add_mset x all"
    using sub by (meson diff_subset_eq_self mset_subset_eq_add_mset_cancel subset_mset.order_trans)
  ultimately show ?thesis by (simp add: best_def)
qed

lemma best_skip:
  assumes "best k all H" and "k \<le> size H" and "\<forall>h \<in># H. f32_val (score x) \<le> f32_val (score h)"
  shows "best k (add_mset x all) H"
proof -
  have sub: "H \<subseteq># all" and "size H = k" "k \<le> size all" using assms(1,2) by (simp_all add: best_def)
  moreover from sub have "add_mset x all - H = add_mset x (all - H)"
    by (metis add_mset_add_single subset_mset.add_diff_assoc2)
  moreover have "H \<subseteq># add_mset x all" using sub
    by (metis add_mset_add_single mset_subset_eq_add_left subset_mset.order_trans)
  ultimately show ?thesis using assms by (simp add: best_def)
qed

lemma insert_top_k_best:
  assumes "0 < k" and "best k all (mset heap)" and "no_nan heap" and "\<not> f32_is_nan (score x)"
  obtains heap' where "insert_top_k heap x k = Some heap'"
    and "best k (add_mset x all) (mset heap')" and "no_nan heap'"
proof (cases "length heap < k")
  case True
  then show ?thesis
    using that [of "heap @ [x]"] best_add_room [OF assms(2)] assms(3,4)
    by (simp add: insert_top_k_def no_nan_def)
next
  case False
  then obtain h hs where heap: "heap = h # hs" using assms(1) by (cases heap) auto
  obtain w worst where w: "min_by_score 1 (0, h) hs = (w, worst)" by (cases "min_by_score 1 (0, h) hs")
  have "case min_by_score 1 (0, h) hs of (w, v) \<Rightarrow> w < length heap \<and> heap ! w = v
      \<and> (\<forall>j < length heap. f32_val (score v) \<le> f32_val (score (heap ! j)))"
    using min_by_score_least [of 0 1 heap h hs] assms(3) heap by simp
  then have worst: "w < length heap" "heap ! w = worst"
      "\<forall>y \<in># mset heap. f32_val (score worst) \<le> f32_val (score y)"
    using w by (auto simp: in_set_conv_nth)
  then have wn: "worst \<in># mset heap" "\<not> f32_is_nan (score worst)"
    using assms(3) by (auto simp: no_nan_def list_all_length)
  show ?thesis
  proof (cases "f32_val (score worst) < f32_val (score x)")
    case True
    have "best k (add_mset x all) (mset (heap[w := x]))"
      using best_replace [OF assms(2) _ wn(1) worst(3) True] False worst(1,2) by (simp add: mset_update)
    moreover have "no_nan (heap[w := x])"
      using assms(3,4) set_update_subset_insert [of heap w x] by (auto simp: no_nan_def list_all_iff)
    moreover have "insert_top_k heap x k = Some (heap[w := x])"
      using True False heap w wn(2) assms(4) by (simp add: insert_top_k_def f32_gt_eq)
    ultimately show ?thesis using that by blast
  next
    case less: False
    have "best k (add_mset x all) (mset heap)"
      by (rule best_skip [OF assms(2)]) (use False less worst(3) in force)+
    moreover have "insert_top_k heap x k = Some heap"
      using less False heap w wn(2) assms(4) by (simp add: insert_top_k_def f32_gt_eq)
    ultimately show ?thesis using that assms(3) by blast
  qed
qed

lemma search_loop_best:
  assumes "0 < k" and "best k all (mset heap)" and "no_nan heap" and "no_nan hs"
  shows "\<exists>heap'. search_loop k hs heap = Some heap' \<and> best k (all + mset hs) (mset heap') \<and> no_nan heap'"
  using assms(2-4)
proof (induction hs arbitrary: all heap)
  case (Cons h hs)
  then have h: "\<not> f32_is_nan (score h)" "no_nan hs" by (simp_all add: no_nan_def)
  obtain heap' where "insert_top_k heap h k = Some heap'" "best k (add_mset h all) (mset heap')" "no_nan heap'"
    using insert_top_k_best [OF assms(1) Cons.prems(1,2) h(1)] by blast
  with Cons.IH [of "add_mset h all" heap'] h(2) show ?case by simp
qed simp

lemma mset_insert_desc [simp]: "mset (insert_desc x ys) = add_mset x (mset ys)"
  by (induction ys) auto

lemma mset_sort_desc [simp]: "mset (sort_desc hs) = mset hs"
  by (induction hs) (simp_all add: sort_desc_def)

lemma set_sort_desc [simp]: "set (sort_desc hs) = set hs"
  by (metis mset_sort_desc set_mset_mset)

lemma sorted_insert_desc:
  assumes "sorted_wrt (\<lambda>a b. f32_val (score b) \<le> f32_val (score a)) ys" and "no_nan (x # ys)"
  shows "sorted_wrt (\<lambda>a b. f32_val (score b) \<le> f32_val (score a)) (insert_desc x ys)"
  using assms
proof (induction ys)
  case (Cons y ys)
  have "set (insert_desc x ys) = insert x (set ys)"
    using mset_insert_desc [of x ys] by (metis set_mset_mset set_mset_add_mset_insert)
  with Cons show ?case by (fastforce simp: no_nan_def cmp_or_equal_eq)
qed simp

lemma sorted_sort_desc:
  "no_nan hs \<Longrightarrow> sorted_wrt (\<lambda>a b. f32_val (score b) \<le> f32_val (score a)) (sort_desc hs)"
proof (induction hs)
  case (Cons h hs)
  have "no_nan (h # sort_desc hs)" using Cons.prems by (simp add: no_nan_def list_all_iff)
  with Cons show ?case using sorted_insert_desc by (simp add: sort_desc_def no_nan_def)
qed (simp add: sort_desc_def)

text \<open>A consistent table loads, as the rows of its mirror.\<close>

lemma vi_inv_load:
  assumes inv: "vi_inv c model dim vi"
  shows "\<exists>rows. load_rows c model dim (vectors_tbl vi) = Inr rows \<and> mset rows = mset (vi_rows vi)"
proof -
  define rows where "rows = map (\<lambda>r. projr (load_row c r)) (vectors_tbl vi)"
  have ok: "\<forall>r \<in> set (vectors_tbl vi). load_row c r = Inr (projr (load_row c r)) \<and> v_model_id r = model
      \<and> length (m_vector (projr (load_row c r))) = dim
      \<and> v_event_id r = ulid_to_string c (m_event_id (projr (load_row c r)))"
    using inv by (fastforce simp: vi_inv_def list_all_iff)
  then have "traverse (load_row c) (vectors_tbl vi) = Inr rows"
    unfolding rows_def by (intro traverse_map_Inr) blast
  then have load: "load_rows c model dim (vectors_tbl vi) = Inr rows"
    using ok by (cases "vectors_tbl vi") (auto simp: load_rows_def rows_def)
  have "Inr ` set rows = (Inr ` set (vi_rows vi) :: (vector_error + in_memory_row) set)"
    using inv ok by (simp add: vi_inv_def rows_def image_image)
  then have "set rows = set (vi_rows vi)" by (metis inj_Inr inj_image_eq_iff)
  moreover have "map (ulid_to_string c) (map m_event_id rows) = map v_event_id (vectors_tbl vi)"
    using ok by (simp add: rows_def)
  then have "distinct (map (ulid_to_string c) (map m_event_id rows))"
    using inv by (simp add: vi_inv_def)
  then have "distinct rows" by (meson distinct_map)
  moreover have "distinct (vi_rows vi)" using inv by (simp add: vi_inv_def distinct_map)
  ultimately show ?thesis using load set_eq_iff_mset_eq_distinct by blast
qed

section \<open>Properties\<close>

text \<open>
  The mirror is the table: after any append of vectors of the running model the in-memory rows
  are exactly the decoded table rows, and reopening the database with the same model and dimension
  loads the same set of rows, each once, so a restart changes no search result set.
\<close>

lemma vector_reopen:
  assumes "ulid_codec c" and "list_all (record_ok model dim) rs" and "vi_inv c model dim vi"
  shows "\<exists>rows. load_rows c model dim (vectors_tbl (fst (vector_append c db rs vi))) = Inr rows
    \<and> mset rows = mset (vi_rows (fst (vector_append c db rs vi)))"
  by (rule vi_inv_load [OF vi_inv_append [OF assms]])

text \<open>
  C17. A search returns the best matches: with valid filters, \<open>top_k \<ge> 1\<close> and no \<open>NaN\<close> score, the
  hits come in descending score order, are candidates (rows the filter selects), are
  \<open>min top_k\<close> of them, and no candidate left out scores higher than a hit.
\<close>

theorem search_kn_top_k:
  assumes "build_filter_globs gl (vf_source_filter f) = Inr sg"
    and "build_filter_globs gl (vf_kind_filter f) = Inr kg"
    and "cands = map (hit_of query) (filter (row_selected gl f sg kg) (vi_rows vi))"
    and "0 < top_k" and "no_nan cands"
  shows "\<exists>hits. search_kn gl query top_k f vi = Some (Inr hits)
    \<and> sorted_wrt (\<lambda>a b. f32_val (score b) \<le> f32_val (score a)) hits
    \<and> mset hits \<subseteq># mset cands \<and> length hits = min top_k (length cands)
    \<and> (\<forall>h \<in># mset hits. \<forall>x \<in># mset cands - mset hits. f32_val (score x) \<le> f32_val (score h))"
proof -
  obtain heap where heap: "search_loop top_k cands [] = Some heap" "best top_k (mset cands) (mset heap)"
      "no_nan heap"
    using search_loop_best [OF assms(4), of "{#}" "[]" cands] assms(5) by (auto simp: best_def no_nan_def)
  then have "search_kn gl query top_k f vi = Some (Inr (sort_desc heap))"
    using assms(1-3) by (simp add: search_kn_def)
  moreover have "length (sort_desc heap) = min top_k (length cands)"
    using heap(2) by (metis best_def mset_sort_desc size_mset)
  ultimately show ?thesis
    using heap(2) sorted_sort_desc [OF heap(3)] by (auto simp: best_def)
qed

theorem search_kn_top_k_witness:
  "\<exists>hits. search_kn demo_globs [0x3F800000] 1
     \<lparr> vf_start_ms = None, vf_end_ms = None, vf_source_filter = Some [''s''], vf_kind_filter = None \<rparr>
     \<lparr> vectors_tbl = [], vi_rows = [\<lparr> m_event_id = 1, m_source_id = ''s'', m_kind = ''k'',
        m_ts_ms_utc = 5, m_truncated = False, m_vector = [0x3F800000] \<rparr>] \<rparr> = Some (Inr hits)
     \<and> length hits = 1"
proof -
  let ?f = "\<lparr> vf_start_ms = None, vf_end_ms = None, vf_source_filter = Some [''s''], vf_kind_filter = None \<rparr>"
  let ?vi = "\<lparr> vectors_tbl = [], vi_rows = [\<lparr> m_event_id = 1, m_source_id = ''s'', m_kind = ''k'',
        m_ts_ms_utc = 5, m_truncated = False, m_vector = [0x3F800000] \<rparr>] \<rparr>"
  let ?cands = "map (hit_of [0x3F800000]) (filter (row_selected demo_globs ?f (Some [''s'']) None) (vi_rows ?vi))"
  have "?cands = [hit_of [0x3F800000] (hd (vi_rows ?vi))]"
    by (simp add: row_selected_def filter_globs_match_def glob_set_is_match_def)
  moreover have "cosine_similarity [0x3F800000] [0x3F800000] = 0x3F800000"
    by (simp add: cosine_similarity_def f32_one)
  then have "no_nan [hit_of [0x3F800000] (hd (vi_rows ?vi))]"
    by (simp add: no_nan_def hit_of_def f32_is_nan_def f32_exp_def f32_man_def)
  ultimately have "no_nan ?cands" "length ?cands = 1" by simp_all
  moreover have "build_filter_globs demo_globs (vf_source_filter ?f) = Inr (Some [''s''])"
      "build_filter_globs demo_globs (vf_kind_filter ?f) = Inr None"
    by (simp_all add: build_filter_globs_def)
  ultimately obtain hits where "search_kn demo_globs [0x3F800000] 1 ?f ?vi = Some (Inr hits)"
      "length hits = min 1 (length ?cands)"
    using search_kn_top_k [OF _ _ refl zero_less_one, of demo_globs ?f "Some [''s'']" None "[0x3F800000]" ?vi]
    by blast
  with \<open>length ?cands = 1\<close> show ?thesis by (intro exI [of _ hits]) simp
qed

end
