(* ===== verification/Embedding.thy ===== *)
theory Embedding
  imports Vector_Facts Batch_Loop
begin

text \<open>
  The embedding path of \<open>crates/store/src/vector\<close>: UTF-8 truncation (\<open>truncate.rs\<close>), the selector
  (\<open>selector.rs\<close>) and the embedder task (\<open>task.rs\<close>). The trait \<open>Embedder\<close> is a record of its
  functions, an argument of the task.
\<close>

section \<open>Truncation\<close>

text \<open>
  \<open>str::is_char_boundary\<close>: the ends of the string, and every byte that does not continue a UTF-8
  sequence.
\<close>

definition is_char_boundary :: "string \<Rightarrow> usize \<Rightarrow> bool" where
  [rust_defs]: "is_char_boundary s i \<longleftrightarrow> i = 0 \<or> i = length s
     \<or> (i < length s \<and> \<not> (128 \<le> (of_char (s ! i) :: nat) \<and> (of_char (s ! i) :: nat) < 192))"

fun truncate_end :: "string \<Rightarrow> usize \<Rightarrow> usize" where
  "truncate_end s 0 = 0"
| "truncate_end s (Suc e) = (if is_char_boundary s (Suc e) then Suc e else truncate_end s e)"

definition truncate_utf8 :: "string \<Rightarrow> usize \<Rightarrow> string \<times> bool" where
  "truncate_utf8 s max_bytes =
     (if length s \<le> max_bytes then (s, False)
      else (take (truncate_end s max_bytes) s, True))"

section \<open>Selector\<close>

record embed_selector =
  embed_default :: bool
  by_kind :: "bool hash_map"
  by_source :: "bool hash_map"

definition selector_new :: "bool \<Rightarrow> embed_selector" where
  "selector_new d = \<lparr> embed_default = d, by_kind = Map.empty, by_source = Map.empty \<rparr>"

definition set_kind :: "string \<Rightarrow> bool \<Rightarrow> embed_selector \<Rightarrow> embed_selector" where
  "set_kind k e sel = sel\<lparr> by_kind := (by_kind sel)(k \<mapsto> e) \<rparr>"

definition set_source :: "string \<Rightarrow> bool \<Rightarrow> embed_selector \<Rightarrow> embed_selector" where
  "set_source s e sel = sel\<lparr> by_source := (by_source sel)(s \<mapsto> e) \<rparr>"

definition should_embed :: "embed_selector \<Rightarrow> string \<Rightarrow> string \<Rightarrow> bool" where
  "should_embed sel s k = (case by_source sel s of
     Some v \<Rightarrow> v
   | None \<Rightarrow> (case by_kind sel (bare_kind k) of Some v \<Rightarrow> v | None \<Rightarrow> embed_default sel))"

section \<open>The task\<close>

definition EMBED_TRUNCATE_BYTES :: usize where
  "EMBED_TRUNCATE_BYTES = 2048"

record embedder =
  emb_embed :: "string \<Rightarrow> f32 list"
  emb_dim :: usize
  emb_model_id :: string

record embedder_config =
  ec_batch_size :: usize
  ec_batch_age :: duration

definition embedder_config_default :: embedder_config where
  "embedder_config_default = \<lparr> ec_batch_size = 64, ec_batch_age = from_millis 500 \<rparr>"

record embedder_metrics =
  em_batches_committed :: u64
  em_events_embedded :: u64
  em_events_truncated :: u64
  em_commit_errors :: u64
  em_pending_buffer :: u64

record embedder_task =
  et_embedder :: embedder
  et_index :: vector_index
  et_metrics :: embedder_metrics
  et_config :: embedder_config
  et_buf :: "event list"

definition embedder_task_new :: "embedder \<Rightarrow> vector_index \<Rightarrow> embedder_config \<Rightarrow> embedder_task" where
  "embedder_task_new emb idx cfg = \<lparr> et_embedder = emb, et_index = idx,
     et_metrics = \<lparr> em_batches_committed = 0, em_events_embedded = 0, em_events_truncated = 0,
       em_commit_errors = 0, em_pending_buffer = 0 \<rparr>,
     et_config = cfg, et_buf = [] \<rparr>"

text \<open>A record, and whether its input was truncated (which bumps \<open>events_truncated\<close>).\<close>

definition build_record :: "codec \<Rightarrow> embedder \<Rightarrow> event \<Rightarrow> (vector_record \<times> bool) option" where
  "build_record c emb e = (case json_to_string c (semantic e) of
     Inl _ \<Rightarrow> None
   | Inr serialized \<Rightarrow>
       let (input, truncated) = truncate_utf8 serialized EMBED_TRUNCATE_BYTES
       in Some (\<lparr> vr_event_id = event_id e, vr_source_id = source_id e, vr_kind = kind e,
                  vr_ts_ms_utc = ts_ms_utc e, vr_truncated = truncated,
                  vr_model_id = emb_model_id emb, vr_vector = emb_embed emb input \<rparr>, truncated))"

definition build_records :: "codec \<Rightarrow> embedder \<Rightarrow> event list \<Rightarrow> (vector_record \<times> bool) list" where
  "build_records c emb buf = List.map_filter (build_record c emb) buf"

definition embed_batch :: "codec \<Rightarrow> embedder \<Rightarrow> sql_error option \<Rightarrow> event list
    \<Rightarrow> vector_index \<times> embedder_metrics \<Rightarrow> vector_index \<times> embedder_metrics" where
  "embed_batch c emb db buf = (\<lambda>(idx, m).
     let built = build_records c emb buf;
         m1 = m\<lparr> em_events_truncated := em_events_truncated m + length (filter snd built) \<rparr>;
         n = length built
     in case vector_append c db (map fst built) idx of
          (idx', Inr _) \<Rightarrow> (idx', m1\<lparr> em_batches_committed := em_batches_committed m1 + 1,
             em_events_embedded := em_events_embedded m1 + n \<rparr>)
        | (idx', Inl _) \<Rightarrow> (idx', m1\<lparr> em_commit_errors := em_commit_errors m1 + 1 \<rparr>))"

definition embedder_flush :: "codec \<Rightarrow> sql_error option \<Rightarrow> embedder_task \<Rightarrow> embedder_task" where
  "embedder_flush c db t =
     (case embed_batch c (et_embedder t) db (et_buf t) (et_index t, et_metrics t) of
        (idx, m) \<Rightarrow> t\<lparr> et_index := idx, et_metrics := m\<lparr> em_pending_buffer := 0 \<rparr>, et_buf := [] \<rparr>)"

definition embedder_push :: "event \<Rightarrow> embedder_task \<Rightarrow> embedder_task" where
  "embedder_push e t =
     (let buf = et_buf t @ [e]
      in t\<lparr> et_buf := buf, et_metrics := (et_metrics t)\<lparr> em_pending_buffer := length buf \<rparr> \<rparr>)"

fun embedder_step :: "codec \<Rightarrow> sql_error option \<Rightarrow> event batch_input \<Rightarrow> embedder_task \<Rightarrow> embedder_task" where
  "embedder_step c db (Recv e) t =
     (let t' = embedder_push e t in
      if length (et_buf t') \<ge> ec_batch_size (et_config t) then embedder_flush c db t' else t')"
| "embedder_step c db Tick t = (if et_buf t = [] then t else embedder_flush c db t)"
| "embedder_step c db Closed t = (if et_buf t = [] then t else embedder_flush c db t)"

definition embedder_run :: "codec \<Rightarrow> (sql_error option \<times> event batch_input) list \<Rightarrow> embedder_task \<Rightarrow> embedder_task" where
  "embedder_run c is t = fold (\<lambda>(db, i). embedder_step c db i) is t"

section \<open>Facts\<close>

lemma truncate_end_boundary: "is_char_boundary s (truncate_end s e)"
  by (induction e) (auto simp: is_char_boundary_def)

lemma truncate_end_greatest: "n \<le> e \<Longrightarrow> is_char_boundary s n \<Longrightarrow> n \<le> truncate_end s e"
  by (induction e) (auto simp: le_Suc_eq)

lemma truncate_end_le: "truncate_end s e \<le> e"
  by (induction e) auto

text \<open>The task's index and counters, without the gauge; the embedder rides along.\<close>

definition et_sink :: "embedder_task \<Rightarrow> embedder \<times> vector_index \<times> embedder_metrics" where
  "et_sink t = (et_embedder t, et_index t, (et_metrics t)\<lparr> em_pending_buffer := 0 \<rparr>)"

definition et_deliver :: "codec \<Rightarrow> sql_error option \<Rightarrow> event list \<Rightarrow> embedder \<times> vector_index \<times> embedder_metrics
    \<Rightarrow> embedder \<times> vector_index \<times> embedder_metrics" where
  "et_deliver c db b = (\<lambda>(emb, s). (emb, embed_batch c emb db b s))"

lemma embed_batch_gauge:
  "embed_batch c emb db buf (idx, m\<lparr> em_pending_buffer := g \<rparr>)
     = (case embed_batch c emb db buf (idx, m) of (i, m') \<Rightarrow> (i, m'\<lparr> em_pending_buffer := g \<rparr>))"
  by (auto simp: embed_batch_def Let_def split: prod.split sum.split)

interpretation et: batch_task "\<lambda>e. e" et_buf et_sink "\<lambda>t. ec_batch_size (et_config t)" embedder_push
    "embedder_flush c" "embedder_step c" "et_deliver c" for c
  by unfold_locales
    (auto simp: embedder_push_def embedder_flush_def et_sink_def et_deliver_def embed_batch_gauge Let_def
      split: prod.split)

lemma et_run_eq: "et.run c is t = embedder_run c is t"
  by (simp add: et.run_def embedder_run_def)

definition embedder_ok :: "embedder \<Rightarrow> bool" where
  "embedder_ok emb \<longleftrightarrow> (\<forall>t. length (emb_embed emb t) = emb_dim emb \<and> vec_ok (emb_embed emb t))"

lemma build_records_ok:
  assumes "embedder_ok emb"
  shows "list_all (record_ok (emb_model_id emb) (emb_dim emb)) (map fst (build_records c emb b))"
proof -
  have "record_ok (emb_model_id emb) (emb_dim emb) (fst p)" if "build_record c emb e = Some p" for e p
    using that assms
    by (auto simp: build_record_def record_ok_def embedder_ok_def Let_def split: sum.split_asm prod.split_asm)
  then show ?thesis
    by (auto simp: build_records_def List.map_filter_def list_all_iff)
qed

lemma embed_batch_inv:
  assumes "ulid_codec c" and "embedder_ok emb" and "vi_inv c (emb_model_id emb) (emb_dim emb) (fst s)"
  shows "vi_inv c (emb_model_id emb) (emb_dim emb) (fst (embed_batch c emb db b s))"
proof -
  obtain idx m where s: "s = (idx, m)" by (cases s)
  have "fst (embed_batch c emb db b s) = fst (vector_append c db (map fst (build_records c emb b)) idx)"
    by (auto simp: s embed_batch_def Let_def split: prod.split sum.split)
  then show ?thesis
    using vi_inv_append [OF assms(1) build_records_ok [OF assms(2)]] assms(3) by (simp add: s)
qed

lemma et_deliveries_inv:
  assumes "ulid_codec c" and "embedder_ok emb" and "vi_inv c (emb_model_id emb) (emb_dim emb) (fst s)"
  shows "\<exists>s'. fold (\<lambda>(f, b). et_deliver c f b) ds (emb, s) = (emb, s')
    \<and> vi_inv c (emb_model_id emb) (emb_dim emb) (fst s')"
  using assms(3)
proof (induction ds arbitrary: s)
  case (Cons d ds)
  obtain f b where d: "d = (f, b)" by (cases d)
  from Cons.IH [OF embed_batch_inv [OF assms(1,2) Cons.prems]] show ?case
    by (simp add: d et_deliver_def)
qed simp

section \<open>Properties\<close>

text \<open>
  Truncation is exact: the result is a prefix of the input that ends at a character boundary, the
  longest such prefix within the limit, and the flag says whether anything was cut.
\<close>

lemma truncate_utf8_longest:
  "fst (truncate_utf8 s n) = take (length (fst (truncate_utf8 s n))) s
   \<and> length (fst (truncate_utf8 s n)) = Max {k. k \<le> min n (length s) \<and> is_char_boundary s k}
   \<and> (snd (truncate_utf8 s n) \<longleftrightarrow> n < length s)"
proof (cases "length s \<le> n")
  case True
  have "Max {k. k \<le> min n (length s) \<and> is_char_boundary s k} = length s"
    by (rule Max_eqI) (use True in \<open>auto simp: is_char_boundary_def\<close>)
  with True show ?thesis by (simp add: truncate_utf8_def)
next
  case False
  have le: "truncate_end s n \<le> length s" using truncate_end_le [of s n] False by simp
  have "Max {k. k \<le> min n (length s) \<and> is_char_boundary s k} = truncate_end s n"
    by (rule Max_eqI)
      (use False le truncate_end_le truncate_end_boundary truncate_end_greatest in auto)
  with False le show ?thesis by (simp add: truncate_utf8_def)
qed

text \<open>
  C26. The embedder task keeps the index consistent: for an embedder that returns vectors of its own
  dimension, after any sequence of inputs, ticks and commit failures the mirror and the table still
  hold the same vectors, all of the embedder's model and dimension.
\<close>

theorem embedder_task_consistent:
  assumes "ulid_codec c" and "embedder_ok emb" and "vi_inv c (emb_model_id emb) (emb_dim emb) idx"
  shows "vi_inv c (emb_model_id emb) (emb_dim emb) (et_index (embedder_run c is (embedder_task_new emb idx cfg)))"
proof -
  let ?init = "embedder_task_new emb idx cfg"
  have start: "et_buf ?init = []" by (simp add: embedder_task_new_def)
  obtain ds where ds: "et_sink (embedder_run c is ?init) = fold (\<lambda>(f, b). et_deliver c f b) ds (et_sink ?init)"
    using et.run_batches_empty [OF start, of c "is"] unfolding et_run_eq by blast
  have init: "et_sink ?init = (emb, idx, et_metrics ?init)"
    by (simp add: embedder_task_new_def et_sink_def)
  have "vi_inv c (emb_model_id emb) (emb_dim emb) (fst (idx, et_metrics ?init))" using assms(3) by simp
  from et_deliveries_inv [OF assms(1,2) this, of ds] obtain s'
    where "et_sink (embedder_run c is ?init) = (emb, s')" "vi_inv c (emb_model_id emb) (emb_dim emb) (fst s')"
    unfolding ds init by blast
  then show ?thesis by (auto simp: et_sink_def)
qed

theorem embedder_task_consistent_witness:
  "vi_inv demo_codec ''m'' 1 (et_index (embedder_run demo_codec
     [(None, Recv (sample_event 1 ''s'' ''k'' 7)), (Some (Engine ''busy''), Tick), (None, Closed)]
     (embedder_task_new \<lparr> emb_embed = (\<lambda>_. [0]), emb_dim = 1, emb_model_id = ''m'' \<rparr>
       vector_open_in_memory embedder_config_default)))"
  using embedder_task_consistent [OF demo_ulid_codec _ vi_inv_open,
      of "\<lparr> emb_embed = (\<lambda>_. [0]), emb_dim = 1, emb_model_id = ''m'' \<rparr>"]
  by (simp add: embedder_ok_def vec_ok_def)

end
