(* ===== verification/Metrics.thy ===== *)
theory Metrics
  imports Core_Types
begin

text \<open>
  \<open>crates/ingest/src/metrics.rs\<close>: the ingest counters. Each call takes its locks inside itself and is
  one step. Counters are natural numbers (no run reaches \<open>2^64\<close>). Their text rendering is in \<open>Metrics_Text\<close>.
  The bounded \<open>tokio\<close> channel every hand-off uses is here too.
\<close>

section \<open>Channels\<close>

text \<open>
  \<open>tokio::sync::mpsc\<close> with a capacity: \<open>try_send\<close> fails when the receiver is gone and when the
  channel is full.
\<close>

record 'a channel =
  ch_items :: "'a list"
  ch_capacity :: usize
  ch_closed :: bool

datatype send_result = SendOk | SendFull | SendClosed

definition try_send :: "'a \<Rightarrow> 'a channel \<Rightarrow> 'a channel \<times> send_result" where
  [rust_defs]: "try_send x ch =
     (if ch_closed ch then (ch, SendClosed)
      else if length (ch_items ch) < ch_capacity ch
      then (ch\<lparr> ch_items := ch_items ch @ [x] \<rparr>, SendOk)
      else (ch, SendFull))"

section \<open>Counters\<close>

record mcp_method_stats =
  ms_count :: u64
  ms_total_latency_ms :: u64

record source_errors =
  se_by_reason :: "u64 hash_map"
  se_last_error_ts_ms_utc :: i64

record metrics =
  accepted_total :: u64
  oversized_soft_total :: u64
  schema_invalid_total :: u64
  shed_by_reason :: "u64 hash_map"
  per_token_accepted :: "u64 hash_map"
  per_token_shed :: "u64 hash_map"
  per_source_errors :: "source_errors hash_map"
  mcp_calls :: "mcp_method_stats hash_map"
  consumer_drops :: "u64 hash_map"

record recent_errors =
  re_counters :: "u64 hash_map"
  re_last_error_ts_ms_utc :: i64

definition metrics_new :: metrics where
  "metrics_new = \<lparr> accepted_total = 0, oversized_soft_total = 0, schema_invalid_total = 0,
     shed_by_reason = Map.empty, per_token_accepted = Map.empty, per_token_shed = Map.empty,
     per_source_errors = Map.empty, mcp_calls = Map.empty, consumer_drops = Map.empty \<rparr>"

definition inc_in_map :: "string \<Rightarrow> u64 hash_map \<Rightarrow> u64 hash_map" where
  "inc_in_map key m = (case m key of
     Some n \<Rightarrow> m(key \<mapsto> n + 1)
   | None \<Rightarrow> m(key \<mapsto> 0 + 1))"

definition inc_accepted :: "string option \<Rightarrow> metrics \<Rightarrow> metrics" where
  "inc_accepted token_name m =
     (let m = m\<lparr> accepted_total := accepted_total m + 1 \<rparr>
      in case token_name of
           Some name \<Rightarrow> m\<lparr> per_token_accepted := inc_in_map name (per_token_accepted m) \<rparr>
         | None \<Rightarrow> m)"

definition inc_oversized_soft :: "metrics \<Rightarrow> metrics" where
  "inc_oversized_soft m = m\<lparr> oversized_soft_total := oversized_soft_total m + 1 \<rparr>"

definition inc_schema_invalid :: "metrics \<Rightarrow> metrics" where
  "inc_schema_invalid m = m\<lparr> schema_invalid_total := schema_invalid_total m + 1 \<rparr>"

definition inc_shed :: "string \<Rightarrow> string option \<Rightarrow> metrics \<Rightarrow> metrics" where
  "inc_shed reason token_name m =
     (let m = m\<lparr> shed_by_reason := inc_in_map reason (shed_by_reason m) \<rparr>
      in case token_name of
           Some name \<Rightarrow> m\<lparr> per_token_shed := inc_in_map name (per_token_shed m) \<rparr>
         | None \<Rightarrow> m)"

definition inc_consumer_drop :: "string \<Rightarrow> metrics \<Rightarrow> metrics" where
  "inc_consumer_drop consumer m = m\<lparr> consumer_drops := inc_in_map consumer (consumer_drops m) \<rparr>"

definition consumer_drop_count :: "metrics \<Rightarrow> string \<Rightarrow> u64" where
  "consumer_drop_count m consumer = (case consumer_drops m consumer of None \<Rightarrow> 0 | Some n \<Rightarrow> n)"

definition source_errors_default :: source_errors where
  "source_errors_default = \<lparr> se_by_reason = Map.empty, se_last_error_ts_ms_utc = 0 \<rparr>"

text \<open>The fast path when source and reason are known, the slow path otherwise.\<close>

definition inc_source_error :: "string \<Rightarrow> string \<Rightarrow> i64 \<Rightarrow> metrics \<Rightarrow> metrics" where
  "inc_source_error src reason now m =
     (case (case per_source_errors m src of
              Some s \<Rightarrow> (case se_by_reason s reason of Some n \<Rightarrow> Some (s, n) | None \<Rightarrow> None)
            | None \<Rightarrow> None) of
        Some (s, n) \<Rightarrow>
          m\<lparr> per_source_errors := (per_source_errors m)(src \<mapsto>
               s\<lparr> se_by_reason := (se_by_reason s)(reason \<mapsto> n + 1), se_last_error_ts_ms_utc := now \<rparr>) \<rparr>
      | None \<Rightarrow>
          let s = (case per_source_errors m src of Some s \<Rightarrow> s | None \<Rightarrow> source_errors_default);
              n = (case se_by_reason s reason of Some n \<Rightarrow> n | None \<Rightarrow> 0)
          in m\<lparr> per_source_errors := (per_source_errors m)(src \<mapsto>
               s\<lparr> se_by_reason := (se_by_reason s)(reason \<mapsto> n + 1), se_last_error_ts_ms_utc := now \<rparr>) \<rparr>)"

definition inc_mcp_call :: "string \<Rightarrow> u64 \<Rightarrow> metrics \<Rightarrow> metrics" where
  "inc_mcp_call method latency_ms m =
     (let s = (case mcp_calls m method of
           Some s \<Rightarrow> s | None \<Rightarrow> \<lparr> ms_count = 0, ms_total_latency_ms = 0 \<rparr>)
      in m\<lparr> mcp_calls := (mcp_calls m)(method \<mapsto>
           \<lparr> ms_count = ms_count s + 1, ms_total_latency_ms = ms_total_latency_ms s + latency_ms \<rparr>) \<rparr>)"

definition mcp_call_count :: "metrics \<Rightarrow> string \<Rightarrow> u64" where
  "mcp_call_count m method = (case mcp_calls m method of None \<Rightarrow> 0 | Some s \<Rightarrow> ms_count s)"

definition positive_counters :: "u64 hash_map \<Rightarrow> u64 hash_map" where
  "positive_counters m k = (case m k of Some n \<Rightarrow> if n > 0 then Some n else None | None \<Rightarrow> None)"

definition metrics_recent_errors :: "metrics \<Rightarrow> string \<Rightarrow> recent_errors option" where
  "metrics_recent_errors m src = (case per_source_errors m src of
     None \<Rightarrow> None
   | Some s \<Rightarrow>
       let counters = positive_counters (se_by_reason s)
       in if dom counters = {} then None
          else Some \<lparr> re_counters = counters, re_last_error_ts_ms_utc = se_last_error_ts_ms_utc s \<rparr>)"

definition shed_count :: "metrics \<Rightarrow> string \<Rightarrow> u64" where
  "shed_count m reason = (case shed_by_reason m reason of None \<Rightarrow> 0 | Some n \<Rightarrow> n)"

section \<open>Facts\<close>

definition tally :: "u64 hash_map \<Rightarrow> string \<Rightarrow> nat" where
  "tally m k = (case m k of None \<Rightarrow> 0 | Some n \<Rightarrow> n)"

lemma tally_inc [simp]: "tally (inc_in_map k m) k' = tally m k' + (if k' = k then 1 else 0)"
  by (auto simp: tally_def inc_in_map_def split: option.splits)

lemma inc_source_error_eq:
  "inc_source_error src reason now m = m\<lparr> per_source_errors := (per_source_errors m)(src \<mapsto>
     (let s = (case per_source_errors m src of Some s \<Rightarrow> s | None \<Rightarrow> source_errors_default)
      in s\<lparr> se_by_reason := (se_by_reason s)(reason \<mapsto> tally (se_by_reason s) reason + 1),
            se_last_error_ts_ms_utc := now \<rparr>)) \<rparr>"
  by (auto simp: inc_source_error_def Let_def tally_def split: option.splits)

text \<open>The errors recorded for a source by a sequence of calls.\<close>

definition record_errors :: "(string \<times> string \<times> i64) list \<Rightarrow> metrics \<Rightarrow> metrics" where
  "record_errors es m = fold (\<lambda>(src, reason, now). inc_source_error src reason now) es m"

text \<open>How many errors there are of each reason.\<close>

definition reason_counts :: "(string \<times> string \<times> i64) list \<Rightarrow> u64 hash_map" where
  "reason_counts es r = (let n = length (filter (\<lambda>e. fst (snd e) = r) es) in if n = 0 then None else Some n)"

lemma reason_counts_snoc:
  "reason_counts (es @ [(s, r, t)]) = (reason_counts es)(r \<mapsto> tally (reason_counts es) r + 1)"
  by (rule ext) (simp add: reason_counts_def tally_def Let_def)

lemma reason_counts_Nil: "reason_counts [] = Map.empty"
  by (rule ext) (simp add: reason_counts_def)

definition errors_of :: "string \<Rightarrow> (string \<times> string \<times> i64) list \<Rightarrow> (string \<times> string \<times> i64) list" where
  "errors_of src es = filter (\<lambda>e. fst e = src) es"

lemma record_errors_state:
  "per_source_errors (record_errors es metrics_new) src =
     (if errors_of src es = [] then None
      else Some \<lparr> se_by_reason = reason_counts (errors_of src es),
                  se_last_error_ts_ms_utc = snd (snd (last (errors_of src es))) \<rparr>)"
proof (induction es rule: rev_induct)
  case Nil
  then show ?case by (simp add: record_errors_def metrics_new_def errors_of_def)
next
  case (snoc e es)
  obtain s r t where e: "e = (s, r, t)" by (cases e)
  have run: "record_errors (es @ [(s, r, t)]) metrics_new = inc_source_error s r t (record_errors es metrics_new)"
    by (simp add: record_errors_def)
  have errs: "errors_of src (es @ [(s, r, t)]) = errors_of src es @ (if s = src then [(s, r, t)] else [])"
    by (simp add: errors_of_def)
  have zero: "tally Map.empty x = 0" for x by (simp add: tally_def)
  show ?case
    using snoc reason_counts_snoc [of "[]" s r t] unfolding e run errs
    by (auto simp: inc_source_error_eq Let_def source_errors_default_def reason_counts_snoc reason_counts_Nil zero
        fun_eq_iff)
qed

lemma positive_reason_counts: "positive_counters (reason_counts es) = reason_counts es"
  by (rule ext) (simp add: positive_counters_def reason_counts_def Let_def)

lemma reason_counts_empty: "reason_counts es = Map.empty \<longleftrightarrow> es = []"
proof
  assume "reason_counts es = Map.empty"
  then have none: "reason_counts es r = None" for r by simp
  show "es = []"
  proof (cases es)
    case (Cons e es')
    then show ?thesis using none [of "fst (snd e)"] by (simp add: reason_counts_def Let_def)
  qed
qed (simp add: reason_counts_Nil)

section \<open>Properties\<close>

text \<open>
  The error digest of a source is exact: after any sequence of recorded errors, a source without
  errors has no digest, and the digest of any other source has for each reason exactly the number of
  its errors with that reason, and the time of its last one. Errors of other sources do not show.
\<close>

lemma recent_errors_exact:
  "metrics_recent_errors (record_errors es metrics_new) src =
     (let es' = filter (\<lambda>e. fst e = src) es in
      if es' = [] then None
      else Some \<lparr> re_counters = (\<lambda>r. let n = length (filter (\<lambda>e. fst (snd e) = r) es')
                     in if n = 0 then None else Some n),
                  re_last_error_ts_ms_utc = snd (snd (last es')) \<rparr>)"
  unfolding metrics_recent_errors_def record_errors_state Let_def errors_of_def [symmetric]
    reason_counts_def [symmetric, unfolded Let_def, abs_def]
  by (simp add: positive_reason_counts reason_counts_empty)

end
