(* ===== verification/Ingest_Auth.thy ===== *)
theory Ingest_Auth
  imports Globs Metrics
begin

text \<open>
  \<open>crates/ingest/src/auth.rs\<close>: bearer tokens with glob scopes and rate limits. The limiter of the
  \<open>governor\<close> crate is not under \<open>src/\<close>: a scope keeps the quota it was built with, and its verdict for
  a call (\<open>Some\<close> wait time when limited) is an argument of \<open>check_rate\<close>.
\<close>

section \<open>Data\<close>

datatype shed_reason = BusFull | RateLimit | ShedUnauthorized | ShedPayloadTooLarge | ShedUnresolvedKind

fun shed_reason_as_str :: "shed_reason \<Rightarrow> string" where
  "shed_reason_as_str BusFull = ''bus_full''"
| "shed_reason_as_str RateLimit = ''rate_limit''"
| "shed_reason_as_str ShedUnauthorized = ''unauthorized''"
| "shed_reason_as_str ShedPayloadTooLarge = ''payload_too_large''"
| "shed_reason_as_str ShedUnresolvedKind = ''unresolved_kind''"

datatype auth_error = InvalidGlob string string | InvalidRateLimit string

datatype quota = PerSecond u32 | PerMinute u32 | PerHour u32

record token_scope =
  ts_name :: string
  ts_source_globs :: glob_set
  ts_kind_globs :: glob_set
  ts_limiter :: "quota option"

section \<open>Operations\<close>

fun auth_add_globs :: "glob_lib \<Rightarrow> string list \<Rightarrow> auth_error + unit" where
  "auth_add_globs gl [] = Inr ()"
| "auth_add_globs gl (p # ps) = (case glob_error gl p of
     Some e \<Rightarrow> Inl (InvalidGlob p e) | None \<Rightarrow> auth_add_globs gl ps)"

definition auth_build_globs :: "glob_lib \<Rightarrow> string list \<Rightarrow> auth_error + glob_set" where
  "auth_build_globs gl patterns = (case auth_add_globs gl patterns of
     Inl e \<Rightarrow> Inl e
   | Inr _ \<Rightarrow> (case globset_error gl patterns of
       Some e \<Rightarrow> Inl (InvalidGlob (join_with '','' patterns) e) | None \<Rightarrow> Inr patterns))"

definition parse_rate_limit :: "string \<Rightarrow> auth_error + quota" where
  "parse_rate_limit s = (case split_once CHR ''/'' s of
     None \<Rightarrow> Inl (InvalidRateLimit s)
   | Some (n_str, unit) \<Rightarrow> (case parse_uint u32_max (trim n_str) of
       None \<Rightarrow> Inl (InvalidRateLimit s)
     | Some n \<Rightarrow>
         if n = 0 then Inl (InvalidRateLimit s)
         else if trim unit = ''s'' then Inr (PerSecond n)
         else if trim unit = ''m'' then Inr (PerMinute n)
         else if trim unit = ''h'' then Inr (PerHour n)
         else Inl (InvalidRateLimit s)))"

definition token_scope_build :: "glob_lib \<Rightarrow> string \<Rightarrow> string list \<Rightarrow> string list \<Rightarrow> string option
    \<Rightarrow> auth_error + token_scope" where
  "token_scope_build gl name source_patterns kind_patterns rate_limit =
     (case auth_build_globs gl source_patterns of
        Inl e \<Rightarrow> Inl e
      | Inr sg \<Rightarrow> (case auth_build_globs gl kind_patterns of
          Inl e \<Rightarrow> Inl e
        | Inr kg \<Rightarrow>
            (case (case rate_limit of None \<Rightarrow> Inr None
                   | Some r \<Rightarrow> (case parse_rate_limit r of Inl e \<Rightarrow> Inl e | Inr q \<Rightarrow> Inr (Some q))) of
               Inl e \<Rightarrow> Inl e
             | Inr lim \<Rightarrow> Inr \<lparr> ts_name = name, ts_source_globs = sg, ts_kind_globs = kg, ts_limiter = lim \<rparr>)))"

definition scope_allows :: "glob_lib \<Rightarrow> token_scope \<Rightarrow> string \<Rightarrow> string \<Rightarrow> bool" where
  "scope_allows gl sc s k \<longleftrightarrow> glob_set_is_match gl (ts_source_globs sc) s
     \<and> glob_set_is_match gl (ts_kind_globs sc) k"

definition check_rate :: "token_scope \<Rightarrow> duration option \<Rightarrow> duration option" where
  "check_rate sc verdict = (case ts_limiter sc of None \<Rightarrow> None | Some _ \<Rightarrow> verdict)"

record auth =
  by_token :: "token_scope hash_map"

definition auth_new :: auth where
  "auth_new = \<lparr> by_token = Map.empty \<rparr>"

definition auth_insert :: "string \<Rightarrow> token_scope \<Rightarrow> auth \<Rightarrow> auth" where
  "auth_insert token sc a = a\<lparr> by_token := (by_token a)(token \<mapsto> sc) \<rparr>"

definition auth_lookup :: "auth \<Rightarrow> string \<Rightarrow> token_scope option" where
  "auth_lookup a token = by_token a token"

definition auth_is_empty :: "auth \<Rightarrow> bool" where
  "auth_is_empty a \<longleftrightarrow> dom (by_token a) = {}"

section \<open>Facts\<close>

lemma auth_build_globs_Inr: "auth_build_globs gl ps = Inr g \<Longrightarrow> g = ps"
  by (simp add: auth_build_globs_def split: sum.split_asm option.split_asm)

lemma token_scope_build_Inr:
  assumes "token_scope_build gl n sp kp rl = Inr sc"
  shows "ts_name sc = n \<and> ts_source_globs sc = sp \<and> ts_kind_globs sc = kp"
  using assms auth_build_globs_Inr
  by (auto simp: token_scope_build_def split: sum.split_asm)

section \<open>Properties\<close>

text \<open>
  Scopes are default-deny and conjunctive: a scope built from two pattern lists allows exactly the
  pairs whose source matches one of the source patterns and whose kind matches one of the kind
  patterns; with an empty list it allows nothing.
\<close>

lemma token_scope_default_deny:
  "(case token_scope_build gl n sp kp rl of
      Inl _ \<Rightarrow> True
    | Inr sc \<Rightarrow> scope_allows gl sc s k
        = ((\<exists>p \<in> set sp. glob_match gl p s) \<and> (\<exists>q \<in> set kp. glob_match gl q k)))
   \<and> (case token_scope_build gl n [] kp rl of Inl _ \<Rightarrow> True | Inr sc \<Rightarrow> \<not> scope_allows gl sc s k)
   \<and> (case token_scope_build gl n sp [] rl of Inl _ \<Rightarrow> True | Inr sc \<Rightarrow> \<not> scope_allows gl sc s k)"
proof -
  have allows: "scope_allows gl sc s k
      = ((\<exists>p \<in> set sp'. glob_match gl p s) \<and> (\<exists>q \<in> set kp'. glob_match gl q k))"
    if "token_scope_build gl n sp' kp' rl = Inr sc" for sp' kp' sc
    using token_scope_build_Inr [OF that] by (simp add: scope_allows_def glob_set_is_match_def list_ex_iff)
  show ?thesis
    using allows [of sp kp] allows [of "[]" kp] allows [of sp "[]"] by (simp split: sum.split)
qed

end
