(* ===== verification/Normalizer.thy ===== *)
theory Normalizer
  imports Hot_Ring Embedding Ingest_Auth
begin

text \<open>
  The middle of the ingest pipeline: the wire types (\<open>wire.rs\<close>), the schema index (\<open>schema.rs\<close>) and
  the normalizer task (\<open>normalizer.rs\<close>) that turns producer events into canonical ones and fans them
  out. The JSON Schema engine is a parameter (record \<open>schema_lib\<close>); a compiled schema is the schema
  value. What the task reads from the clock and the id generator for an event is the record
  \<open>stamp\<close>.
\<close>

section \<open>Wire types\<close>

record ingest_event =
  ie_event_id :: "ulid option"
  ie_source_id :: string
  ie_kind :: string
  ie_ts_ms_utc :: i64
  ie_semantic :: json
  ie_links :: "link list option"
  ie_trace_id :: "string option"
  ie_producer_id :: "string option"

datatype ingest_payload = Batch "ingest_event list" | ArrayPayload "ingest_event list" | Single ingest_event

fun into_events :: "ingest_payload \<Rightarrow> ingest_event list" where
  "into_events (Batch es) = es"
| "into_events (ArrayPayload es) = es"
| "into_events (Single e) = [e]"

record ingest_envelope =
  env_event :: ingest_event
  env_token_name :: "string option"

section \<open>Schema index\<close>

record schema_lib =
  schema_error :: "json \<Rightarrow> string option" \<comment> \<open>\<open>JSONSchema::compile\<close>: the error, if any\<close>
  schema_is_valid :: "json \<Rightarrow> json \<Rightarrow> bool" \<comment> \<open>schema first\<close>

datatype schema_error = InvalidSourceSchema string string | InvalidKindSchema string string string

record schema_index =
  si_source :: "json hash_map"
  si_kind :: "string \<times> string \<Rightarrow> json option"
  si_latest_version :: "string hash_map"

definition schema_index_default :: schema_index where
  "schema_index_default = \<lparr> si_source = Map.empty, si_kind = Map.empty, si_latest_version = Map.empty \<rparr>"

fun schema_add_sources :: "schema_lib \<Rightarrow> source_descriptor list \<Rightarrow> schema_index \<Rightarrow> schema_error + schema_index" where
  "schema_add_sources sl [] idx = Inr idx"
| "schema_add_sources sl (s # ss) idx = (case sd_semantic_schema s of
     None \<Rightarrow> schema_add_sources sl ss idx
   | Some v \<Rightarrow> (case schema_error sl v of
       Some e \<Rightarrow> Inl (InvalidSourceSchema (sd_source_id s) e)
     | None \<Rightarrow> schema_add_sources sl ss (idx\<lparr> si_source := (si_source idx)(sd_source_id s \<mapsto> v) \<rparr>)))"

definition track_version :: "kind_descriptor \<Rightarrow> schema_index \<Rightarrow> schema_index" where
  "track_version k idx =
     (let prev = si_latest_version idx (kd_kind k)
      in if (case prev of None \<Rightarrow> True | Some p \<Rightarrow> p < kd_version k)
         then idx\<lparr> si_latest_version := (si_latest_version idx)(kd_kind k \<mapsto> kd_version k) \<rparr>
         else idx)"

fun schema_add_kinds :: "schema_lib \<Rightarrow> kind_descriptor list \<Rightarrow> schema_index \<Rightarrow> schema_error + schema_index" where
  "schema_add_kinds sl [] idx = Inr idx"
| "schema_add_kinds sl (k # ks) idx =
     (case (case kd_semantic_schema k of
              None \<Rightarrow> Inr idx
            | Some v \<Rightarrow> (case schema_error sl v of
                Some e \<Rightarrow> Inl (InvalidKindSchema (kd_kind k) (kd_version k) e)
              | None \<Rightarrow> Inr (idx\<lparr> si_kind := (si_kind idx)((kd_kind k, kd_version k) \<mapsto> v) \<rparr>))) of
        Inl e \<Rightarrow> Inl e
      | Inr idx' \<Rightarrow> schema_add_kinds sl ks (track_version k idx'))"

definition schema_build :: "schema_lib \<Rightarrow> source_descriptor list \<Rightarrow> kind_descriptor list \<Rightarrow> schema_error + schema_index" where
  "schema_build sl sources kinds = (case schema_add_sources sl sources schema_index_default of
     Inl e \<Rightarrow> Inl e | Inr idx \<Rightarrow> schema_add_kinds sl kinds idx)"

definition schema_lookup :: "schema_index \<Rightarrow> string \<Rightarrow> string \<Rightarrow> json option" where
  "schema_lookup idx src raw_kind = (case si_source idx src of
     Some s \<Rightarrow> Some s
   | None \<Rightarrow> (case kind_ref_from_str raw_kind of
       Inl _ \<Rightarrow> None
     | Inr kref \<Rightarrow> (case or_else (kr_version kref) (si_latest_version idx (kr_name kref)) of
         None \<Rightarrow> None | Some version \<Rightarrow> si_kind idx (kr_name kref, version))))"

definition schema_validate :: "schema_lib \<Rightarrow> schema_index \<Rightarrow> string \<Rightarrow> string \<Rightarrow> json \<Rightarrow> bool option" where
  "schema_validate sl idx src raw_kind sem = (case schema_lookup idx src raw_kind of
     None \<Rightarrow> None | Some schema \<Rightarrow> Some (\<not> schema_is_valid sl schema sem))"

section \<open>Normalizer\<close>

record embed_sink =
  es_tx :: "event channel"
  es_selector :: embed_selector

record normalizer =
  nz_hot_rings :: hot_rings
  nz_metrics :: metrics
  nz_schemas :: schema_index
  nz_cold_tx :: "event channel option"
  nz_embed_sink :: "embed_sink option"
  nz_forward_tx :: "event channel option"
  nz_seq_by_source :: "u64 hash_map"

definition normalizer_new :: "hot_rings \<Rightarrow> metrics \<Rightarrow> schema_index \<Rightarrow> event channel option \<Rightarrow> embed_sink option
    \<Rightarrow> event channel option \<Rightarrow> normalizer" where
  "normalizer_new hr m si cold emb fwd = \<lparr> nz_hot_rings = hr, nz_metrics = m, nz_schemas = si,
     nz_cold_tx = cold, nz_embed_sink = emb, nz_forward_tx = fwd, nz_seq_by_source = Map.empty \<rparr>"

text \<open>The fresh ids (the trace id as text) and the two clock readings an event sees.\<close>

record stamp =
  st_event_id :: ulid
  st_trace_id :: string
  st_ingest_ts :: i64
  st_push_ts :: i64

definition normalize :: "schema_lib \<Rightarrow> stamp \<Rightarrow> ingest_event \<Rightarrow> normalizer \<Rightarrow> normalizer \<times> event" where
  "normalize sl t e nz =
     (let sq = (case nz_seq_by_source nz (ie_source_id e) of Some n \<Rightarrow> n | None \<Rightarrow> 0) + 1;
          eid = (case ie_event_id e of Some i \<Rightarrow> i | None \<Rightarrow> st_event_id t);
          ingest_ts = st_ingest_ts t;
          tr = Some (case ie_trace_id e of Some x \<Rightarrow> x | None \<Rightarrow> st_trace_id t);
          validation = schema_validate sl (nz_schemas nz) (ie_source_id e) (ie_kind e) (ie_semantic e);
          m = (if validation = Some True
               then inc_source_error (ie_source_id e) ''schema_invalid'' ingest_ts (inc_schema_invalid (nz_metrics nz))
               else nz_metrics nz);
          inv = (if validation = Some True then Some True else None)
      in (nz\<lparr> nz_seq_by_source := (nz_seq_by_source nz)(ie_source_id e \<mapsto> sq), nz_metrics := m \<rparr>,
          \<lparr> event_id = eid, source_id = ie_source_id e, kind = ie_kind e, ts_ms_utc = ie_ts_ms_utc e,
            semantic = ie_semantic e, links = ie_links e, trace_id = tr,
            ingest_ts_ms_utc = Some ingest_ts, seq = Some sq, producer_id = ie_producer_id e,
            schema_invalid = inv \<rparr>))"

text \<open>Handing an event to a consumer: a full channel counts a drop, a closed one is ignored.\<close>

definition offer :: "string \<Rightarrow> event \<Rightarrow> event channel \<Rightarrow> metrics \<Rightarrow> event channel \<times> metrics" where
  "offer consumer e ch m = (case try_send e ch of
     (ch', SendOk) \<Rightarrow> (ch', m)
   | (ch', SendFull) \<Rightarrow> (ch', inc_consumer_drop consumer m)
   | (ch', SendClosed) \<Rightarrow> (ch', m))"

definition offer_cold :: "event \<Rightarrow> normalizer \<Rightarrow> normalizer" where
  "offer_cold e nz = (case nz_cold_tx nz of
     None \<Rightarrow> nz
   | Some tx \<Rightarrow> (case offer ''cold_writer'' e tx (nz_metrics nz) of
       (tx', m) \<Rightarrow> nz\<lparr> nz_cold_tx := Some tx', nz_metrics := m \<rparr>))"

definition offer_embed :: "event \<Rightarrow> normalizer \<Rightarrow> normalizer" where
  "offer_embed e nz = (case nz_embed_sink nz of
     None \<Rightarrow> nz
   | Some sink \<Rightarrow>
       if should_embed (es_selector sink) (source_id e) (kind e)
       then (case offer ''embedder'' e (es_tx sink) (nz_metrics nz) of
           (tx', m) \<Rightarrow> nz\<lparr> nz_embed_sink := Some (sink\<lparr> es_tx := tx' \<rparr>), nz_metrics := m \<rparr>)
       else nz)"

definition offer_forward :: "event \<Rightarrow> normalizer \<Rightarrow> normalizer" where
  "offer_forward e nz = (case nz_forward_tx nz of
     None \<Rightarrow> nz
   | Some tx \<Rightarrow> (case offer ''forwarder'' e tx (nz_metrics nz) of
       (tx', m) \<Rightarrow> nz\<lparr> nz_forward_tx := Some tx', nz_metrics := m \<rparr>))"

text \<open>One turn of the loop, with the canonical event it produced.\<close>

definition normalizer_step :: "schema_lib \<Rightarrow> stamp \<Rightarrow> ingest_envelope \<Rightarrow> normalizer \<Rightarrow> normalizer \<times> event" where
  "normalizer_step sl t envl nz =
     (let (nz1, e) = normalize sl t (env_event envl) nz;
          nz2 = nz1\<lparr> nz_hot_rings := fst (hot_push (st_push_ts t) e (nz_hot_rings nz1)) \<rparr>;
          nz3 = offer_forward e (offer_embed e (offer_cold e nz2))
      in (nz3\<lparr> nz_metrics := inc_accepted (env_token_name envl) (nz_metrics nz3) \<rparr>, e))"

fun normalizer_run :: "schema_lib \<Rightarrow> (stamp \<times> ingest_envelope) list \<Rightarrow> normalizer \<Rightarrow> normalizer \<times> event list" where
  "normalizer_run sl [] nz = (nz, [])"
| "normalizer_run sl ((t, envl) # is) nz =
     (let (nz1, e) = normalizer_step sl t envl nz; (nz2, es) = normalizer_run sl is nz1
      in (nz2, e # es))"

section \<open>Facts\<close>

lemma offer_fields [simp]:
  "nz_seq_by_source (offer_cold e nz) = nz_seq_by_source nz"
  "nz_seq_by_source (offer_embed e nz) = nz_seq_by_source nz"
  "nz_seq_by_source (offer_forward e nz) = nz_seq_by_source nz"
  "nz_hot_rings (offer_cold e nz) = nz_hot_rings nz"
  "nz_hot_rings (offer_embed e nz) = nz_hot_rings nz"
  "nz_hot_rings (offer_forward e nz) = nz_hot_rings nz"
  "nz_schemas (offer_cold e nz) = nz_schemas nz"
  "nz_schemas (offer_embed e nz) = nz_schemas nz"
  "nz_schemas (offer_forward e nz) = nz_schemas nz"
  "nz_cold_tx (offer_embed e nz) = nz_cold_tx nz"
  "nz_cold_tx (offer_forward e nz) = nz_cold_tx nz"
  "nz_embed_sink (offer_cold e nz) = nz_embed_sink nz"
  "nz_embed_sink (offer_forward e nz) = nz_embed_sink nz"
  "nz_forward_tx (offer_cold e nz) = nz_forward_tx nz"
  "nz_forward_tx (offer_embed e nz) = nz_forward_tx nz"
  by (simp_all add: offer_cold_def offer_embed_def offer_forward_def split: option.split prod.split)

lemma normalizer_step_event:
  "snd (normalizer_step sl t envl nz) = snd (normalize sl t (env_event envl) nz)"
  by (simp add: normalizer_step_def Let_def split: prod.split)

lemma normalizer_step_seq:
  "nz_seq_by_source (fst (normalizer_step sl t envl nz))
    = (nz_seq_by_source nz)(ie_source_id (env_event envl) \<mapsto> tally (nz_seq_by_source nz) (ie_source_id (env_event envl)) + 1)"
  by (simp add: normalizer_step_def normalize_def Let_def tally_def split: prod.split option.split)

lemma normalize_event:
  "source_id (snd (normalize sl t e nz)) = ie_source_id e"
  "seq (snd (normalize sl t e nz)) = Some (tally (nz_seq_by_source nz) (ie_source_id e) + 1)"
  by (simp_all add: normalize_def Let_def tally_def split: option.split)

text \<open>The sequence numbers of one source over a run: consecutive, from its counter on.\<close>

lemma normalizer_run_seq:
  "map (\<lambda>e. the (seq e)) (filter (\<lambda>e. source_id e = s) (snd (normalizer_run sl is nz)))
    = [Suc (tally (nz_seq_by_source nz) s) ..<
       Suc (tally (nz_seq_by_source nz) s + length (filter (\<lambda>i. ie_source_id (env_event (snd i)) = s) is))]"
proof (induction "is" arbitrary: nz)
  case (Cons p "is")
  obtain t envl where p: "p = (t, envl)" by (cases p)
  obtain nz1 e where step: "normalizer_step sl t envl nz = (nz1, e)" by (cases "normalizer_step sl t envl nz")
  have e: "source_id e = ie_source_id (env_event envl)"
      "seq e = Some (tally (nz_seq_by_source nz) (ie_source_id (env_event envl)) + 1)"
    using normalizer_step_event [of sl t envl nz] step normalize_event [of sl t "env_event envl" nz] by simp_all
  have sq: "tally (nz_seq_by_source nz1) s = tally (nz_seq_by_source nz) s
      + (if s = ie_source_id (env_event envl) then 1 else 0)"
    using normalizer_step_seq [of sl t envl nz] step by (auto simp: tally_def)
  show ?case
  proof (cases "ie_source_id (env_event envl) = s")
    case True
    then show ?thesis
      using Cons.IH [of nz1] e sq
      by (simp add: p step Let_def split_beta upt_conv_Cons del: upt_Suc)
  next
    case False
    then show ?thesis using Cons.IH [of nz1] e sq by (simp add: p step Let_def split_beta)
  qed
qed simp

text \<open>The latest version of a kind after registering descriptors.\<close>

lemma schema_add_kinds_latest:
  assumes "schema_add_kinds sl ks idx = Inr idx'"
  shows "si_latest_version idx' n = (let vs = map kd_version (filter (\<lambda>k. kd_kind k = n) ks)
    in case si_latest_version idx n of
         None \<Rightarrow> if vs = [] then None else Some (Max (set vs))
       | Some p \<Rightarrow> Some (Max (insert p (set vs))))"
  using assms
proof (induction ks arbitrary: idx)
  case Nil
  then show ?case by (simp split: option.split)
next
  case (Cons k ks)
  obtain idx1 where one: "si_latest_version idx1 = si_latest_version idx"
      and rest: "schema_add_kinds sl ks (track_version k idx1) = Inr idx'"
  proof (cases "kd_semantic_schema k")
    case None
    then show ?thesis using Cons.prems that [of idx] by simp
  next
    case (Some v)
    then show ?thesis
      using Cons.prems that [of "idx\<lparr> si_kind := (si_kind idx)((kd_kind k, kd_version k) \<mapsto> v) \<rparr>"]
      by (simp split: sum.split_asm option.split_asm)
  qed
  note IH = Cons.IH [OF rest]
  show ?case
  proof (cases "kd_kind k = n")
    case True
    let ?vs = "map kd_version (filter (\<lambda>k. kd_kind k = n) ks)"
    have latest: "si_latest_version (track_version k idx1) n = Some (case si_latest_version idx n of
        None \<Rightarrow> kd_version k | Some p \<Rightarrow> max p (kd_version k))"
      using True one by (auto simp: track_version_def Let_def max_def split: option.split)
    have swap: "Max (insert (max p v) A) = Max (insert p (insert v A))" if "finite A" for p v :: string and A
      using that by (cases "A = {}") (simp_all add: max.assoc)
    show ?thesis
    proof (cases "si_latest_version idx n")
      case None
      then show ?thesis using IH True latest by simp
    next
      case (Some p)
      then show ?thesis using IH True latest swap [of "set ?vs" p "kd_version k"] by simp
    qed
  next
    case False
    then have "si_latest_version (track_version k idx1) n = si_latest_version idx n"
      using one by (simp add: track_version_def Let_def split: option.split)
    then show ?thesis using IH False by simp
  qed
qed

section \<open>Properties\<close>

text \<open>
  C8. Sequence numbers are gap-free per source: over any run of the normalizer the canonical events of
  a source carry the sequence numbers 1, 2, 3, ... in the order the envelopes were received, whatever
  other sources do.
\<close>

theorem normalizer_seq_per_source:
  "map seq (filter (\<lambda>e. source_id e = s) (snd (normalizer_run sl is (normalizer_new hr m si cold emb fwd))))
    = map Some [1 ..< Suc (length (filter (\<lambda>i. ie_source_id (env_event (snd i)) = s) is))]"
proof -
  let ?es = "filter (\<lambda>e. source_id e = s) (snd (normalizer_run sl is (normalizer_new hr m si cold emb fwd)))"
  have some: "seq e \<noteq> None" if "e \<in> set (snd (normalizer_run sl is nz))" for e nz
    using that
  proof (induction "is" arbitrary: nz)
    case (Cons p "is")
    then show ?case
      by (cases p) (auto simp: Let_def split_beta normalizer_step_event normalize_event)
  qed simp
  have "map seq ?es = map (\<lambda>e. Some (the (seq e))) ?es"
    using some by (intro map_cong refl) auto
  also have "\<dots> = map Some (map (\<lambda>e. the (seq e)) ?es)" by simp
  also have "\<dots> = map Some [1 ..< Suc (length (filter (\<lambda>i. ie_source_id (env_event (snd i)) = s) is))]"
    unfolding normalizer_run_seq by (simp add: normalizer_new_def tally_def del: upt_Suc)
  finally show ?thesis .
qed

text \<open>
  C9. The fan-out of one envelope: the canonical event keeps every producer field, gets the ingest time
  and a trace id, is pushed into the hot ring of its pair, and is offered to each configured consumer
  (to the embedder only when the selector says so): an open channel with room gets exactly this event at
  its end, a full or closed channel is left as it is. The envelope counts as accepted.
\<close>

theorem normalizer_fan_out:
  "let (nz', e) = normalizer_step sl t envl nz; i = env_event envl;
       sent = (\<lambda>ch. if ch_closed ch \<or> length (ch_items ch) \<ge> ch_capacity ch then ch
                    else ch\<lparr> ch_items := ch_items ch @ [e] \<rparr>)
   in e = \<lparr> event_id = (case ie_event_id i of Some x \<Rightarrow> x | None \<Rightarrow> st_event_id t),
          source_id = ie_source_id i, kind = ie_kind i, ts_ms_utc = ie_ts_ms_utc i,
          semantic = ie_semantic i, links = ie_links i,
          trace_id = Some (case ie_trace_id i of Some x \<Rightarrow> x | None \<Rightarrow> st_trace_id t),
          ingest_ts_ms_utc = Some (st_ingest_ts t),
          seq = Some (tally (nz_seq_by_source nz) (ie_source_id i) + 1),
          producer_id = ie_producer_id i,
          schema_invalid = (if schema_validate sl (nz_schemas nz) (ie_source_id i) (ie_kind i) (ie_semantic i) = Some True
            then Some True else None) \<rparr>
      \<and> nz_hot_rings nz' = fst (hot_push (st_push_ts t) e (nz_hot_rings nz))
      \<and> nz_cold_tx nz' = map_option sent (nz_cold_tx nz)
      \<and> nz_forward_tx nz' = map_option sent (nz_forward_tx nz)
      \<and> nz_embed_sink nz' = map_option (\<lambda>sk. if should_embed (es_selector sk) (source_id e) (kind e)
            then sk\<lparr> es_tx := sent (es_tx sk) \<rparr> else sk) (nz_embed_sink nz)
      \<and> accepted_total (nz_metrics nz') = accepted_total (nz_metrics nz) + 1"
proof -
  obtain nz1 e where n: "normalize sl t (env_event envl) nz = (nz1, e)"
    by (cases "normalize sl t (env_event envl) nz")
  let ?sent = "\<lambda>ch. if ch_closed ch \<or> length (ch_items ch) \<ge> ch_capacity ch then ch
                    else ch\<lparr> ch_items := ch_items ch @ [e] \<rparr>"
  have kept: "nz_hot_rings nz1 = nz_hot_rings nz" "nz_cold_tx nz1 = nz_cold_tx nz"
      "nz_embed_sink nz1 = nz_embed_sink nz" "nz_forward_tx nz1 = nz_forward_tx nz"
      "accepted_total (nz_metrics nz1) = accepted_total (nz_metrics nz)"
    using n by (auto simp: normalize_def Let_def inc_source_error_eq inc_schema_invalid_def)
  let ?i = "env_event envl"
  have fields: "e = \<lparr> event_id = (case ie_event_id ?i of Some x \<Rightarrow> x | None \<Rightarrow> st_event_id t),
          source_id = ie_source_id ?i, kind = ie_kind ?i, ts_ms_utc = ie_ts_ms_utc ?i,
          semantic = ie_semantic ?i, links = ie_links ?i,
          trace_id = Some (case ie_trace_id ?i of Some x \<Rightarrow> x | None \<Rightarrow> st_trace_id t),
          ingest_ts_ms_utc = Some (st_ingest_ts t),
          seq = Some (tally (nz_seq_by_source nz) (ie_source_id ?i) + 1),
          producer_id = ie_producer_id ?i,
          schema_invalid = (if schema_validate sl (nz_schemas nz) (ie_source_id ?i) (ie_kind ?i) (ie_semantic ?i) = Some True
            then Some True else None) \<rparr>"
    using n by (auto simp: normalize_def Let_def tally_def split: option.split)
  have send: "fst (offer consumer e ch m) = ?sent ch"
      "accepted_total (snd (offer consumer e ch m)) = accepted_total m" for consumer ch m
    by (simp_all add: offer_def try_send_def inc_consumer_drop_def)
  have cold: "nz_cold_tx (offer_cold e z) = map_option ?sent (nz_cold_tx z)" for z
    using send(1) by (simp add: offer_cold_def split_beta split: option.split)
  have fwd: "nz_forward_tx (offer_forward e z) = map_option ?sent (nz_forward_tx z)" for z
    using send(1) by (simp add: offer_forward_def split_beta split: option.split)
  have emb: "nz_embed_sink (offer_embed e z) = map_option (\<lambda>sk. if should_embed (es_selector sk) (source_id e) (kind e)
            then sk\<lparr> es_tx := ?sent (es_tx sk) \<rparr> else sk) (nz_embed_sink z)" for z
    using send(1) by (simp add: offer_embed_def split_beta split: option.split)
  have acc: "accepted_total (nz_metrics (offer_cold e z)) = accepted_total (nz_metrics z)"
      "accepted_total (nz_metrics (offer_embed e z)) = accepted_total (nz_metrics z)"
      "accepted_total (nz_metrics (offer_forward e z)) = accepted_total (nz_metrics z)" for z
    by (simp_all add: offer_cold_def offer_embed_def offer_forward_def split_beta send(2) split: option.split)
  have total: "accepted_total (inc_accepted x m) = accepted_total m + 1" for x m
    by (simp add: inc_accepted_def Let_def split: option.split)
  show ?thesis
    unfolding normalizer_step_def n Let_def prod.case
    by (rule conjI [OF fields]) (simp add: kept cold fwd emb acc total)
qed

text \<open>
  The schema index resolves an unversioned kind to the greatest registered version in string
  order, over all descriptors of the kind, whether or not that version has a schema.
\<close>

lemma schema_latest_version:
  "(case schema_build sl sources kinds of
      Inl _ \<Rightarrow> True
    | Inr idx \<Rightarrow> si_latest_version idx n =
        (let vs = map kd_version (filter (\<lambda>k. kd_kind k = n) kinds)
         in if vs = [] then None else Some (Max (set vs))))"
proof -
  have keep: "schema_add_sources sl ss idx = Inr idx' \<Longrightarrow> si_latest_version idx' = si_latest_version idx" for ss idx idx'
    by (induction ss arbitrary: idx) (auto split: option.split_asm)
  show ?thesis
  proof (cases "schema_build sl sources kinds")
    case (Inr idx)
    then obtain idx0 where add: "schema_add_sources sl sources schema_index_default = Inr idx0"
        and kinds: "schema_add_kinds sl kinds idx0 = Inr idx"
      by (auto simp: schema_build_def split: sum.split_asm)
    have "si_latest_version idx0 n = None" using keep [OF add] by (simp add: schema_index_default_def)
    then show ?thesis using Inr schema_add_kinds_latest [OF kinds, of n] by (simp add: Let_def)
  qed simp
qed

end
