(* ===== verification/Http_Ingest.thy ===== *)
theory Http_Ingest
  imports Normalizer
begin

text \<open>
  The two producer front ends: \<open>crates/ingest/src/http.rs\<close> (\<open>POST /ingest\<close>) and \<open>ws.rs\<close> (\<open>/ingest/ws\<close>).
  Both put envelopes on the bounded channel the normalizer reads. The normalizer runs while a handler
  does: \<open>drains n\<close> is how many envelopes it takes off the channel before the handler's \<open>n\<close>-th send.
  The JSON deserialiser of \<open>IngestPayload\<close> and the header conversion \<open>HeaderValue::to_str\<close> are
  parameters (record \<open>http_lib\<close>). The pages \<open>/metrics\<close> and \<open>/healthz\<close> are in \<open>Metrics_Text\<close>.
\<close>

section \<open>Data\<close>

definition DEFAULT_HARD_CAP_BYTES :: usize where
  "DEFAULT_HARD_CAP_BYTES = 64 * 1024"

definition DEFAULT_SOFT_CAP_BYTES :: usize where
  "DEFAULT_SOFT_CAP_BYTES = 16 * 1024"

record http_lib =
  payload_from_slice :: "bytes \<Rightarrow> string + ingest_payload" \<comment> \<open>\<open>serde_json::from_slice\<close>\<close>
  header_to_str :: "bytes \<Rightarrow> string option"

text \<open>The channel with both of its ends: what the normalizer has received so far comes first.\<close>

record ingest_bus =
  bus_received :: "ingest_envelope list"
  bus_tx :: "ingest_envelope channel"

definition bus_recv :: "nat \<Rightarrow> ingest_bus \<Rightarrow> ingest_bus" where
  "bus_recv n b = \<lparr> bus_received = bus_received b @ take n (ch_items (bus_tx b)),
     bus_tx = (bus_tx b)\<lparr> ch_items := drop n (ch_items (bus_tx b)) \<rparr> \<rparr>"

definition bus_try_send :: "ingest_envelope \<Rightarrow> ingest_bus \<Rightarrow> ingest_bus \<times> send_result" where
  "bus_try_send x b = (case try_send x (bus_tx b) of (tx, r) \<Rightarrow> (b\<lparr> bus_tx := tx \<rparr>, r))"

definition bus_log :: "ingest_bus \<Rightarrow> ingest_envelope list" where
  \<comment> \<open>every envelope ever put on the channel, in order\<close>
  "bus_log b = bus_received b @ ch_items (bus_tx b)"

record http_state =
  hs_auth :: auth
  hs_metrics :: metrics
  hs_bus :: ingest_bus
  hs_hard_cap_bytes :: usize
  hs_soft_cap_bytes :: usize

datatype body = TextBody string | JsonBody json

record response =
  rs_status :: nat
  rs_body :: body
  rs_shed_reason :: "string option" \<comment> \<open>\<open>x-percept-shed-reason\<close>\<close>
  rs_retry_after :: "string option" \<comment> \<open>\<open>retry-after\<close>\<close>

definition into_response :: "nat \<Rightarrow> body \<Rightarrow> response" where
  "into_response st b = \<lparr> rs_status = st, rs_body = b, rs_shed_reason = None, rs_retry_after = None \<rparr>"

section \<open>HTTP\<close>

fun approx_semantic_size :: "json \<Rightarrow> usize" where
  "approx_semantic_size Null = 4"
| "approx_semantic_size (Bool _) = 5"
| "approx_semantic_size (Number _) = 16"
| "approx_semantic_size (String s) = length s + 2"
| "approx_semantic_size (Array a) = sum_list (map approx_semantic_size a) + 2"
| "approx_semantic_size (Object ob) =
     sum_list (map (\<lambda>(k, vv). length k + 4 + approx_semantic_size vv) ob) + 2"

definition shed_response :: "shed_reason \<Rightarrow> duration option \<Rightarrow> response" where
  "shed_response reason retry_after =
     (let resp = (into_response 429 (TextBody (shed_reason_as_str reason)))
            \<lparr> rs_shed_reason := Some (shed_reason_as_str reason) \<rparr>
      in case retry_after of
           None \<Rightarrow> resp
         | Some d \<Rightarrow> resp\<lparr> rs_retry_after := Some (show_nat (max (as_secs d) 1)) \<rparr>)"

definition http_authenticate :: "http_lib \<Rightarrow> auth \<Rightarrow> bytes hash_map \<Rightarrow> response + token_scope" where
  "http_authenticate hl a headers =
     (case Option.bind (Option.bind (headers ''authorization'') (header_to_str hl)) (strip_prefix ''Bearer '') of
        None \<Rightarrow> Inl (into_response 401 (TextBody ''missing bearer token''))
      | Some token \<Rightarrow> (case auth_lookup a token of
          None \<Rightarrow> Inl (into_response 401 (TextBody ''unknown bearer token''))
        | Some sc \<Rightarrow> Inr sc))"

definition shed_metrics :: "shed_reason \<Rightarrow> token_scope \<Rightarrow> string \<Rightarrow> i64 \<Rightarrow> metrics \<Rightarrow> metrics" where
  "shed_metrics reason sc src now m =
     inc_source_error src (shed_reason_as_str reason) now
       (inc_shed (shed_reason_as_str reason) (Some (ts_name sc)) m)"

text \<open>The scope and size checks of a batch: the reason of the first event that fails, if any.\<close>

fun http_check_events :: "glob_lib \<Rightarrow> token_scope \<Rightarrow> i64 \<Rightarrow> ingest_event list \<Rightarrow> http_state
    \<Rightarrow> http_state \<times> shed_reason option" where
  "http_check_events gl sc now [] s = (s, None)"
| "http_check_events gl sc now (e # es) s =
     (if \<not> scope_allows gl sc (ie_source_id e) (ie_kind e)
      then (s\<lparr> hs_metrics := shed_metrics ShedUnauthorized sc (ie_source_id e) now (hs_metrics s) \<rparr>,
            Some ShedUnauthorized)
      else let size = approx_semantic_size (ie_semantic e) in
        if size > hs_hard_cap_bytes s
        then (s\<lparr> hs_metrics := shed_metrics ShedPayloadTooLarge sc (ie_source_id e) now (hs_metrics s) \<rparr>,
              Some ShedPayloadTooLarge)
        else if size > hs_soft_cap_bytes s
        then http_check_events gl sc now es (s\<lparr> hs_metrics := inc_oversized_soft (hs_metrics s) \<rparr>)
        else http_check_events gl sc now es s)"

definition rate_metrics :: "token_scope \<Rightarrow> i64 \<Rightarrow> ingest_event list \<Rightarrow> metrics \<Rightarrow> metrics" where
  "rate_metrics sc now es m =
     fold (\<lambda>e. inc_source_error (ie_source_id e) (shed_reason_as_str RateLimit) now) es
       (inc_shed (shed_reason_as_str RateLimit) (Some (ts_name sc)) m)"

fun http_send_events :: "(nat \<Rightarrow> nat) \<Rightarrow> token_scope \<Rightarrow> i64 \<Rightarrow> ingest_event list \<Rightarrow> usize \<Rightarrow> http_state
    \<Rightarrow> http_state \<times> response" where
  "http_send_events drains sc now [] accepted s =
     (s, into_response 200 (JsonBody (Object [(''accepted'', Number (PosInt accepted))])))"
| "http_send_events drains sc now (e # es) accepted s =
     (let envl = \<lparr> env_event = e, env_token_name = Some (ts_name sc) \<rparr>;
          (b, r) = bus_try_send envl (bus_recv (drains accepted) (hs_bus s));
          s = s\<lparr> hs_bus := b \<rparr>
      in case r of
           SendOk \<Rightarrow> http_send_events drains sc now es (accepted + 1) s
         | SendFull \<Rightarrow>
             (s\<lparr> hs_metrics := shed_metrics BusFull sc (ie_source_id e) now (hs_metrics s) \<rparr>,
              shed_response BusFull (Some (from_millis 100)))
         | SendClosed \<Rightarrow> (s, into_response 503 (TextBody ''shutting down'')))"

definition http_ingest :: "http_lib \<Rightarrow> glob_lib \<Rightarrow> (nat \<Rightarrow> nat) \<Rightarrow> i64 \<Rightarrow> duration option
    \<Rightarrow> bytes hash_map \<Rightarrow> bytes \<Rightarrow> http_state \<Rightarrow> http_state \<times> response" where
  "http_ingest hl gl drains now verdict headers bdy s =
     (case http_authenticate hl (hs_auth s) headers of
        Inl resp \<Rightarrow> (s, resp)
      | Inr sc \<Rightarrow>
          (case payload_from_slice hl bdy of
             Inl e \<Rightarrow> (s, into_response 400 (TextBody (''invalid JSON: '' @ e)))
           | Inr payload \<Rightarrow>
               let events = into_events payload in
               if events = [] then (s, into_response 400 (TextBody ''no events in payload''))
               else (case http_check_events gl sc now events s of
                   (s, Some reason) \<Rightarrow> (s, shed_response reason None)
                 | (s, None) \<Rightarrow>
                     (case check_rate sc verdict of
                        Some wait \<Rightarrow> (s\<lparr> hs_metrics := rate_metrics sc now events (hs_metrics s) \<rparr>,
                                      shed_response RateLimit (Some wait))
                      | None \<Rightarrow> http_send_events drains sc now events 0 s))))"

section \<open>WebSocket\<close>

fun ws_approx_semantic_size :: "json \<Rightarrow> usize" where
  "ws_approx_semantic_size Null = 4"
| "ws_approx_semantic_size (Bool _) = 5"
| "ws_approx_semantic_size (Number _) = 16"
| "ws_approx_semantic_size (String s) = length s + 2"
| "ws_approx_semantic_size (Array a) = sum_list (map ws_approx_semantic_size a) + 2"
| "ws_approx_semantic_size (Object ob) =
     sum_list (map (\<lambda>(k, vv). length k + 4 + ws_approx_semantic_size vv) ob) + 2"

datatype ws_message = WsText string | WsBinary bytes | WsPing | WsPong | WsClose

datatype ws_out = WsOutText json | WsOutClose nat string

text \<open>What \<open>recv\<close> yields, with the clock, the limiter's verdict and the drains its handling sees.\<close>

record ws_turn =
  wt_message :: "ws_message option" \<comment> \<open>\<open>None\<close>: a network error\<close>
  wt_now :: i64
  wt_verdict :: "duration option"
  wt_drains :: "nat \<Rightarrow> nat"

definition send_error :: "string \<Rightarrow> ws_out list" where
  "send_error msg = [WsOutText (Object [(''error'', String msg)])]"

definition send_shed :: "shed_reason \<Rightarrow> ws_out list" where
  "send_shed reason = [WsOutText (Object [(''shed_reason'', String (shed_reason_as_str reason))])]"

fun ws_check_events :: "glob_lib \<Rightarrow> token_scope \<Rightarrow> i64 \<Rightarrow> ingest_event list \<Rightarrow> http_state
    \<Rightarrow> http_state \<times> shed_reason option" where
  "ws_check_events gl sc now [] s = (s, None)"
| "ws_check_events gl sc now (e # es) s =
     (if \<not> scope_allows gl sc (ie_source_id e) (ie_kind e)
      then (s\<lparr> hs_metrics := shed_metrics ShedUnauthorized sc (ie_source_id e) now (hs_metrics s) \<rparr>,
            Some ShedUnauthorized)
      else if ws_approx_semantic_size (ie_semantic e) > hs_hard_cap_bytes s
      then (s\<lparr> hs_metrics := shed_metrics ShedPayloadTooLarge sc (ie_source_id e) now (hs_metrics s) \<rparr>,
            Some ShedPayloadTooLarge)
      else ws_check_events gl sc now es s)"

text \<open>The send loop: the frames it sent, how many events it accepted, and whether the session ends.\<close>

fun ws_send_events :: "(nat \<Rightarrow> nat) \<Rightarrow> token_scope \<Rightarrow> i64 \<Rightarrow> ingest_event list \<Rightarrow> usize \<Rightarrow> http_state
    \<Rightarrow> http_state \<times> ws_out list \<times> usize \<times> bool" where
  "ws_send_events drains sc now [] accepted s = (s, [], accepted, False)"
| "ws_send_events drains sc now (e # es) accepted s =
     (let envl = \<lparr> env_event = e, env_token_name = Some (ts_name sc) \<rparr>;
          (b, r) = bus_try_send envl (bus_recv (drains accepted) (hs_bus s));
          s = s\<lparr> hs_bus := b \<rparr>
      in case r of
           SendOk \<Rightarrow> ws_send_events drains sc now es (accepted + 1) s
         | SendFull \<Rightarrow>
             (s\<lparr> hs_metrics := shed_metrics BusFull sc (ie_source_id (env_event envl)) now (hs_metrics s) \<rparr>,
              send_shed BusFull, accepted, False)
         | SendClosed \<Rightarrow> (s, [], accepted, True))"

text \<open>One message with a payload; the last component says that the session ends.\<close>

definition ws_payload :: "http_lib \<Rightarrow> glob_lib \<Rightarrow> token_scope \<Rightarrow> ws_turn \<Rightarrow> bytes \<Rightarrow> http_state
    \<Rightarrow> http_state \<times> ws_out list \<times> bool" where
  "ws_payload hl gl sc t bs s =
     (case payload_from_slice hl bs of
        Inl e \<Rightarrow> (s, send_error (''invalid JSON: '' @ e), False)
      | Inr payload \<Rightarrow>
          let events = into_events payload in
          if events = [] then (s, send_error ''no events in payload'', False)
          else (case ws_check_events gl sc (wt_now t) events s of
              (s, Some r) \<Rightarrow> (s, send_shed r, False)
            | (s, None) \<Rightarrow>
                (case check_rate sc (wt_verdict t) of
                   Some wait \<Rightarrow> (s\<lparr> hs_metrics := rate_metrics sc (wt_now t) events (hs_metrics s) \<rparr>,
                                 send_shed RateLimit, False)
                 | None \<Rightarrow>
                     (case ws_send_events (wt_drains t) sc (wt_now t) events 0 s of
                        (s, outs, accepted, True) \<Rightarrow> (s, outs, True)
                      | (s, outs, accepted, False) \<Rightarrow>
                          (s, outs @ (if accepted > 0
                             then [WsOutText (Object [(''accepted'', Number (PosInt accepted))])] else []),
                           False)))))"

fun run_session :: "http_lib \<Rightarrow> glob_lib \<Rightarrow> token_scope \<Rightarrow> ws_turn list \<Rightarrow> http_state
    \<Rightarrow> http_state \<times> ws_out list" where
  "run_session hl gl sc [] s = (s, [])"
| "run_session hl gl sc (t # ts) s =
     (case wt_message t of
        None \<Rightarrow> (s, [])
      | Some WsPing \<Rightarrow> run_session hl gl sc ts s
      | Some WsPong \<Rightarrow> run_session hl gl sc ts s
      | Some WsClose \<Rightarrow> (s, [])
      | Some m \<Rightarrow>
          let bs = (case m of WsText x \<Rightarrow> x | WsBinary x \<Rightarrow> x | _ \<Rightarrow> []);
              (s, outs, ends) = ws_payload hl gl sc t bs s
          in if ends then (s, outs)
             else let (s, outs') = run_session hl gl sc ts s in (s, outs @ outs'))"

definition ws_handler :: "http_lib \<Rightarrow> glob_lib \<Rightarrow> string \<Rightarrow> ws_turn list \<Rightarrow> http_state
    \<Rightarrow> http_state \<times> ws_out list" where
  "ws_handler hl gl token ts s = (case auth_lookup (hs_auth s) token of
     Some sc \<Rightarrow> run_session hl gl sc ts s
   | None \<Rightarrow> (s, [WsOutClose 1008 ''unknown bearer token'']))"

section \<open>Facts\<close>

definition envelope_of :: "token_scope \<Rightarrow> ingest_event \<Rightarrow> ingest_envelope" where
  "envelope_of sc e = \<lparr> env_event = e, env_token_name = Some (ts_name sc) \<rparr>"

definition admissible :: "glob_lib \<Rightarrow> token_scope \<Rightarrow> http_state \<Rightarrow> ingest_event \<Rightarrow> bool" where
  "admissible gl sc s e \<longleftrightarrow> scope_allows gl sc (ie_source_id e) (ie_kind e)
     \<and> approx_semantic_size (ie_semantic e) \<le> hs_hard_cap_bytes s"

lemma bus_log_recv [simp]: "bus_log (bus_recv n b) = bus_log b"
  by (simp add: bus_log_def bus_recv_def)

lemma bus_recv_0 [simp]: "bus_recv 0 b = b"
  by (simp add: bus_recv_def)

lemma bus_log_try_send:
  "bus_try_send x b = (b', r) \<Longrightarrow> bus_log b' = bus_log b @ (if r = SendOk then [x] else [])"
  by (auto simp: bus_try_send_def bus_log_def try_send_def split: if_splits)

lemma sizes_agree: "ws_approx_semantic_size v = approx_semantic_size v"
proof (induction v rule: approx_semantic_size.induct)
  case (5 a)
  then have "map ws_approx_semantic_size a = map approx_semantic_size a" by simp
  then show ?case by (simp only: ws_approx_semantic_size.simps approx_semantic_size.simps)
next
  case (6 ob)
  then have "map (\<lambda>(k, vv). length k + 4 + ws_approx_semantic_size vv) ob
      = map (\<lambda>(k, vv). length k + 4 + approx_semantic_size vv) ob" by auto
  then show ?case by (simp only: ws_approx_semantic_size.simps approx_semantic_size.simps)
qed simp_all

text \<open>The checks touch the metrics only, and pass exactly when every event is admissible.\<close>

lemma http_check_events_state:
  assumes "http_check_events gl sc now es s = (s', r)"
  shows "hs_bus s' = hs_bus s" "hs_auth s' = hs_auth s" "hs_hard_cap_bytes s' = hs_hard_cap_bytes s"
    "hs_soft_cap_bytes s' = hs_soft_cap_bytes s"
  using assms by (induction es arbitrary: s) (auto simp: Let_def split: if_splits)

lemma http_check_events_verdict:
  "snd (http_check_events gl sc now es s) =
     (case find (\<lambda>e. \<not> admissible gl sc s e) es of
        None \<Rightarrow> None
      | Some e \<Rightarrow> Some (if scope_allows gl sc (ie_source_id e) (ie_kind e) then ShedPayloadTooLarge
                       else ShedUnauthorized))"
proof (induction es arbitrary: s)
  case (Cons e es)
  have adm: "admissible gl sc (s\<lparr> hs_metrics := m \<rparr>) = admissible gl sc s" for m
    by (simp add: admissible_def fun_eq_iff)
  show ?case
    using Cons [of s] Cons [of "s\<lparr> hs_metrics := inc_oversized_soft (hs_metrics s) \<rparr>"] unfolding adm
    by (simp add: Let_def) (simp add: admissible_def)
qed simp

lemma http_send_events_prefix:
  assumes "http_send_events drains sc now es k s = (s', resp)"
  obtains n where "n \<le> length es" "bus_log (hs_bus s') = bus_log (hs_bus s) @ map (envelope_of sc) (take n es)"
    "rs_status resp = 200 \<longleftrightarrow> n = length es"
    "rs_status resp = 200 \<longrightarrow> rs_body resp = JsonBody (Object [(''accepted'', Number (PosInt (k + n)))])"
proof -
  have "\<exists>n \<le> length es. bus_log (hs_bus s') = bus_log (hs_bus s) @ map (envelope_of sc) (take n es)
      \<and> (rs_status resp = 200 \<longleftrightarrow> n = length es)
      \<and> (rs_status resp = 200 \<longrightarrow> rs_body resp = JsonBody (Object [(''accepted'', Number (PosInt (k + n)))]))"
    using assms
  proof (induction es arbitrary: k s)
    case Nil
    then show ?case by (auto simp: into_response_def)
  next
    case (Cons e es)
    let ?b = "bus_recv (drains k) (hs_bus s)"
    obtain b r where br: "bus_try_send (envelope_of sc e) ?b = (b, r)" by (cases "bus_try_send (envelope_of sc e) ?b")
    have lg: "bus_log b = bus_log (hs_bus s) @ (if r = SendOk then [envelope_of sc e] else [])"
      using bus_log_try_send [OF br] by simp
    note step = Cons.prems [unfolded http_send_events.simps Let_def, folded envelope_of_def, unfolded br]
    show ?case
    proof (cases r)
      case SendOk
      then have "http_send_events drains sc now es (k + 1) (s\<lparr> hs_bus := b \<rparr>) = (s', resp)"
        using step by simp
      from Cons.IH [OF this] obtain n where n: "n \<le> length es"
        "bus_log (hs_bus s') = bus_log b @ map (envelope_of sc) (take n es)"
        "rs_status resp = 200 \<longleftrightarrow> n = length es"
        "rs_status resp = 200 \<longrightarrow> rs_body resp = JsonBody (Object [(''accepted'', Number (PosInt (k + 1 + n)))])"
        by auto
      then show ?thesis using lg SendOk by (intro exI [of _ "Suc n"]) simp
    next
      case SendFull
      then show ?thesis using step lg
        by (intro exI [of _ 0]) (auto simp: shed_response_def into_response_def Let_def)
    next
      case SendClosed
      then show ?thesis using step lg by (intro exI [of _ 0]) (auto simp: into_response_def)
    qed
  qed
  then show ?thesis using that by blast
qed

text \<open>With no receiver running the sends stop exactly at the capacity.\<close>

lemma http_send_events_full:
  assumes "\<not> ch_closed (bus_tx (hs_bus s))"
    and "length (ch_items (bus_tx (hs_bus s))) \<le> ch_capacity (bus_tx (hs_bus s))"
    and "ch_capacity (bus_tx (hs_bus s)) - length (ch_items (bus_tx (hs_bus s))) < length es"
    and "http_send_events (\<lambda>_. 0) sc now es k s = (s', resp)"
  shows "resp = shed_response BusFull (Some (from_millis 100))
    \<and> ch_items (bus_tx (hs_bus s')) = ch_items (bus_tx (hs_bus s))
        @ map (envelope_of sc) (take (ch_capacity (bus_tx (hs_bus s)) - length (ch_items (bus_tx (hs_bus s)))) es)"
  using assms
proof (induction es arbitrary: k s)
  case (Cons e es)
  let ?ch = "bus_tx (hs_bus s)"
  show ?case
  proof (cases "length (ch_items ?ch) < ch_capacity ?ch")
    case True
    let ?s1 = "s\<lparr> hs_bus := (hs_bus s)\<lparr> bus_tx := ?ch\<lparr> ch_items := ch_items ?ch @ [envelope_of sc e] \<rparr> \<rparr> \<rparr>"
    have "http_send_events (\<lambda>_. 0) sc now es (k + 1) ?s1 = (s', resp)"
      using Cons.prems True
      by (simp add: Let_def bus_try_send_def try_send_def envelope_of_def)
    from Cons.IH [OF _ _ _ this] Cons.prems True show ?thesis
      by (simp add: Suc_diff_Suc less_diff_conv take_Cons' Suc_le_eq)
  next
    case False
    then show ?thesis using Cons.prems
      by (auto simp: Let_def bus_try_send_def try_send_def)
  qed
qed simp

text \<open>The state without the soft-cap counter, which only the HTTP handler advances.\<close>

definition forget_soft :: "http_state \<Rightarrow> http_state" where
  "forget_soft s = s\<lparr> hs_metrics := (hs_metrics s)\<lparr> oversized_soft_total := 0 \<rparr> \<rparr>"

definition soft_eq :: "http_state \<Rightarrow> http_state \<Rightarrow> bool" where
  "soft_eq s t \<longleftrightarrow> forget_soft s = forget_soft t"

lemma soft_eq_refl [simp]: "soft_eq s s"
  by (simp add: soft_eq_def)

lemma soft_eq_iff:
  "soft_eq s t \<longleftrightarrow> hs_auth s = hs_auth t \<and> hs_bus s = hs_bus t \<and> hs_hard_cap_bytes s = hs_hard_cap_bytes t
     \<and> hs_soft_cap_bytes s = hs_soft_cap_bytes t
     \<and> (hs_metrics s)\<lparr> oversized_soft_total := 0 \<rparr> = (hs_metrics t)\<lparr> oversized_soft_total := 0 \<rparr>"
  by (cases s; cases t) (auto simp: soft_eq_def forget_soft_def)

lemma shed_metrics_soft:
  "shed_metrics r sc src now m\<lparr> oversized_soft_total := x \<rparr> = shed_metrics r sc src now (m\<lparr> oversized_soft_total := x \<rparr>)"
  by (simp add: shed_metrics_def inc_source_error_eq inc_shed_def Let_def)

lemma inc_source_error_soft:
  "inc_source_error src r now m\<lparr> oversized_soft_total := x \<rparr> = inc_source_error src r now (m\<lparr> oversized_soft_total := x \<rparr>)"
  by (simp add: inc_source_error_eq)

lemma inc_shed_soft:
  "inc_shed r tk m\<lparr> oversized_soft_total := x \<rparr> = inc_shed r tk (m\<lparr> oversized_soft_total := x \<rparr>)"
  by (simp add: inc_shed_def Let_def split: option.split)

lemma rate_metrics_soft:
  "rate_metrics sc now es m\<lparr> oversized_soft_total := x \<rparr> = rate_metrics sc now es (m\<lparr> oversized_soft_total := x \<rparr>)"
proof -
  have "fold (\<lambda>e. inc_source_error (ie_source_id e) r now) es m'\<lparr> oversized_soft_total := x \<rparr>
      = fold (\<lambda>e. inc_source_error (ie_source_id e) r now) es (m'\<lparr> oversized_soft_total := x \<rparr>)" for r m'
    by (induction es arbitrary: m') (simp_all add: inc_source_error_soft)
  then show ?thesis by (simp add: rate_metrics_def inc_shed_soft)
qed

lemma soft_eq_shed:
  "soft_eq s t \<Longrightarrow> soft_eq (s\<lparr> hs_metrics := shed_metrics r sc src now (hs_metrics s) \<rparr>)
     (t\<lparr> hs_metrics := shed_metrics r sc src now (hs_metrics t) \<rparr>)"
  by (simp add: soft_eq_iff shed_metrics_soft)

lemma soft_eq_rate:
  "soft_eq s t \<Longrightarrow> soft_eq (s\<lparr> hs_metrics := rate_metrics sc now es (hs_metrics s) \<rparr>)
     (t\<lparr> hs_metrics := rate_metrics sc now es (hs_metrics t) \<rparr>)"
  by (simp add: soft_eq_iff rate_metrics_soft)

lemma soft_eq_inc: "soft_eq s t \<Longrightarrow> soft_eq (s\<lparr> hs_metrics := inc_oversized_soft (hs_metrics s) \<rparr>) t"
  by (simp add: soft_eq_iff inc_oversized_soft_def)

lemma soft_eq_bus: "soft_eq s t \<Longrightarrow> soft_eq (s\<lparr> hs_bus := b \<rparr>) (t\<lparr> hs_bus := b \<rparr>)"
  by (simp add: soft_eq_iff)

lemma checks_agree:
  assumes "soft_eq s t" "http_check_events gl sc now es s = (s', r)" "ws_check_events gl sc now es t = (t', r')"
  shows "soft_eq s' t' \<and> r = r'"
  using assms
proof (induction es arbitrary: s t)
  case (Cons e es)
  have cap: "hs_hard_cap_bytes s = hs_hard_cap_bytes t" using Cons.prems by (simp add: soft_eq_iff)
  have inc: "soft_eq (s\<lparr> hs_metrics := inc_oversized_soft (hs_metrics s) \<rparr>) t"
    using Cons.prems(1) by (rule soft_eq_inc)
  show ?case
    using Cons.prems(2,3) soft_eq_shed [OF Cons.prems(1)] Cons.IH [OF Cons.prems(1)] Cons.IH [OF inc]
    by (auto simp: cap sizes_agree Let_def split: if_splits)
qed simp

lemma sends_agree:
  assumes "soft_eq s t" "http_send_events drains sc now es k s = (s', resp)"
    "ws_send_events drains sc now es k t = (t', outs, n, ends)"
  shows "soft_eq s' t' \<and> outs = (if rs_shed_reason resp = Some ''bus_full'' then send_shed BusFull else [])
    \<and> (rs_shed_reason resp = None \<or> rs_shed_reason resp = Some ''bus_full'')
    \<and> (ends \<longleftrightarrow> rs_status resp = 503)"
  using assms
proof (induction es arbitrary: k s t)
  case Nil
  then show ?case by (auto simp: into_response_def)
next
  case (Cons e es)
  have same: "hs_bus s = hs_bus t" using Cons.prems by (simp add: soft_eq_iff)
  obtain b r where br: "bus_try_send (envelope_of sc e) (bus_recv (drains k) (hs_bus t)) = (b, r)"
    by (cases "bus_try_send (envelope_of sc e) (bus_recv (drains k) (hs_bus t))")
  have st: "soft_eq (s\<lparr> hs_bus := b \<rparr>) (t\<lparr> hs_bus := b \<rparr>)" using Cons.prems(1) by (rule soft_eq_bus)
  note hstep = Cons.prems(2) [unfolded http_send_events.simps Let_def, folded envelope_of_def, unfolded same br]
  note wstep = Cons.prems(3) [unfolded ws_send_events.simps Let_def, folded envelope_of_def, unfolded br]
  show ?case
  proof (cases r)
    case SendOk
    then show ?thesis using Cons.IH [OF st] hstep wstep by simp
  next
    case SendFull
    then show ?thesis using hstep wstep soft_eq_shed [OF st]
      by (auto simp: shed_response_def into_response_def Let_def envelope_of_def)
  next
    case SendClosed
    then show ?thesis using hstep wstep st by (auto simp: into_response_def)
  qed
qed

section \<open>Properties\<close>

text \<open>
  C7. Admission of \<open>POST /ingest\<close>: unless the token is known, the payload is a non-empty batch, every event
  of it is in the token's scope and within the hard cap, and the rate check passes, nothing is put on
  the channel and the status is not 200. Otherwise exactly a prefix of the batch is put on it, in order
  and under the token's name, and the status is 200 exactly when the prefix is the whole batch, with its
  size in the body. All this whatever the normalizer takes off the channel meanwhile.
\<close>

theorem http_ingest_admits_prefix:
  "case http_ingest hl gl drains now verdict headers bdy s of (s', resp) \<Rightarrow>
     (rs_status resp \<noteq> 200 \<and> hs_bus s' = hs_bus s)
     \<or> (\<exists>sc payload n. http_authenticate hl (hs_auth s) headers = Inr sc
          \<and> payload_from_slice hl bdy = Inr payload \<and> into_events payload \<noteq> []
          \<and> list_all (\<lambda>e. scope_allows gl sc (ie_source_id e) (ie_kind e)
               \<and> approx_semantic_size (ie_semantic e) \<le> hs_hard_cap_bytes s) (into_events payload)
          \<and> check_rate sc verdict = None
          \<and> n \<le> length (into_events payload)
          \<and> bus_log (hs_bus s') = bus_log (hs_bus s)
              @ map (\<lambda>e. \<lparr> env_event = e, env_token_name = Some (ts_name sc) \<rparr>) (take n (into_events payload))
          \<and> (if n = length (into_events payload)
             then rs_status resp = 200 \<and> rs_body resp = JsonBody (Object [(''accepted'', Number (PosInt n))])
             else rs_status resp \<noteq> 200))"
proof -
  obtain s' resp where run: "http_ingest hl gl drains now verdict headers bdy s = (s', resp)"
    by (cases "http_ingest hl gl drains now verdict headers bdy s")
  show ?thesis
  proof (cases "\<exists>sc payload s1. http_authenticate hl (hs_auth s) headers = Inr sc
      \<and> payload_from_slice hl bdy = Inr payload \<and> into_events payload \<noteq> []
      \<and> http_check_events gl sc now (into_events payload) s = (s1, None) \<and> check_rate sc verdict = None")
    case True
    then obtain sc payload s1 where ok: "http_authenticate hl (hs_auth s) headers = Inr sc"
      "payload_from_slice hl bdy = Inr payload" "into_events payload \<noteq> []"
      "http_check_events gl sc now (into_events payload) s = (s1, None)" "check_rate sc verdict = None"
      by blast
    have adm: "list_all (admissible gl sc s) (into_events payload)"
      using http_check_events_verdict [of gl sc now "into_events payload" s] ok(4)
      by (auto simp: find_None_iff list_all_iff split: option.split_asm)
    have send: "http_send_events drains sc now (into_events payload) 0 s1 = (s', resp)"
      using run ok by (simp add: http_ingest_def Let_def)
    obtain n where n: "n \<le> length (into_events payload)"
      "bus_log (hs_bus s') = bus_log (hs_bus s1) @ map (envelope_of sc) (take n (into_events payload))"
      "rs_status resp = 200 \<longleftrightarrow> n = length (into_events payload)"
      "rs_status resp = 200 \<longrightarrow> rs_body resp = JsonBody (Object [(''accepted'', Number (PosInt (0 + n)))])"
      by (rule http_send_events_prefix [OF send])
    have "hs_bus s1 = hs_bus s" using http_check_events_state [OF ok(4)] by simp
    then show ?thesis
      using run ok adm n unfolding admissible_def [abs_def] envelope_of_def [abs_def]
      by (intro case_prodI2 disjI2 exI [of _ sc] exI [of _ payload] exI [of _ n]) auto
  next
    case False
    then have "rs_status resp \<noteq> 200 \<and> hs_bus s' = hs_bus s"
      using run http_check_events_state
      by (auto simp: http_ingest_def http_authenticate_def shed_response_def into_response_def Let_def
          split: sum.split_asm option.split_asm prod.split_asm if_split_asm)
    then show ?thesis using run by simp
  qed
qed

text \<open>
  C32. A batch that meets a full channel is admitted in part: with every check passed and no receiver
  running, the events that fit stay on the channel although the response is a 429 shed that asks
  the producer to retry after a second.
\<close>

theorem http_ingest_partial_batch:
  assumes "http_authenticate hl (hs_auth s) headers = Inr sc" "payload_from_slice hl bdy = Inr payload"
    and "list_all (\<lambda>e. scope_allows gl sc (ie_source_id e) (ie_kind e)
           \<and> approx_semantic_size (ie_semantic e) \<le> hs_hard_cap_bytes s) (into_events payload)"
    and "check_rate sc verdict = None"
    and "\<not> ch_closed (bus_tx (hs_bus s))" "length (ch_items (bus_tx (hs_bus s))) \<le> ch_capacity (bus_tx (hs_bus s))"
    and "ch_capacity (bus_tx (hs_bus s)) - length (ch_items (bus_tx (hs_bus s))) < length (into_events payload)"
  shows "case http_ingest hl gl (\<lambda>_. 0) now verdict headers bdy s of (s', resp) \<Rightarrow>
     rs_status resp = 429 \<and> rs_shed_reason resp = Some ''bus_full'' \<and> rs_retry_after resp = Some ''1''
     \<and> ch_items (bus_tx (hs_bus s')) = ch_items (bus_tx (hs_bus s))
        @ map (\<lambda>e. \<lparr> env_event = e, env_token_name = Some (ts_name sc) \<rparr>)
            (take (ch_capacity (bus_tx (hs_bus s)) - length (ch_items (bus_tx (hs_bus s)))) (into_events payload))"
proof -
  obtain s1 r where chk: "http_check_events gl sc now (into_events payload) s = (s1, r)"
    by (cases "http_check_events gl sc now (into_events payload) s")
  have "r = None"
    using http_check_events_verdict [of gl sc now "into_events payload" s] assms(3) chk
    by (auto simp: admissible_def list_all_iff find_Some_iff split: option.split_asm)
  moreover have bus: "hs_bus s1 = hs_bus s" using http_check_events_state [OF chk] by simp
  moreover obtain s' resp where send: "http_send_events (\<lambda>_. 0) sc now (into_events payload) 0 s1 = (s', resp)"
    by (cases "http_send_events (\<lambda>_. 0) sc now (into_events payload) 0 s1")
  moreover have "into_events payload \<noteq> []" using assms(7) by auto
  ultimately have run: "http_ingest hl gl (\<lambda>_. 0) now verdict headers bdy s = (s', resp)"
    using assms chk by (simp add: http_ingest_def)
  have one: "show_nat 1 = ''1''" by code_simp
  from http_send_events_full [OF _ _ _ send] assms(5-7) run one show ?thesis
    by (simp add: bus shed_response_def into_response_def rust_defs envelope_of_def [abs_def] Let_def)
qed

definition demo_wire_event :: "string \<Rightarrow> i64 \<Rightarrow> ingest_event" where
  "demo_wire_event src t = \<lparr> ie_event_id = None, ie_source_id = src, ie_kind = ''k'', ie_ts_ms_utc = t,
     ie_semantic = Null, ie_links = None, ie_trace_id = None, ie_producer_id = None \<rparr>"

definition demo_http_lib :: http_lib where
  "demo_http_lib = \<lparr> payload_from_slice = (\<lambda>_. Inr (ArrayPayload [demo_wire_event ''a'' 1, demo_wire_event ''b'' 2])),
     header_to_str = Some \<rparr>"

definition demo_scope :: token_scope where
  "demo_scope = \<lparr> ts_name = ''dev'', ts_source_globs = [''*''], ts_kind_globs = [''k''], ts_limiter = None \<rparr>"

definition demo_http_state :: "usize \<Rightarrow> http_state" where
  "demo_http_state cap = \<lparr> hs_auth = auth_insert ''tok'' demo_scope auth_new, hs_metrics = metrics_new,
     hs_bus = \<lparr> bus_received = [], bus_tx = \<lparr> ch_items = [], ch_capacity = cap, ch_closed = False \<rparr> \<rparr>,
     hs_hard_cap_bytes = DEFAULT_HARD_CAP_BYTES, hs_soft_cap_bytes = DEFAULT_SOFT_CAP_BYTES \<rparr>"

lemma demo_authenticate:
  "http_authenticate demo_http_lib (hs_auth (demo_http_state cap)) [''authorization'' \<mapsto> ''Bearer tok''] = Inr demo_scope"
  by (simp add: http_authenticate_def demo_http_lib_def demo_http_state_def auth_lookup_def auth_insert_def)

theorem http_ingest_partial_batch_witness:
  "case http_ingest demo_http_lib demo_globs (\<lambda>_. 0) 0 None [''authorization'' \<mapsto> ''Bearer tok''] [] (demo_http_state 1) of
     (s', resp) \<Rightarrow> rs_status resp = 429 \<and> rs_retry_after resp = Some ''1''
       \<and> ch_items (bus_tx (hs_bus s')) = [\<lparr> env_event = demo_wire_event ''a'' 1, env_token_name = Some ''dev'' \<rparr>]"
  using http_ingest_partial_batch [OF demo_authenticate [of 1], of "[]"
      "ArrayPayload [demo_wire_event ''a'' 1, demo_wire_event ''b'' 2]" demo_globs None 0]
  by (simp add: demo_http_lib_def demo_http_state_def demo_scope_def demo_wire_event_def scope_allows_def
      glob_set_is_match_def check_rate_def DEFAULT_HARD_CAP_BYTES_def split: prod.splits)

text \<open>
  C31. The WebSocket front end treats a message as \<open>POST /ingest\<close> treats a body under the same token: the
  channel afterwards is the same, the metrics are the same up to the soft-cap counter (which the
  WebSocket does not advance), a shed frame is sent exactly when the response is a shed and
  with its reason, and the session ends exactly when the response is 503.
\<close>

theorem ws_matches_http:
  assumes "http_authenticate hl (hs_auth s) headers = Inr sc"
  shows "case (ws_payload hl gl sc t bs s, http_ingest hl gl (wt_drains t) (wt_now t) (wt_verdict t) headers bs s) of
     ((w, outs, ends), (h, resp)) \<Rightarrow>
       hs_bus w = hs_bus h
       \<and> (hs_metrics w)\<lparr> oversized_soft_total := 0 \<rparr> = (hs_metrics h)\<lparr> oversized_soft_total := 0 \<rparr>
       \<and> filter (\<lambda>f. case f of WsOutText (Object [(k, _)]) \<Rightarrow> k = ''shed_reason'' | _ \<Rightarrow> False) outs
         = (case rs_shed_reason resp of None \<Rightarrow> [] | Some r \<Rightarrow> [WsOutText (Object [(''shed_reason'', String r)])])
       \<and> (ends \<longleftrightarrow> rs_status resp = 503)"
proof (cases "\<exists>payload. payload_from_slice hl bs = Inr payload \<and> into_events payload \<noteq> []")
  case False
  then show ?thesis
    using assms by (auto simp: ws_payload_def http_ingest_def into_response_def send_error_def Let_def split: sum.split)
next
  case True
  then obtain payload where p: "payload_from_slice hl bs = Inr payload" "into_events payload \<noteq> []" by blast
  let ?es = "into_events payload"
  obtain h1 r where h1: "http_check_events gl sc (wt_now t) ?es s = (h1, r)"
    by (cases "http_check_events gl sc (wt_now t) ?es s")
  obtain w1 r' where w1: "ws_check_events gl sc (wt_now t) ?es s = (w1, r')"
    by (cases "ws_check_events gl sc (wt_now t) ?es s")
  have agree: "soft_eq h1 w1" "r' = r" using checks_agree [OF soft_eq_refl h1 w1] by simp_all
  obtain h2 resp where h2: "http_send_events (wt_drains t) sc (wt_now t) ?es 0 h1 = (h2, resp)"
    by (cases "http_send_events (wt_drains t) sc (wt_now t) ?es 0 h1")
  obtain w2 outs n ends where w2: "ws_send_events (wt_drains t) sc (wt_now t) ?es 0 w1 = (w2, outs, n, ends)"
    by (cases "ws_send_events (wt_drains t) sc (wt_now t) ?es 0 w1")
  note send = sends_agree [OF agree(1) h2 w2] and rate = soft_eq_rate [OF agree(1), of sc "wt_now t" ?es]
  show ?thesis
  proof (cases r)
    case (Some rr)
    then show ?thesis using assms p h1 w1 agree
      by (simp add: ws_payload_def http_ingest_def soft_eq_iff shed_response_def into_response_def send_shed_def Let_def)
  next
    case None
    show ?thesis
    proof (cases "check_rate sc (wt_verdict t)")
      case (Some d)
      then show ?thesis using assms p h1 w1 agree None rate
        by (simp add: ws_payload_def http_ingest_def soft_eq_iff shed_response_def into_response_def send_shed_def Let_def)
    next
      case none: None
      then show ?thesis using assms p h1 w1 agree None h2 w2 send
        by (auto simp: ws_payload_def http_ingest_def soft_eq_iff send_shed_def Let_def split: bool.split)
    qed
  qed
qed

theorem ws_matches_http_witness:
  "case (ws_payload demo_http_lib demo_globs demo_scope
      \<lparr> wt_message = Some (WsText []), wt_now = 0, wt_verdict = None, wt_drains = (\<lambda>_. 1) \<rparr> [] (demo_http_state 1),
     http_ingest demo_http_lib demo_globs (\<lambda>_. 1) 0 None [''authorization'' \<mapsto> ''Bearer tok''] [] (demo_http_state 1)) of
     ((w, outs, ends), (h, resp)) \<Rightarrow> hs_bus w = hs_bus h \<and> (ends \<longleftrightarrow> rs_status resp = 503)"
  using ws_matches_http [OF demo_authenticate [of 1], of demo_globs
      "\<lparr> wt_message = Some (WsText []), wt_now = 0, wt_verdict = None, wt_drains = (\<lambda>_. 1) \<rparr>" "[]"]
  by (auto split: prod.splits)

end
