(* ===== verification/Mqtt.thy ===== *)
theory Mqtt
  imports Normalizer
begin

text \<open>
  The MQTT front end, \<open>crates/ingest/src/mqtt\<close>: topic filters and source-id templates (\<open>topic.rs\<close>),
  payload decoders (\<open>decode.rs\<close>), routing (\<open>router.rs\<close>) and the subscriber's handling of a publish
  (\<open>subscriber.rs\<close>). The JSON parser, the base64 encoder and the JSONPath engine are parameters
  (record \<open>mqtt_lib\<close>; a compiled path is its text); the \<open>rumqttc\<close> event loop is the list of its poll results.
\<close>

section \<open>Topics\<close>

datatype topic_segment = Literal string | SinglePlus | Hash

type_synonym topic_matcher = "topic_segment list"

definition topic_matcher_new :: "string \<Rightarrow> topic_matcher" where
  "topic_matcher_new flt = map (\<lambda>part. if part = ''+'' then SinglePlus else if part = ''#'' then Hash else Literal part)
     (split_on CHR ''/'' flt)"

record topic_captures =
  tc_pluses :: "string list"
  tc_hash :: "string option"

text \<open>The loop of \<open>captures\<close> over the segments, with its index and the captures so far.\<close>

fun captures_loop :: "string list \<Rightarrow> topic_segment list \<Rightarrow> usize \<Rightarrow> string list \<Rightarrow> topic_captures option" where
  "captures_loop parts [] idx pluses =
     (if idx \<noteq> length parts then None else Some \<lparr> tc_pluses = pluses, tc_hash = None \<rparr>)"
| "captures_loop parts (Hash # segs) idx pluses =
     Some \<lparr> tc_pluses = pluses, tc_hash = Some (join_with ''/'' (drop idx parts)) \<rparr>"
| "captures_loop parts (SinglePlus # segs) idx pluses =
     (if idx \<ge> length parts then None else captures_loop parts segs (idx + 1) (pluses @ [parts ! idx]))"
| "captures_loop parts (Literal s # segs) idx pluses =
     (if idx \<ge> length parts \<or> parts ! idx \<noteq> s then None else captures_loop parts segs (idx + 1) pluses)"

definition captures :: "topic_matcher \<Rightarrow> string \<Rightarrow> topic_captures option" where
  "captures m topic = captures_loop (split_on CHR ''/'' topic) m 0 []"

datatype template_error = UnknownPlaceholder string | OutOfRange usize usize | NoHash

definition usize_max :: usize where
  "usize_max = 2 ^ 64 - 1"

text \<open>The value of one placeholder body.\<close>

definition render_placeholder :: "string \<Rightarrow> topic_captures \<Rightarrow> template_error + string" where
  "render_placeholder body caps =
     (if body = ''#'' then (case tc_hash caps of Some s \<Rightarrow> Inr s | None \<Rightarrow> Inl NoHash)
      else (case strip_prefix ''+'' body of
          None \<Rightarrow> Inl (UnknownPlaceholder body)
        | Some idx_str \<Rightarrow> (case parse_uint usize_max idx_str of
            None \<Rightarrow> Inl (UnknownPlaceholder body)
          | Some n \<Rightarrow>
              if n = 0 \<or> n > length (tc_pluses caps) then Inl (OutOfRange n (length (tc_pluses caps)))
              else Inr (tc_pluses caps ! (n - 1)))))"

text \<open>
  \<open>render\<close>: a body that has a value is ASCII, so the \<open>end_rel + 1\<close> characters skipped after it are the
  bytes up to and including the closing brace.
\<close>

function render :: "string \<Rightarrow> topic_captures \<Rightarrow> template_error + string" where
  "render [] caps = Inr []"
| "render (c # rest) caps =
     (if c \<noteq> CHR ''{''
      then (case render rest caps of Inl e \<Rightarrow> Inl e | Inr out \<Rightarrow> Inr (c # out))
      else (case split_once CHR ''}'' rest of
          None \<Rightarrow> Inl (UnknownPlaceholder rest)
        | Some (body, after) \<Rightarrow> (case render_placeholder body caps of
            Inl e \<Rightarrow> Inl e
          | Inr v \<Rightarrow> (case render after caps of Inl e \<Rightarrow> Inl e | Inr out \<Rightarrow> Inr (v @ out)))))"
  by pat_completeness auto
termination
  by (relation "measure (\<lambda>(s, _). length s)") (auto simp: split_once_Some)

declare render.simps(2) [simp del]

section \<open>Payloads\<close>

datatype payload_format = FmtJson | FmtRaw | FmtHex | FmtCsv

definition payload_format_parse :: "string \<Rightarrow> payload_format option" where
  "payload_format_parse s =
     (if s = ''json'' then Some FmtJson else if s = ''raw'' then Some FmtRaw
      else if s = ''hex'' then Some FmtHex else if s = ''csv'' then Some FmtCsv else None)"

fun payload_format_as_str :: "payload_format \<Rightarrow> string" where
  "payload_format_as_str FmtJson = ''json''"
| "payload_format_as_str FmtRaw = ''raw''"
| "payload_format_as_str FmtHex = ''hex''"
| "payload_format_as_str FmtCsv = ''csv''"

record mqtt_lib =
  ml_json_from_slice :: "bytes \<Rightarrow> string + json"
  ml_base64 :: "bytes \<Rightarrow> string" \<comment> \<open>\<open>STANDARD_NO_PAD.encode\<close>\<close>
  ml_path_error :: "string \<Rightarrow> string option" \<comment> \<open>\<open>JsonPath::try_from\<close>: the error, if any\<close>
  ml_find_slice :: "string \<Rightarrow> json \<Rightarrow> json option list" \<comment> \<open>\<open>None\<close> is \<open>NoValue\<close>\<close>

datatype decode_error = DecodeJson string | DecodeUtf8

text \<open>\<open>str::from_utf8\<close>: well-formed UTF-8, shortest forms only, no surrogates, up to U+10FFFF.\<close>

definition in_range :: "nat \<Rightarrow> nat \<Rightarrow> char \<Rightarrow> bool" where
  "in_range lo hi c \<longleftrightarrow> lo \<le> (of_char c :: nat) \<and> (of_char c :: nat) \<le> hi"

definition cont :: "char \<Rightarrow> bool" where
  "cont = in_range 128 191"

fun valid_utf8 :: "bytes \<Rightarrow> bool" where
  "valid_utf8 [] = True"
| "valid_utf8 (a # s) =
     (if in_range 0 127 a then valid_utf8 s
      else if in_range 194 223 a then (case s of b # t \<Rightarrow> cont b \<and> valid_utf8 t | _ \<Rightarrow> False)
      else if in_range 224 239 a then (case s of b # c # t \<Rightarrow>
          in_range (if in_range 224 224 a then 160 else 128) (if in_range 237 237 a then 159 else 191) b
          \<and> cont c \<and> valid_utf8 t | _ \<Rightarrow> False)
      else if in_range 240 244 a then (case s of b # c # d # t \<Rightarrow>
          in_range (if in_range 240 240 a then 144 else 128) (if in_range 244 244 a then 143 else 191) b
          \<and> cont c \<and> cont d \<and> valid_utf8 t | _ \<Rightarrow> False)
      else False)"

definition hex_digit :: "nat \<Rightarrow> char" where
  "hex_digit n = char_of (if n < 10 then 48 + n else 87 + n)"

definition hex_encode :: "bytes \<Rightarrow> string" where
  "hex_encode bs = concat (map (\<lambda>b. let n = (of_char b :: nat) in [hex_digit (n div 16), hex_digit (n mod 16)]) bs)"

text \<open>\<open>text.lines().next().unwrap_or("")\<close>: up to the first newline, less one carriage return before it.\<close>

definition first_line :: "string \<Rightarrow> string" where
  "first_line s = (case split_once (char_of (10 :: nat)) s of
     None \<Rightarrow> s
   | Some (l, _) \<Rightarrow> if l \<noteq> [] \<and> last l = char_of (13 :: nat) then butlast l else l)"

fun parse_csv_loop :: "string \<Rightarrow> string list \<Rightarrow> string \<Rightarrow> bool \<Rightarrow> string list" where
  "parse_csv_loop [] out cur in_quotes = out @ [cur]"
| "parse_csv_loop (c # cs) out cur in_quotes =
     (if c = CHR 0x22 \<and> \<not> in_quotes \<and> cur = [] then parse_csv_loop cs out cur True
      else if c = CHR 0x22 \<and> in_quotes then
        (case cs of
           d # ds \<Rightarrow> if d = CHR 0x22 then parse_csv_loop ds out (cur @ [CHR 0x22]) in_quotes
                    else parse_csv_loop cs out cur False
         | [] \<Rightarrow> parse_csv_loop cs out cur False)
      else if c = CHR '','' \<and> \<not> in_quotes then parse_csv_loop cs (out @ [cur]) [] in_quotes
      else parse_csv_loop cs out (cur @ [c]) in_quotes)"

definition parse_csv_row :: "string \<Rightarrow> string list" where
  "parse_csv_row s = parse_csv_loop s [] [] False"

fun decode_payload :: "mqtt_lib \<Rightarrow> payload_format \<Rightarrow> bytes \<Rightarrow> decode_error + json" where
  "decode_payload ml FmtJson bs = (case ml_json_from_slice ml bs of Inl e \<Rightarrow> Inl (DecodeJson e) | Inr v \<Rightarrow> Inr v)"
| "decode_payload ml FmtRaw bs = Inr (Object [(''bytes_base64'', String (ml_base64 ml bs)), (''encoding'', String ''raw'')])"
| "decode_payload ml FmtHex bs = Inr (Object [(''encoding'', String ''hex''), (''hex'', String (hex_encode bs))])"
| "decode_payload ml FmtCsv bs =
     (if \<not> valid_utf8 bs then Inl DecodeUtf8
      else Inr (Object [(''encoding'', String ''csv''),
                        (''fields'', Array (map String (parse_csv_row (first_line bs))))]))"

section \<open>Routing\<close>

record subscription =
  sb_topic_filter :: string
  sb_source_id_template :: string
  sb_kind :: "string option"
  sb_kind_field :: "string option"
  sb_payload :: payload_format

record compiled_subscription =
  cs_topic_filter :: string
  cs_source_id_template :: string
  cs_kind :: "string option"
  cs_kind_field :: "string option"
  cs_payload :: payload_format
  cs_matcher :: topic_matcher

datatype compile_error = BadJsonPath string string

definition compile_subscription :: "mqtt_lib \<Rightarrow> subscription \<Rightarrow> compile_error + compiled_subscription" where
  "compile_subscription ml sub =
     (let matcher = topic_matcher_new (sb_topic_filter sub)
      in case (case sb_kind_field sub of
                 None \<Rightarrow> Inr None
               | Some p \<Rightarrow> (case ml_path_error ml p of Some e \<Rightarrow> Inl (BadJsonPath p e) | None \<Rightarrow> Inr (Some p))) of
           Inl e \<Rightarrow> Inl e
         | Inr kf \<Rightarrow> Inr \<lparr> cs_topic_filter = sb_topic_filter sub, cs_source_id_template = sb_source_id_template sub,
             cs_kind = sb_kind sub, cs_kind_field = kf, cs_payload = sb_payload sub, cs_matcher = matcher \<rparr>)"

datatype route_error = NoMatch string | RouteTemplate template_error | RouteDecode decode_error | UnresolvedKind string

fun first_str :: "json option list \<Rightarrow> string option" where
  "first_str [] = None"
| "first_str (Some (String s) # ns) = Some s"
| "first_str (_ # ns) = first_str ns"

definition resolve_kind :: "mqtt_lib \<Rightarrow> compiled_subscription \<Rightarrow> json \<Rightarrow> route_error + string" where
  "resolve_kind ml sub sem = (case cs_kind sub of
     Some k \<Rightarrow> Inr k
   | None \<Rightarrow> (case cs_kind_field sub of
       Some path \<Rightarrow> (case first_str (ml_find_slice ml path sem) of
           Some s \<Rightarrow> Inr s | None \<Rightarrow> Inl (UnresolvedKind path))
     | None \<Rightarrow> Inl (UnresolvedKind [])))"

fun route :: "mqtt_lib \<Rightarrow> compiled_subscription list \<Rightarrow> string \<Rightarrow> bytes \<Rightarrow> i64 \<Rightarrow> string option
    \<Rightarrow> route_error + ingest_event" where
  "route ml [] topic payload ts pid = Inl (NoMatch topic)"
| "route ml (sub # subs) topic payload ts pid = (case captures (cs_matcher sub) topic of
     None \<Rightarrow> route ml subs topic payload ts pid
   | Some caps \<Rightarrow> (case render (cs_source_id_template sub) caps of
       Inl e \<Rightarrow> Inl (RouteTemplate e)
     | Inr sid \<Rightarrow> (case decode_payload ml (cs_payload sub) payload of
         Inl e \<Rightarrow> Inl (RouteDecode e)
       | Inr sem \<Rightarrow> (case resolve_kind ml sub sem of
           Inl e \<Rightarrow> Inl e
         | Inr k \<Rightarrow> Inr \<lparr> ie_event_id = None, ie_source_id = sid, ie_kind = k, ie_ts_ms_utc = ts,
             ie_semantic = sem, ie_links = None, ie_trace_id = None, ie_producer_id = pid \<rparr>))))"

section \<open>Subscriber\<close>

record mqtt_metrics =
  mm_messages_received :: u64
  mm_messages_unmatched :: u64
  mm_messages_decode_failed :: u64
  mm_reconnects :: u64

record mqtt_state =
  mq_tx :: "ingest_envelope channel"
  mq_metrics :: mqtt_metrics
  mq_ingest_metrics :: metrics

definition handle_publish :: "mqtt_lib \<Rightarrow> compiled_subscription list \<Rightarrow> string \<Rightarrow> i64 \<Rightarrow> string \<Rightarrow> bytes
    \<Rightarrow> mqtt_state \<Rightarrow> mqtt_state" where
  "handle_publish ml subs broker_id now topic payload st =
     (case route ml subs topic payload now (Some broker_id) of
        Inr event \<Rightarrow>
          (case try_send \<lparr> env_event = event, env_token_name = Some (''mqtt:'' @ broker_id) \<rparr> (mq_tx st) of
             (tx, SendOk) \<Rightarrow> st\<lparr> mq_tx := tx \<rparr>
           | (tx, SendFull) \<Rightarrow> st\<lparr> mq_tx := tx,
               mq_ingest_metrics := inc_consumer_drop ''mqtt_subscriber'' (mq_ingest_metrics st) \<rparr>
           | (tx, SendClosed) \<Rightarrow> st\<lparr> mq_tx := tx \<rparr>)
      | Inl (NoMatch _) \<Rightarrow>
          st\<lparr> mq_metrics := (mq_metrics st)\<lparr> mm_messages_unmatched := mm_messages_unmatched (mq_metrics st) + 1 \<rparr> \<rparr>
      | Inl _ \<Rightarrow>
          st\<lparr> mq_metrics := (mq_metrics st)\<lparr> mm_messages_decode_failed := mm_messages_decode_failed (mq_metrics st) + 1 \<rparr> \<rparr>)"

text \<open>
  What \<open>eventloop.poll\<close> returns; before each poll the normalizer takes some envelopes off the channel
  or drops it (\<open>bus_step\<close>).
\<close>

datatype poll_result = Publish string bytes | OtherPacket | PollError

record mqtt_turn =
  mt_drained :: nat
  mt_closes :: bool
  mt_now :: i64
  mt_poll :: poll_result

definition mqtt_bus_step :: "mqtt_turn \<Rightarrow> mqtt_state \<Rightarrow> mqtt_state" where
  "mqtt_bus_step t st = st\<lparr> mq_tx := (mq_tx st)\<lparr> ch_items := drop (mt_drained t) (ch_items (mq_tx st)),
     ch_closed := ch_closed (mq_tx st) \<or> mt_closes t \<rparr> \<rparr>"

definition mqtt_poll_step :: "mqtt_lib \<Rightarrow> compiled_subscription list \<Rightarrow> string \<Rightarrow> mqtt_turn \<Rightarrow> mqtt_state \<Rightarrow> mqtt_state" where
  "mqtt_poll_step ml subs broker_id t st = (case mt_poll t of
     Publish topic payload \<Rightarrow>
       handle_publish ml subs broker_id (mt_now t) topic payload
         (st\<lparr> mq_metrics := (mq_metrics st)\<lparr> mm_messages_received := mm_messages_received (mq_metrics st) + 1 \<rparr> \<rparr>)
   | OtherPacket \<Rightarrow> st
   | PollError \<Rightarrow> st\<lparr> mq_metrics := (mq_metrics st)\<lparr> mm_reconnects := mm_reconnects (mq_metrics st) + 1 \<rparr> \<rparr>)"

fun drive_event_loop :: "mqtt_lib \<Rightarrow> compiled_subscription list \<Rightarrow> string \<Rightarrow> mqtt_turn list \<Rightarrow> mqtt_state \<Rightarrow> mqtt_state" where
  "drive_event_loop ml subs broker_id [] st = st"
| "drive_event_loop ml subs broker_id (t # ts) st =
     drive_event_loop ml subs broker_id ts (mqtt_poll_step ml subs broker_id t (mqtt_bus_step t st))"

section \<open>Facts\<close>

text \<open>The loop of \<open>captures\<close> as a relation between the segments, the levels of a topic and the captures.\<close>

inductive topic_fits :: "topic_segment list \<Rightarrow> string list \<Rightarrow> topic_captures \<Rightarrow> bool" where
  fits_Nil: "topic_fits [] [] \<lparr> tc_pluses = [], tc_hash = None \<rparr>"
| fits_Hash: "topic_fits (Hash # segs) parts \<lparr> tc_pluses = [], tc_hash = Some (join_with ''/'' parts) \<rparr>"
| fits_Plus: "topic_fits segs parts c
    \<Longrightarrow> topic_fits (SinglePlus # segs) (p # parts) (c\<lparr> tc_pluses := p # tc_pluses c \<rparr>)"
| fits_Literal: "topic_fits segs parts c \<Longrightarrow> topic_fits (Literal s # segs) (s # parts) c"

inductive_simps fits_simps:
  "topic_fits [] parts c" "topic_fits (Hash # segs) parts c"
  "topic_fits (SinglePlus # segs) parts c" "topic_fits (Literal s # segs) parts c"

lemma captures_loop_fits:
  assumes "idx \<le> length parts"
  shows "captures_loop parts segs idx pluses = Some c
    \<longleftrightarrow> (\<exists>c'. topic_fits segs (drop idx parts) c' \<and> c = c'\<lparr> tc_pluses := pluses @ tc_pluses c' \<rparr>)"
  using assms
proof (induction parts segs idx pluses rule: captures_loop.induct)
  case (1 parts idx pluses)
  then show ?case by (auto simp: fits_simps)
next
  case (2 parts segs idx pluses)
  then show ?case by (auto simp: fits_simps)
next
  case (3 parts segs idx pluses)
  show ?case
  proof (cases "idx < length parts")
    case True
    then have "drop idx parts = parts ! idx # drop (idx + 1) parts" by (simp add: Cons_nth_drop_Suc)
    with True 3 show ?thesis by (fastforce simp: fits_simps)
  next
    case False
    then show ?thesis by (simp add: fits_simps)
  qed
next
  case (4 parts s segs idx pluses)
  show ?case
  proof (cases "idx < length parts")
    case True
    then have "drop idx parts = parts ! idx # drop (idx + 1) parts" by (simp add: Cons_nth_drop_Suc)
    with True 4 show ?thesis by (auto simp: fits_simps)
  next
    case False
    then show ?thesis by (simp add: fits_simps)
  qed
qed

lemma captures_iff_fits: "captures m topic = Some c \<longleftrightarrow> topic_fits m (split_on CHR ''/'' topic) c"
  unfolding captures_def by (subst captures_loop_fits) auto

section \<open>MQTT's matching rule\<close>

text \<open>
  The rule of the MQTT specification (version 3.1.1, section 4.7), on filters and topics as text. A filter is
  valid when it is not empty, a wildcard fills its level and \<open>#\<close> is the last level. The levels before a
  final \<open>#\<close> have to fit one by one, \<open>+\<close> with any level, and without a final \<open>#\<close> there is no further one.
  A filter that begins with a wildcard does not match a topic that begins with a dollar sign.
\<close>

definition levels :: "string \<Rightarrow> string list" where
  "levels s = split_on CHR ''/'' s"

definition mqtt_filter_valid :: "string \<Rightarrow> bool" where
  "mqtt_filter_valid flt \<longleftrightarrow> flt \<noteq> []
     \<and> list_all (\<lambda>l. (CHR ''+'' \<in> set l) = (l = ''+'') \<and> (CHR ''#'' \<in> set l) = (l = ''#'')) (levels flt)
     \<and> ''#'' \<notin> set (butlast (levels flt))"

definition multi_level :: "string list \<Rightarrow> bool" where
  "multi_level fs \<longleftrightarrow> fs \<noteq> [] \<and> last fs = ''#''"

definition fixed_levels :: "string list \<Rightarrow> string list" where
  "fixed_levels fs = (if multi_level fs then butlast fs else fs)"

definition levels_fit :: "string list \<Rightarrow> string list \<Rightarrow> bool" where
  "levels_fit fs ts \<longleftrightarrow> list_all2 (\<lambda>f t. f = ''+'' \<or> f = t) (fixed_levels fs) (take (length (fixed_levels fs)) ts)
     \<and> (multi_level fs \<or> length ts = length (fixed_levels fs))"

definition level_captures :: "string list \<Rightarrow> string list \<Rightarrow> topic_captures" where
  "level_captures fs ts = \<lparr> tc_pluses = map snd (filter (\<lambda>(f, t). f = ''+'') (zip (fixed_levels fs) ts)),
     tc_hash = (if multi_level fs then Some (join_with ''/'' (drop (length (fixed_levels fs)) ts)) else None) \<rparr>"

definition reserved_from :: "string \<Rightarrow> string \<Rightarrow> bool" where
  "reserved_from flt topic \<longleftrightarrow> take 1 topic = ''$'' \<and> hd (levels flt) \<in> {''+'', ''#''}"

definition mqtt_matches :: "string \<Rightarrow> string \<Rightarrow> bool" where
  "mqtt_matches flt topic \<longleftrightarrow> levels_fit (levels flt) (levels topic) \<and> \<not> reserved_from flt topic"

lemma fixed_levels_Cons:
  "f \<noteq> ''#'' \<Longrightarrow> multi_level (f # fs) = multi_level fs"
  "f \<noteq> ''#'' \<Longrightarrow> fixed_levels (f # fs) = f # fixed_levels fs"
  by (auto simp: multi_level_def fixed_levels_def)

lemma levels_fit_Cons:
  "f \<noteq> ''#'' \<Longrightarrow> levels_fit (f # fs) ts \<longleftrightarrow> (case ts of [] \<Rightarrow> False | t # ts' \<Rightarrow> (f = ''+'' \<or> f = t) \<and> levels_fit fs ts')"
  by (auto simp: levels_fit_def fixed_levels_Cons split: list.split)

lemma topic_fits_levels:
  assumes "''#'' \<notin> set (butlast fs)"
  shows "topic_fits (map (\<lambda>part. if part = ''+'' then SinglePlus else if part = ''#'' then Hash else Literal part) fs) ts c
    \<longleftrightarrow> levels_fit fs ts \<and> c = level_captures fs ts"
  using assms
proof (induction fs arbitrary: ts c)
  case Nil
  then show ?case
    by (auto simp: fits_simps levels_fit_def level_captures_def fixed_levels_def multi_level_def)
next
  case (Cons f fs)
  show ?case
  proof (cases "f = ''#''")
    case True
    then have "fs = []" using Cons.prems by (auto split: if_splits)
    with True show ?thesis
      by (auto simp: fits_simps levels_fit_def level_captures_def fixed_levels_def multi_level_def)
  next
    case False
    have "''#'' \<notin> set (butlast fs)" using Cons.prems by (auto split: if_splits)
    note IH = Cons.IH [OF this]
    have caps: "level_captures (f # fs) (t # ts') = (if f = ''+''
        then (level_captures fs ts')\<lparr> tc_pluses := t # tc_pluses (level_captures fs ts') \<rparr> else level_captures fs ts')" for t ts'
      using False by (simp add: level_captures_def fixed_levels_Cons)
    show ?thesis
      using False by (cases ts) (auto simp: levels_fit_Cons fits_simps IH caps)
  qed
qed

text \<open>Rendering, piece by piece.\<close>

lemma render_literal:
  "CHR ''{'' \<notin> set s \<Longrightarrow> render (s @ t) caps = (case render t caps of Inl e \<Rightarrow> Inl e | Inr out \<Rightarrow> Inr (s @ out))"
  by (induction s) (auto simp: render.simps(2) split: sum.split)

lemma render_braces:
  "CHR ''}'' \<notin> set body \<Longrightarrow> render (CHR ''{'' # body @ CHR ''}'' # t) caps =
     (case render_placeholder body caps of
        Inl e \<Rightarrow> Inl e
      | Inr v \<Rightarrow> (case render t caps of Inl e \<Rightarrow> Inl e | Inr out \<Rightarrow> Inr (v @ out)))"
proof -
  assume "CHR ''}'' \<notin> set body"
  then have "split_once CHR ''}'' (body @ CHR ''}'' # t) = Some (body, t)" by (simp add: split_once_Some)
  then show ?thesis by (simp add: render.simps(2) split: sum.split)
qed

lemma digits_plain: "c \<in> set (show_nat n) \<Longrightarrow> c \<noteq> CHR ''}''"
  using show_nat_digits [of n] by (auto simp: list_all_iff is_ascii_digit_def)

lemma render_plus:
  assumes "0 < n" "n \<le> length (tc_pluses caps)" "n \<le> usize_max"
  shows "render (CHR ''{'' # CHR ''+'' # show_nat n @ CHR ''}'' # t) caps =
    (case render t caps of Inl e \<Rightarrow> Inl e | Inr out \<Rightarrow> Inr (tc_pluses caps ! (n - 1) @ out))"
proof -
  have "CHR ''}'' \<notin> set (''+'' @ show_nat n)" using digits_plain by auto
  from render_braces [OF this, of t caps] show ?thesis
    using assms by (simp add: render_placeholder_def parse_uint_show_nat split: sum.split)
qed

lemma render_hash:
  "tc_hash caps = Some v \<Longrightarrow> render (CHR ''{'' # CHR ''#'' # CHR ''}'' # t) caps = (case render t caps of Inl e \<Rightarrow> Inl e | Inr out \<Rightarrow> Inr (v @ out))"
  using render_braces [of "''#''" t caps] by (simp add: render_placeholder_def)

lemma join_Cons: "join_with sep (x # xs) = x @ (if xs = [] then [] else sep @ join_with sep xs)"
  by (cases xs) simp_all

lemma set_join_with: "x \<in> set xs \<Longrightarrow> set x \<subseteq> set (join_with sep xs)"
  by (induction xs) (auto simp: join_Cons)

text \<open>The template that spells a filter: each wildcard as the placeholder of its capture.\<close>

fun filter_template :: "nat \<Rightarrow> topic_segment list \<Rightarrow> string list" where
  "filter_template n [] = []"
| "filter_template n (Literal s # segs) = s # filter_template n segs"
| "filter_template n (SinglePlus # segs) = (''{+'' @ show_nat n @ ''}'') # filter_template (n + 1) segs"
| "filter_template n (Hash # segs) = [''{#}'']"

lemma filter_template_Nil: "filter_template n segs = [] \<longleftrightarrow> segs = []"
  by (cases segs; cases "hd segs") auto

lemma render_slash: "render (CHR ''/'' # t) caps = (case render t caps of Inl e \<Rightarrow> Inl e | Inr out \<Rightarrow> Inr (CHR ''/'' # out))"
  by (simp add: render.simps(2))

lemma render_filter_template:
  assumes "topic_fits segs parts c" "\<forall>s. Literal s \<in> set segs \<longrightarrow> CHR ''{'' \<notin> set s" "tc_hash c \<noteq> Some []"
    and "tc_pluses caps = ps @ tc_pluses c" "tc_hash caps = tc_hash c" "length (tc_pluses caps) \<le> usize_max"
  shows "render (join_with ''/'' (filter_template (Suc (length ps)) segs)) caps = Inr (join_with ''/'' parts)
    \<and> (segs = [] \<longleftrightarrow> parts = [])"
  using assms
proof (induction arbitrary: ps rule: topic_fits.induct)
  case fits_Nil
  then show ?case by simp
next
  case (fits_Hash segs parts)
  then show ?case using render_hash [of caps "join_with ''/'' parts" "[]"] by auto
next
  case (fits_Plus segs parts c p)
  have rest: "render (join_with ''/'' (filter_template (Suc (Suc (length ps))) segs)) caps = Inr (join_with ''/'' parts)
      \<and> (segs = [] \<longleftrightarrow> parts = [])"
    using fits_Plus.IH [of "ps @ [p]"] fits_Plus.prems by simp
  have one: "render (CHR ''{'' # CHR ''+'' # show_nat (Suc (length ps)) @ CHR ''}'' # t) caps
      = (case render t caps of Inl e \<Rightarrow> Inl e | Inr out \<Rightarrow> Inr (p @ out))" for t
    using render_plus [of "Suc (length ps)" caps t] fits_Plus.prems by (simp add: nth_append split: sum.split)
  from one [of "[]"] one rest show ?case by (simp add: join_Cons filter_template_Nil render_slash)
next
  case (fits_Literal segs parts c s)
  have rest: "render (join_with ''/'' (filter_template (Suc (length ps)) segs)) caps = Inr (join_with ''/'' parts)
      \<and> (segs = [] \<longleftrightarrow> parts = [])"
    using fits_Literal.IH [of ps] fits_Literal.prems by simp
  have one: "render (s @ t) caps = (case render t caps of Inl e \<Rightarrow> Inl e | Inr out \<Rightarrow> Inr (s @ out))" for t
    using fits_Literal.prems by (intro render_literal) simp
  from one [of "[]"] one rest show ?case by (simp add: join_Cons filter_template_Nil render_slash)
qed

text \<open>The quoted form of a CSV field, and a row of them.\<close>

definition csv_escape :: "string \<Rightarrow> string" where
  "csv_escape f = concat (map (\<lambda>c. if c = CHR 0x22 then [c, c] else [c]) f)"

definition csv_quote :: "string \<Rightarrow> string" where
  "csv_quote f = CHR 0x22 # csv_escape f @ [CHR 0x22]"

lemma parse_csv_escaped:
  assumes "rest = [] \<or> hd rest \<noteq> CHR 0x22"
  shows "parse_csv_loop (csv_escape f @ CHR 0x22 # rest) out cur True = parse_csv_loop rest out (cur @ f) False"
  using assms
proof (induction f arbitrary: cur)
  case Nil
  then show ?case by (cases rest) (simp_all add: csv_escape_def)
next
  case (Cons c f)
  show ?case
    using Cons.IH [of "cur @ [c]"] Cons.prems by (auto simp: csv_escape_def)
qed

lemma parse_csv_row_loop:
  assumes "fs \<noteq> []"
  shows "parse_csv_loop (join_with '','' (map csv_quote fs)) out [] False = out @ fs"
  using assms
proof (induction fs arbitrary: out)
  case (Cons f fs)
  then show ?case
    using parse_csv_escaped [of "if fs = [] then [] else '','' @ join_with '','' (map csv_quote fs)" f out "[]"]
    by (cases "fs = []") (simp_all add: join_Cons csv_quote_def [of f])
qed simp

text \<open>What becomes of a publish.\<close>

fun unmatched_result :: "route_error + ingest_event \<Rightarrow> bool" where
  "unmatched_result (Inl (NoMatch _)) = True"
| "unmatched_result _ = False"

fun failed_result :: "route_error + ingest_event \<Rightarrow> bool" where
  "failed_result (Inl (NoMatch _)) = False"
| "failed_result (Inl _) = True"
| "failed_result (Inr _) = False"

lemma handle_publish_metrics:
  "mq_metrics (handle_publish ml subs b now topic payload st) =
     (let r = route ml subs topic payload now (Some b); m = mq_metrics st in
      m\<lparr> mm_messages_unmatched := mm_messages_unmatched m + (if unmatched_result r then 1 else 0),
         mm_messages_decode_failed := mm_messages_decode_failed m + (if failed_result r then 1 else 0) \<rparr>)"
  by (auto simp: handle_publish_def Let_def split: sum.split route_error.split prod.split send_result.split)

lemma route_unmatched:
  "unmatched_result (route ml subs topic payload ts pid) \<longleftrightarrow> list_all (\<lambda>sub. captures (cs_matcher sub) topic = None) subs"
proof (induction subs)
  case (Cons sub subs)
  then show ?case
    by (auto simp: resolve_kind_def split: option.split sum.split)
qed simp

section \<open>Properties\<close>

text \<open>
  C37. Topic matching against MQTT's rule: for a filter that is valid by the specification, \<open>captures\<close> accepts every
  topic the rule matches (levels by equality, \<open>+\<close> for any one level, a final \<open>#\<close> for the rest, possibly
  empty), and beyond these exactly the topics that begin with a dollar sign and fit a filter beginning with a
  wildcard, which the rule excludes; it then returns the levels under the \<open>+\<close> wildcards in order and the tail
  under \<open>#\<close>, and nothing otherwise.
\<close>

theorem captures_exact:
  assumes "mqtt_filter_valid flt"
  shows "captures (topic_matcher_new flt) topic =
    (if mqtt_matches flt topic \<or> reserved_from flt topic \<and> levels_fit (levels flt) (levels topic)
     then Some (level_captures (levels flt) (levels topic)) else None)"
proof -
  have "''#'' \<notin> set (butlast (levels flt))" using assms by (simp add: mqtt_filter_valid_def)
  from topic_fits_levels [OF this]
  have "captures (topic_matcher_new flt) topic = Some c
      \<longleftrightarrow> levels_fit (levels flt) (levels topic) \<and> c = level_captures (levels flt) (levels topic)" for c
    by (simp add: topic_matcher_new_def captures_iff_fits levels_def)
  then show ?thesis
    by (cases "captures (topic_matcher_new flt) topic") (auto simp: mqtt_matches_def)
qed

theorem captures_exact_witness:
  "captures (topic_matcher_new ''+/dev/#'') ''$a/dev/x/y'' = Some \<lparr> tc_pluses = [''$a''], tc_hash = Some ''x/y'' \<rparr>
   \<and> \<not> mqtt_matches ''+/dev/#'' ''$a/dev/x/y''
   \<and> captures (topic_matcher_new ''+/dev/#'') ''a/dev'' = Some \<lparr> tc_pluses = [''a''], tc_hash = Some [] \<rparr>
   \<and> mqtt_matches ''+/dev/#'' ''a/dev''
   \<and> captures (topic_matcher_new ''+/dev/#'') ''a/b/dev'' = None"
proof -
  have v: "mqtt_filter_valid ''+/dev/#''" by code_simp
  have r: "reserved_from ''+/dev/#'' ''$a/dev/x/y''" "levels_fit (levels ''+/dev/#'') (levels ''$a/dev/x/y'')"
    "level_captures (levels ''+/dev/#'') (levels ''$a/dev/x/y'') = \<lparr> tc_pluses = [''$a''], tc_hash = Some ''x/y'' \<rparr>"
    by code_simp+
  have m: "mqtt_matches ''+/dev/#'' ''a/dev''"
    "level_captures (levels ''+/dev/#'') (levels ''a/dev'') = \<lparr> tc_pluses = [''a''], tc_hash = Some [] \<rparr>"
    by code_simp+
  have n: "\<not> levels_fit (levels ''+/dev/#'') (levels ''a/b/dev'')" by code_simp
  show ?thesis
    unfolding captures_exact [OF v] using r m n by (simp add: mqtt_matches_def)
qed

text \<open>A filter with \<open>#\<close> before its last level is not valid; the matcher takes it and ignores what follows.\<close>

lemma hash_before_last:
  "\<not> mqtt_filter_valid ''a/#/b''"
  "captures (topic_matcher_new ''a/#/b'') ''a/x'' = Some \<lparr> tc_pluses = [], tc_hash = Some ''x'' \<rparr>"
  by code_simp+

text \<open>
  Capturing and rendering are inverse: when a topic matches a filter (whose literal levels have no
  brace, with a non-empty tail if it has a \<open>#\<close>), rendering the template that spells the filter, each
  wildcard replaced by its placeholder, gives back the topic.
\<close>

lemma template_roundtrip:
  assumes "captures (topic_matcher_new flt) topic = Some c" "CHR ''{'' \<notin> set flt"
    and "tc_hash c \<noteq> Some []" "length (tc_pluses c) \<le> usize_max"
  shows "render (join_with ''/'' (filter_template 1 (topic_matcher_new flt))) c = Inr topic"
proof -
  have plain: "CHR ''{'' \<notin> set s" if "Literal s \<in> set (topic_matcher_new flt)" for s
  proof -
    have "s \<in> set (split_on CHR ''/'' flt)"
      using that by (auto simp: topic_matcher_new_def split: if_splits)
    then have "set s \<subseteq> set (join_with [CHR ''/''] (split_on CHR ''/'' flt))"
      by (rule set_join_with)
    then show ?thesis using assms(2) by (auto simp: join_split_on)
  qed
  show ?thesis
    using render_filter_template [of "topic_matcher_new flt" "split_on CHR ''/'' topic" c c "[]"]
      assms plain by (simp add: captures_iff_fits join_split_on)
qed

text \<open>Reading a row of quoted CSV fields gives back the fields, whatever commas and quotes they hold.\<close>

lemma csv_roundtrip:
  "parse_csv_row (join_with '','' (map csv_quote (f # fs))) = f # fs"
  using parse_csv_row_loop [of "f # fs" "[]"] by (simp only: parse_csv_row_def) simp

text \<open>
  The subscriber's counters are exact over any run of the event loop: every publish is received, it counts
  as unmatched exactly when no subscription's filter matches its topic, as failed when the first
  matching subscription cannot render, decode or name it, and errors of the loop count as reconnects;
  the rest was routed.
\<close>

lemma mqtt_accounting:
  "let m = mq_metrics st; m' = mq_metrics (drive_event_loop ml subs b ts st);
       pubs = concat (map (\<lambda>t. case mt_poll t of Publish topic payload \<Rightarrow> [(topic, payload, mt_now t)] | _ \<Rightarrow> []) ts);
       routed = filter (\<lambda>(topic, payload, now). is_ok (route ml subs topic payload now (Some b))) pubs
   in mm_messages_received m' = mm_messages_received m + length pubs
      \<and> mm_messages_unmatched m' = mm_messages_unmatched m
          + length (filter (\<lambda>(topic, _). list_all (\<lambda>sub. captures (cs_matcher sub) topic = None) subs) pubs)
      \<and> mm_messages_received m' - mm_messages_received m = (mm_messages_unmatched m' - mm_messages_unmatched m)
          + (mm_messages_decode_failed m' - mm_messages_decode_failed m) + length routed
      \<and> mm_messages_decode_failed m \<le> mm_messages_decode_failed m'
      \<and> mm_reconnects m' = mm_reconnects m + length (filter (\<lambda>t. mt_poll t = PollError) ts)"
proof -
  let ?pubs = "\<lambda>ts. concat (map (\<lambda>t. case mt_poll t of Publish topic payload \<Rightarrow> [(topic, payload, mt_now t)] | _ \<Rightarrow> []) ts)"
  let ?r = "\<lambda>(topic, payload, now). route ml subs topic payload now (Some b)"
  have counts: "mq_metrics (drive_event_loop ml subs b ts st) = (mq_metrics st)
      \<lparr> mm_messages_received := mm_messages_received (mq_metrics st) + length (?pubs ts),
        mm_messages_unmatched := mm_messages_unmatched (mq_metrics st) + length (filter (unmatched_result \<circ> ?r) (?pubs ts)),
        mm_messages_decode_failed := mm_messages_decode_failed (mq_metrics st) + length (filter (failed_result \<circ> ?r) (?pubs ts)),
        mm_reconnects := mm_reconnects (mq_metrics st) + length (filter (\<lambda>t. mt_poll t = PollError) ts) \<rparr>"
  proof (induction ts arbitrary: st)
    case (Cons t ts)
    show ?case
      by (simp add: Cons.IH mqtt_poll_step_def mqtt_bus_step_def handle_publish_metrics Let_def split: poll_result.split)
  qed simp
  have split3: "length ps = length (filter (unmatched_result \<circ> ?r) ps) + length (filter (failed_result \<circ> ?r) ps)
      + length (filter (\<lambda>(topic, payload, now). is_ok (route ml subs topic payload now (Some b))) ps)" for ps
  proof (induction ps)
    case (Cons p ps)
    obtain topic payload now where "p = (topic, payload, now)" by (cases p)
    with Cons show ?case
      by (cases "route ml subs topic payload now (Some b)" rule: failed_result.cases) auto
  qed simp
  have "unmatched_result \<circ> ?r = (\<lambda>(topic, _). list_all (\<lambda>sub. captures (cs_matcher sub) topic = None) subs)"
    by (auto simp: fun_eq_iff route_unmatched)
  then show ?thesis using counts split3 [of "?pubs ts"] by (simp add: Let_def)
qed

end
