(* ===== verification/Pipeline.thy ===== *)
theory Pipeline
  imports Cold_Writer Http_Ingest Mqtt
begin

text \<open>
  \<open>crates/ingest/src/pipeline.rs\<close>: the ingest path as it is wired. \<open>pipeline_spawn\<close> creates the channels and
  the tasks; \<open>pipeline_step\<close> is one turn of any of the parties that share them, so that a list of
  actions is an interleaving the scheduler may choose: the producers (an HTTP request, a WebSocket
  message, an MQTT publish), the normalizer, the cold writer, the embedder task and the reader of the
  forward channel. The metrics are one shared object, of which both the HTTP state and the
  normalizer hold a handle: each step writes the other's copy as well.
\<close>

section \<open>Data\<close>

record pipeline_config =
  pc_bus_depth :: usize
  pc_hot_ring :: hot_ring_config
  pc_hard_cap_bytes :: usize
  pc_soft_cap_bytes :: usize
  pc_cold_writer :: cold_writer_config
  pc_embedder :: embedder_config

definition pipeline_config_default :: pipeline_config where
  "pipeline_config_default = \<lparr> pc_bus_depth = 4096, pc_hot_ring = hot_ring_config_default,
     pc_hard_cap_bytes = DEFAULT_HARD_CAP_BYTES, pc_soft_cap_bytes = DEFAULT_SOFT_CAP_BYTES,
     pc_cold_writer = cold_writer_config_default, pc_embedder = embedder_config_default \<rparr>"

record vector_subsystem =
  vs_embedder :: embedder
  vs_index :: vector_index
  vs_selector :: embed_selector

text \<open>\<open>pl_normalized\<close> counts the envelopes the normalizer has taken up.\<close>

record pipeline =
  pl_http :: http_state
  pl_normalizer :: normalizer
  pl_cold_writer :: "cold_writer option"
  pl_embedder :: "embedder_task option"
  pl_normalized :: nat

definition new_channel :: "usize \<Rightarrow> 'a channel" where
  "new_channel cap = \<lparr> ch_items = [], ch_capacity = cap, ch_closed = False \<rparr>"

definition pipeline_spawn :: "auth \<Rightarrow> schema_index \<Rightarrow> cold_store option \<Rightarrow> vector_subsystem option \<Rightarrow> bool
    \<Rightarrow> pipeline_config \<Rightarrow> pipeline" where
  "pipeline_spawn au schemas cold vec forwarder_enabled cfg =
     (let m = metrics_new;
          hr = hot_rings_new (pc_hot_ring cfg);
          bus = \<lparr> bus_received = [], bus_tx = new_channel (pc_bus_depth cfg) \<rparr>;
          (cold_tx, writer) = (case cold of
             Some store \<Rightarrow> (Some (new_channel (pc_bus_depth cfg)), Some (cold_writer_new store (pc_cold_writer cfg)))
           | None \<Rightarrow> (None, None));
          (sink, task) = (case vec of
             Some v \<Rightarrow> (Some \<lparr> es_tx = new_channel (pc_bus_depth cfg), es_selector = vs_selector v \<rparr>,
                       Some (embedder_task_new (vs_embedder v) (vs_index v) (pc_embedder cfg)))
           | None \<Rightarrow> (None, None));
          forward_tx = (if forwarder_enabled then Some (new_channel (pc_bus_depth cfg)) else None)
      in \<lparr> pl_http = \<lparr> hs_auth = au, hs_metrics = m, hs_bus = bus, hs_hard_cap_bytes = pc_hard_cap_bytes cfg,
               hs_soft_cap_bytes = pc_soft_cap_bytes cfg \<rparr>,
           pl_normalizer = normalizer_new hr m schemas cold_tx sink forward_tx,
           pl_cold_writer = writer, pl_embedder = task, pl_normalized = 0 \<rparr>)"

section \<open>Steps\<close>

record libs =
  lib_http :: http_lib
  lib_glob :: glob_lib
  lib_mqtt :: mqtt_lib
  lib_schema :: schema_lib
  lib_codec :: codec

datatype pipeline_action =
    HttpRequest "nat \<Rightarrow> nat" i64 "duration option" "bytes hash_map" bytes
  | WsMessage token_scope ws_turn bytes
  | MqttPublish "compiled_subscription list" string i64 string bytes
  | Normalize stamp
  | ColdRecv tx_fault
  | ColdTick tx_fault
  | EmbedRecv "sql_error option"
  | EmbedTick "sql_error option"
  | ForwardRecv

definition set_http :: "http_state \<Rightarrow> pipeline \<Rightarrow> pipeline" where
  "set_http s p = p\<lparr> pl_http := s, pl_normalizer := (pl_normalizer p)\<lparr> nz_metrics := hs_metrics s \<rparr> \<rparr>"

definition set_normalizer :: "normalizer \<Rightarrow> pipeline \<Rightarrow> pipeline" where
  "set_normalizer nz p = p\<lparr> pl_normalizer := nz, pl_http := (pl_http p)\<lparr> hs_metrics := nz_metrics nz \<rparr> \<rparr>"

text \<open>A publish of a subscriber that holds a clone of the sender; its own counters are not the pipeline's.\<close>

definition mqtt_publish :: "mqtt_lib \<Rightarrow> compiled_subscription list \<Rightarrow> string \<Rightarrow> i64 \<Rightarrow> string \<Rightarrow> bytes
    \<Rightarrow> http_state \<Rightarrow> http_state" where
  "mqtt_publish ml subs broker now topic payload s =
     (let st = handle_publish ml subs broker now topic payload
            \<lparr> mq_tx = bus_tx (hs_bus s),
              mq_metrics = \<lparr> mm_messages_received = 1, mm_messages_unmatched = 0, mm_messages_decode_failed = 0,
                mm_reconnects = 0 \<rparr>,
              mq_ingest_metrics = hs_metrics s \<rparr>
      in s\<lparr> hs_bus := (hs_bus s)\<lparr> bus_tx := mq_tx st \<rparr>, hs_metrics := mq_ingest_metrics st \<rparr>)"

text \<open>
  \<open>Normalize\<close> handles the next envelope. A request may have let the normalizer take envelopes off
  the channel meanwhile (its drains); those are received but not yet handled, and come first.
\<close>

definition pipeline_normalize :: "schema_lib \<Rightarrow> stamp \<Rightarrow> pipeline \<Rightarrow> pipeline \<times> event list" where
  "pipeline_normalize sl t p =
     (let b = hs_bus (pl_http p); n = pl_normalized p in
      if n < length (bus_log b)
      then (let (nz, e) = normalizer_step sl t (bus_log b ! n) (pl_normalizer p);
                b' = (if n < length (bus_received b) then b else bus_recv 1 b);
                p1 = set_normalizer nz p
            in (p1\<lparr> pl_http := (pl_http p1)\<lparr> hs_bus := b' \<rparr>, pl_normalized := n + 1 \<rparr>, [e]))
      else (p, []))"

definition cold_recv :: "codec \<Rightarrow> tx_fault \<Rightarrow> pipeline \<Rightarrow> pipeline" where
  "cold_recv c db p = (case (nz_cold_tx (pl_normalizer p), pl_cold_writer p) of
     (Some ch, Some w) \<Rightarrow> (case ch_items ch of
         [] \<Rightarrow> p
       | e # es \<Rightarrow> p\<lparr> pl_normalizer := (pl_normalizer p)\<lparr> nz_cold_tx := Some (ch\<lparr> ch_items := es \<rparr>) \<rparr>,
                     pl_cold_writer := Some (cold_writer_step c db (Recv e) w) \<rparr>)
   | _ \<Rightarrow> p)"

definition embed_recv :: "codec \<Rightarrow> sql_error option \<Rightarrow> pipeline \<Rightarrow> pipeline" where
  "embed_recv c db p = (case (nz_embed_sink (pl_normalizer p), pl_embedder p) of
     (Some sink, Some t) \<Rightarrow> (case ch_items (es_tx sink) of
         [] \<Rightarrow> p
       | e # es \<Rightarrow> p\<lparr> pl_normalizer := (pl_normalizer p)\<lparr> nz_embed_sink := Some (sink\<lparr> es_tx := (es_tx sink)\<lparr> ch_items := es \<rparr> \<rparr>) \<rparr>,
                     pl_embedder := Some (embedder_step c db (Recv e) t) \<rparr>)
   | _ \<Rightarrow> p)"

definition forward_recv :: "pipeline \<Rightarrow> pipeline" where
  "forward_recv p = (case nz_forward_tx (pl_normalizer p) of
     None \<Rightarrow> p
   | Some ch \<Rightarrow> p\<lparr> pl_normalizer := (pl_normalizer p)\<lparr> nz_forward_tx := Some (ch\<lparr> ch_items := tl (ch_items ch) \<rparr>) \<rparr> \<rparr>)"

text \<open>One action, with the canonical event it produced, if any.\<close>

fun pipeline_step :: "libs \<Rightarrow> pipeline_action \<Rightarrow> pipeline \<Rightarrow> pipeline \<times> event list" where
  "pipeline_step L (HttpRequest drains now verdict headers bdy) p =
     (set_http (fst (http_ingest (lib_http L) (lib_glob L) drains now verdict headers bdy (pl_http p))) p, [])"
| "pipeline_step L (WsMessage sc t bs) p =
     (set_http (fst (ws_payload (lib_http L) (lib_glob L) sc t bs (pl_http p))) p, [])"
| "pipeline_step L (MqttPublish subs broker now topic payload) p =
     (set_http (mqtt_publish (lib_mqtt L) subs broker now topic payload (pl_http p)) p, [])"
| "pipeline_step L (Normalize t) p = pipeline_normalize (lib_schema L) t p"
| "pipeline_step L (ColdRecv db) p = (cold_recv (lib_codec L) db p, [])"
| "pipeline_step L (ColdTick db) p =
     (p\<lparr> pl_cold_writer := map_option (cold_writer_step (lib_codec L) db Tick) (pl_cold_writer p) \<rparr>, [])"
| "pipeline_step L (EmbedRecv db) p = (embed_recv (lib_codec L) db p, [])"
| "pipeline_step L (EmbedTick db) p =
     (p\<lparr> pl_embedder := map_option (embedder_step (lib_codec L) db Tick) (pl_embedder p) \<rparr>, [])"
| "pipeline_step L ForwardRecv p = (forward_recv p, [])"

fun pipeline_run :: "libs \<Rightarrow> pipeline_action list \<Rightarrow> pipeline \<Rightarrow> pipeline \<times> event list" where
  "pipeline_run L [] p = (p, [])"
| "pipeline_run L (a # as) p =
     (let (p1, es) = pipeline_step L a p; (p2, es') = pipeline_run L as p1 in (p2, es @ es'))"

text \<open>
  Shutting down: the sender is dropped, the normalizer handles what is left on the bus, its
  own senders go with it, and the cold writer receives what is left for it and the end of its channel. The
  writer runs alongside; here it takes each event as it comes.
\<close>

definition drain_actions :: "(nat \<Rightarrow> stamp) \<Rightarrow> pipeline \<Rightarrow> pipeline_action list" where
  "drain_actions stamps p =
     (let queued = (case nz_cold_tx (pl_normalizer p) of None \<Rightarrow> 0 | Some ch \<Rightarrow> length (ch_items ch))
      in replicate queued (ColdRecv None)
         @ concat (map (\<lambda>i. [Normalize (stamps i), ColdRecv None]) [pl_normalized p ..< length (bus_log (hs_bus (pl_http p)))]))"

definition pipeline_close :: "codec \<Rightarrow> pipeline \<Rightarrow> pipeline" where
  "pipeline_close c p = p\<lparr> pl_cold_writer := map_option (cold_writer_step c None Closed) (pl_cold_writer p) \<rparr>"

section \<open>What producers do to the shared state\<close>

abbreviation cold_drops :: "metrics \<Rightarrow> nat" where
  "cold_drops m \<equiv> tally (consumer_drops m) ''cold_writer''"

text \<open>A channel in use: its receiver is there, and it holds no more than its capacity.\<close>

definition channel_ok :: "'a channel \<Rightarrow> bool" where
  "channel_ok ch \<longleftrightarrow> \<not> ch_closed ch \<and> length (ch_items ch) \<le> ch_capacity ch"

lemma channel_ok_try_send: "channel_ok ch \<Longrightarrow> try_send x ch = (ch', r) \<Longrightarrow> channel_ok ch' \<and> ch_capacity ch' = ch_capacity ch"
  by (auto simp: channel_ok_def try_send_def split: if_splits)

definition produced :: "http_state \<Rightarrow> http_state \<Rightarrow> bool" where
  "produced s s' \<longleftrightarrow> prefix (bus_log (hs_bus s)) (bus_log (hs_bus s'))
     \<and> cold_drops (hs_metrics s') = cold_drops (hs_metrics s)
     \<and> hs_auth s' = hs_auth s \<and> hs_hard_cap_bytes s' = hs_hard_cap_bytes s
     \<and> (channel_ok (bus_tx (hs_bus s)) \<longrightarrow> channel_ok (bus_tx (hs_bus s'))
          \<and> ch_capacity (bus_tx (hs_bus s')) = ch_capacity (bus_tx (hs_bus s)))"

named_theorems produced_rules

lemma produced_refl [produced_rules, simp]: "produced s s"
  by (simp add: produced_def)

lemma produced_trans [trans]: "produced s t \<Longrightarrow> produced t u \<Longrightarrow> produced s u"
  by (auto simp: produced_def)

lemma metrics_keep_drops [simp]:
  "consumer_drops (inc_source_error src r now m) = consumer_drops m"
  "consumer_drops (inc_shed r tk m) = consumer_drops m"
  "consumer_drops (inc_oversized_soft m) = consumer_drops m"
  "consumer_drops (inc_schema_invalid m) = consumer_drops m"
  "consumer_drops (inc_accepted tk m) = consumer_drops m"
  by (simp_all add: inc_source_error_eq inc_shed_def inc_oversized_soft_def inc_schema_invalid_def inc_accepted_def
      Let_def split: option.split)

lemma shed_keep_drops [simp]:
  "consumer_drops (shed_metrics r sc src now m) = consumer_drops m"
  "consumer_drops (rate_metrics sc now es m) = consumer_drops m"
proof -
  have "consumer_drops (fold (\<lambda>e. inc_source_error (ie_source_id e) r now) es m') = consumer_drops m'" for r m'
    by (induction es arbitrary: m') simp_all
  then show "consumer_drops (rate_metrics sc now es m) = consumer_drops m" by (simp add: rate_metrics_def)
qed (simp add: shed_metrics_def)

lemma produced_metrics [produced_rules]:
  "consumer_drops m = consumer_drops (hs_metrics s) \<Longrightarrow> produced s (s\<lparr> hs_metrics := m \<rparr>)"
  by (simp add: produced_def)

lemma produced_checks:
  "produced s (fst (http_check_events gl sc now es s))" "produced s (fst (ws_check_events gl sc now es s))"
proof (induction es arbitrary: s)
  case (Cons e es)
  {
    case 1
    have "produced s (s\<lparr> hs_metrics := inc_oversized_soft (hs_metrics s) \<rparr>)" by (rule produced_metrics) simp
    then show ?case using Cons(1) produced_trans by (auto simp: Let_def intro: produced_metrics)
  next
    case 2
    then show ?case using Cons(2) by (auto intro: produced_metrics)
  }
qed simp_all

lemma produced_try_send:
  "bus_try_send x (bus_recv n (hs_bus s)) = (b, r) \<Longrightarrow> produced s (s\<lparr> hs_bus := b \<rparr>)"
proof -
  assume send: "bus_try_send x (bus_recv n (hs_bus s)) = (b, r)"
  have recv: "channel_ok (bus_tx (hs_bus s)) \<Longrightarrow> channel_ok (bus_tx (bus_recv n (hs_bus s)))"
      "ch_capacity (bus_tx (bus_recv n (hs_bus s))) = ch_capacity (bus_tx (hs_bus s))"
    by (auto simp: channel_ok_def bus_recv_def)
  obtain tx where tx: "try_send x (bus_tx (bus_recv n (hs_bus s))) = (tx, r)" "bus_tx b = tx"
    using send by (auto simp: bus_try_send_def split: prod.split_asm)
  show "produced s (s\<lparr> hs_bus := b \<rparr>)"
    using bus_log_try_send [OF send] channel_ok_try_send [OF recv(1) tx(1)] tx(2) recv(2) by (simp add: produced_def)
qed

lemma produced_sends:
  "produced s (fst (http_send_events drains sc now es k s)) \<and> produced s (fst (ws_send_events drains sc now es k s))"
proof (induction es arbitrary: s k)
  case (Cons e es)
  let ?x = "\<lparr> env_event = e, env_token_name = Some (ts_name sc) \<rparr>"
  obtain b r where br: "bus_try_send ?x (bus_recv (drains k) (hs_bus s)) = (b, r)"
    by (cases "bus_try_send ?x (bus_recv (drains k) (hs_bus s))")
  note one = produced_try_send [OF br]
  have shed: "produced s (s\<lparr> hs_bus := b, hs_metrics := shed_metrics BusFull sc src now (hs_metrics s) \<rparr>)" for src
    using one by (simp add: produced_def)
  have rest: "produced s (fst (http_send_events drains sc now es j (s\<lparr> hs_bus := b \<rparr>)))"
      "produced s (fst (ws_send_events drains sc now es j (s\<lparr> hs_bus := b \<rparr>)))" for j
    using produced_trans [OF one] Cons by blast+
  show ?case using one shed rest by (simp add: br Let_def split: send_result.split)
qed simp

lemma produced_http: "produced s (fst (http_ingest hl gl drains now verdict headers bdy s))"
proof -
  have checks: "produced s s1" if "http_check_events gl sc now es s = (s1, r)" for sc es s1 r
    using produced_checks(1) [of s gl sc now es] that by simp
  have rate: "produced s (s1\<lparr> hs_metrics := rate_metrics sc now es (hs_metrics s1) \<rparr>)"
    if "http_check_events gl sc now es s = (s1, r)" for sc es s1 r
    by (rule produced_trans [OF checks [OF that]], rule produced_metrics) simp
  have send: "produced s (fst (http_send_events drains sc now es k s1))"
    if "http_check_events gl sc now es s = (s1, r)" for sc es s1 r k
    by (rule produced_trans [OF checks [OF that] produced_sends [THEN conjunct1]])
  show ?thesis
    using checks rate send
    by (auto simp: http_ingest_def Let_def split: sum.split prod.split option.split)
qed

lemma produced_ws: "produced s (fst (ws_payload hl gl sc t bs s))"
proof -
  have checks: "produced s s1" if "ws_check_events gl sc (wt_now t) es s = (s1, r)" for es s1 r
    using produced_checks(2) [of s gl sc "wt_now t" es] that by simp
  have rate: "produced s (s1\<lparr> hs_metrics := rate_metrics sc (wt_now t) es (hs_metrics s1) \<rparr>)"
    if "ws_check_events gl sc (wt_now t) es s = (s1, r)" for es s1 r
    by (rule produced_trans [OF checks [OF that]], rule produced_metrics) simp
  have send: "produced s s2"
    if "ws_check_events gl sc (wt_now t) es s = (s1, r)" "ws_send_events (wt_drains t) sc (wt_now t) es 0 s1 = (s2, z)"
    for es s1 r s2 z
    using produced_trans [OF checks [OF that(1)] produced_sends [THEN conjunct2, of s1 "wt_drains t" sc "wt_now t" es 0]] that(2)
    by simp
  show ?thesis
    using checks rate send
    by (auto simp: ws_payload_def Let_def split: sum.split prod.split option.split bool.split)
qed

lemma produced_mqtt: "produced s (mqtt_publish ml subs broker now topic payload s)"
  by (auto simp: mqtt_publish_def handle_publish_def produced_def channel_ok_def bus_log_def try_send_def inc_consumer_drop_def Let_def
      split: sum.split route_error.split)

section \<open>The invariant of a run\<close>

text \<open>
  An event is canonical for an envelope when every field the producer set is the producer's and every field
  the server assigns is there: an event id and a trace id of its own where the producer gave none, the time of
  ingestion and a sequence number from 1 on, and the schema flag set only to true.
\<close>

definition canonical_of :: "ingest_envelope \<Rightarrow> event \<Rightarrow> bool" where
  "canonical_of envl e \<longleftrightarrow> (let i = env_event envl in
     source_id e = ie_source_id i \<and> kind e = ie_kind i \<and> ts_ms_utc e = ie_ts_ms_utc i \<and> semantic e = ie_semantic i
     \<and> links e = ie_links i \<and> producer_id e = ie_producer_id i
     \<and> (case ie_event_id i of Some x \<Rightarrow> event_id e = x | None \<Rightarrow> True)
     \<and> (case ie_trace_id i of Some x \<Rightarrow> trace_id e = Some x | None \<Rightarrow> trace_id e \<noteq> None)
     \<and> ingest_ts_ms_utc e \<noteq> None \<and> (case seq e of Some n \<Rightarrow> 0 < n | None \<Rightarrow> False)
     \<and> (schema_invalid e = None \<or> schema_invalid e = Some True))"

lemma normalizer_step_canonical: "canonical_of envl (snd (normalizer_step sl t envl nz))"
  by (simp add: normalizer_step_event normalize_def canonical_of_def Let_def split: option.split)

lemma tally_consumer_drop [simp]:
  "tally (consumer_drops (inc_consumer_drop x m)) k = tally (consumer_drops m) k + (if k = x then 1 else 0)"
  by (simp add: inc_consumer_drop_def)

lemma normalizer_step_cold:
  assumes "nz_cold_tx nz = Some ch" "\<not> ch_closed ch"
  shows "let (nz', e) = normalizer_step sl t envl nz; room = length (ch_items ch) < ch_capacity ch
    in nz_cold_tx nz' = Some (if room then ch\<lparr> ch_items := ch_items ch @ [e] \<rparr> else ch)
      \<and> cold_drops (nz_metrics nz') = cold_drops (nz_metrics nz) + (if room then 0 else 1)"
proof -
  obtain nz1 e where n: "normalize sl t (env_event envl) nz = (nz1, e)"
    by (cases "normalize sl t (env_event envl) nz")
  have kept: "nz_cold_tx nz1 = Some ch" "consumer_drops (nz_metrics nz1) = consumer_drops (nz_metrics nz)"
    using n assms by (auto simp: normalize_def Let_def)
  have other: "tally (consumer_drops (snd (offer x e tx m))) ''cold_writer'' = cold_drops m"
    if "x \<noteq> ''cold_writer''" for x tx m
    using that by (simp add: offer_def try_send_def)
  have rest: "cold_drops (nz_metrics (offer_embed e z)) = cold_drops (nz_metrics z)"
      "cold_drops (nz_metrics (offer_forward e z)) = cold_drops (nz_metrics z)" for z
    using other [of "''embedder''"] other [of "''forwarder''"]
    by (simp_all add: offer_embed_def offer_forward_def split_beta split: option.split)
  show ?thesis
    using assms(2) by (simp add: normalizer_step_def n Let_def rest)
      (simp add: offer_cold_def offer_def try_send_def kept)
qed

lemma tally_upd: "tally (m(k \<mapsto> n)) k' = (if k' = k then n else tally m k')"
  by (simp add: tally_def)

definition pl_inv :: "codec \<Rightarrow> cold_store \<Rightarrow> cold_writer_config \<Rightarrow> event list \<Rightarrow> pipeline \<Rightarrow> bool" where
  "pl_inv c st cw es p \<longleftrightarrow> (\<exists>is ch. nz_cold_tx (pl_normalizer p) = Some ch \<and> \<not> ch_closed ch \<and> 0 < ch_capacity ch
     \<and> pl_cold_writer p = Some (cold_writer_run c is (cold_writer_new st cw)) \<and> (\<forall>i \<in> set is. fst i = None)
     \<and> subseq (received (map snd is) @ ch_items ch) es
     \<and> length es = length (received (map snd is)) + length (ch_items ch) + cold_drops (hs_metrics (pl_http p)))
     \<and> nz_metrics (pl_normalizer p) = hs_metrics (pl_http p)
     \<and> pl_normalized p \<le> length (bus_log (hs_bus (pl_http p)))
     \<and> list_all2 canonical_of (take (pl_normalized p) (bus_log (hs_bus (pl_http p)))) es
     \<and> (\<forall>s. tally (nz_seq_by_source (pl_normalizer p)) s \<le> pl_normalized p)
     \<and> (\<forall>e \<in> set es. \<exists>n \<le> pl_normalized p. seq e = Some n)"

fun engine_ok :: "pipeline_action \<Rightarrow> bool" where
  "engine_ok (ColdRecv db) \<longleftrightarrow> db = None"
| "engine_ok (ColdTick db) \<longleftrightarrow> db = None"
| "engine_ok _ \<longleftrightarrow> True"

text \<open>(\<open>mpsc::channel\<close> does not accept the depth 0.)\<close>

lemma pl_inv_spawn:
  "0 < pc_bus_depth cfg \<Longrightarrow> pl_inv c st (pc_cold_writer cfg) [] (pipeline_spawn au sch (Some st) vec fwd cfg)"
  unfolding pl_inv_def
  by (rule conjI, rule exI [of _ "[]"])
    (auto simp: pipeline_spawn_def Let_def normalizer_new_def new_channel_def cold_writer_run_def metrics_new_def tally_def
      split: option.split)

lemma pl_inv_produced:
  assumes "pl_inv c st cw es p" "produced (pl_http p) s"
  shows "pl_inv c st cw es (set_http s p)"
  using assms by (auto simp: pl_inv_def produced_def set_http_def prefix_def)

text \<open>A step that leaves bus, metrics and event list alone, and feeds the writer one more input.\<close>

lemma pl_inv_writer:
  assumes inv: "pl_inv c st cw es p" and ch: "nz_cold_tx (pl_normalizer p) = Some ch" and w: "pl_cold_writer p = Some w"
    and more: "ch_items ch = received [i] @ items"
  shows "pl_inv c st cw es (p\<lparr> pl_normalizer := (pl_normalizer p)\<lparr> nz_cold_tx := Some (ch\<lparr> ch_items := items \<rparr>) \<rparr>,
      pl_cold_writer := Some (cold_writer_step c None i w) \<rparr>)"
proof -
  from inv ch w obtain "is" where i: "\<not> ch_closed ch" "w = cold_writer_run c is (cold_writer_new st cw)"
      "\<forall>i \<in> set is. fst i = None" "subseq (received (map snd is) @ ch_items ch) es"
      "length es = length (received (map snd is)) + length (ch_items ch) + cold_drops (hs_metrics (pl_http p))"
      "0 < ch_capacity ch"
    unfolding pl_inv_def by auto
  have "cold_writer_step c None i w = cold_writer_run c (is @ [(None, i)]) (cold_writer_new st cw)"
    by (simp add: i(2) cold_writer_run_def)
  then show ?thesis
    using inv i more unfolding pl_inv_def
    by (intro conjI exI [of _ "is @ [(None, i)]"] exI [of _ "ch\<lparr> ch_items := items \<rparr>"]) (auto simp: received_append)
qed

lemma pl_inv_normalize:
  assumes inv: "pl_inv c st cw es p" and step: "pipeline_normalize sl t p = (p', es')"
  shows "pl_inv c st cw (es @ es') p'"
proof (cases "pl_normalized p < length (bus_log (hs_bus (pl_http p)))")
  case True
  let ?n = "pl_normalized p" and ?log = "bus_log (hs_bus (pl_http p))"
  obtain nz e where ns: "normalizer_step sl t (?log ! ?n) (pl_normalizer p) = (nz, e)"
    by (cases "normalizer_step sl t (?log ! ?n) (pl_normalizer p)")
  from inv obtain "is" ch where i: "nz_cold_tx (pl_normalizer p) = Some ch" "\<not> ch_closed ch"
      "pl_cold_writer p = Some (cold_writer_run c is (cold_writer_new st cw))" "\<forall>i \<in> set is. fst i = None"
      "subseq (received (map snd is) @ ch_items ch) es"
      "length es = length (received (map snd is)) + length (ch_items ch) + cold_drops (nz_metrics (pl_normalizer p))"
      "0 < ch_capacity ch"
    unfolding pl_inv_def by auto
  let ?ch = "if length (ch_items ch) < ch_capacity ch then ch\<lparr> ch_items := ch_items ch @ [e] \<rparr> else ch"
  have cold: "nz_cold_tx nz = Some ?ch" "cold_drops (nz_metrics nz) = cold_drops (nz_metrics (pl_normalizer p))
      + (if length (ch_items ch) < ch_capacity ch then 0 else 1)"
    using normalizer_step_cold [OF i(1,2), of sl t "?log ! ?n"] by (simp_all add: ns Let_def)
  have sub: "subseq (received (map snd is) @ ch_items ?ch) (es @ [e])"
    using list_emb_append_mono [OF i(5), of "[e]" "[e]"] i(5) by (auto intro: subseq_order.trans)
  have can: "list_all2 canonical_of (take (Suc ?n) ?log) (es @ [e])"
    using inv True normalizer_step_canonical [of "?log ! ?n" sl t "pl_normalizer p"]
    by (auto simp: pl_inv_def take_Suc_conv_app_nth ns intro: list_all2_appendI)
  let ?s = "ie_source_id (env_event (?log ! ?n))"
  have sq: "nz_seq_by_source nz = (nz_seq_by_source (pl_normalizer p))(?s \<mapsto> tally (nz_seq_by_source (pl_normalizer p)) ?s + 1)"
      "seq e = Some (tally (nz_seq_by_source (pl_normalizer p)) ?s + 1)"
    using normalizer_step_seq [of sl t "?log ! ?n" "pl_normalizer p"] normalizer_step_event [of sl t "?log ! ?n" "pl_normalizer p"]
      normalize_event(2) [of sl t "env_event (?log ! ?n)" "pl_normalizer p"] by (simp_all add: ns)
  have bound: "tally (nz_seq_by_source (pl_normalizer p)) s \<le> ?n" for s using inv by (simp add: pl_inv_def)
  have "tally (nz_seq_by_source nz) s \<le> Suc ?n" for s
    using bound [of s] bound [of ?s] by (simp add: sq(1) tally_upd)
  moreover have "\<forall>x \<in> set es. \<exists>n \<le> Suc ?n. seq x = Some n" using inv unfolding pl_inv_def by (meson le_SucI)
  ultimately have seqs: "\<forall>s. tally (nz_seq_by_source nz) s \<le> Suc ?n" "\<forall>x \<in> set (es @ [e]). \<exists>n \<le> Suc ?n. seq x = Some n"
    using sq(2) bound [of ?s] by simp_all
  have p': "pl_normalizer p' = nz" "nz_cold_tx (pl_normalizer p') = Some ?ch" "pl_cold_writer p' = pl_cold_writer p" "es' = [e]"
      "nz_metrics (pl_normalizer p') = nz_metrics nz" "hs_metrics (pl_http p') = nz_metrics nz"
      "bus_log (hs_bus (pl_http p')) = ?log" "pl_normalized p' = Suc ?n"
    using step True cold(1) by (auto simp: pipeline_normalize_def Let_def ns set_normalizer_def)
  show ?thesis
    unfolding pl_inv_def p' using i(2-4) sub can True cold i(6,7) seqs
    by (intro conjI exI [of _ "is"] exI [of _ ?ch]) auto
next
  case False
  then show ?thesis using assms by (simp add: pipeline_normalize_def Let_def)
qed

lemma pl_inv_cold_recv:
  assumes "pl_inv c st cw es p"
  shows "pl_inv c st cw es (cold_recv c None p)"
  using assms pl_inv_writer [OF assms, of _ _ "Recv e" for e]
  by (auto simp: cold_recv_def split: option.split list.split)

lemma pl_inv_embed_recv: "pl_inv c st cw es (embed_recv c' db p) \<longleftrightarrow> pl_inv c st cw es p"
  by (auto simp: pl_inv_def embed_recv_def split: option.split list.split)

lemma pl_inv_forward_recv: "pl_inv c st cw es (forward_recv p) \<longleftrightarrow> pl_inv c st cw es p"
  by (auto simp: pl_inv_def forward_recv_def split: option.split)

lemma pl_inv_tick:
  assumes "pl_inv c st cw es p"
  shows "pl_inv c st cw es (p\<lparr> pl_cold_writer := map_option (cold_writer_step c None Tick) (pl_cold_writer p) \<rparr>)"
proof -
  obtain ch w where ch: "nz_cold_tx (pl_normalizer p) = Some ch" and w: "pl_cold_writer p = Some w"
    using assms unfolding pl_inv_def by auto
  have "(pl_normalizer p)\<lparr> nz_cold_tx := Some ch \<rparr> = pl_normalizer p" using ch by (cases "pl_normalizer p") simp
  then have "p\<lparr> pl_normalizer := (pl_normalizer p)\<lparr> nz_cold_tx := Some ch \<rparr>, pl_cold_writer := x \<rparr> = p\<lparr> pl_cold_writer := x \<rparr>" for x
    by (cases p) simp
  then show ?thesis using pl_inv_writer [OF assms ch w, of Tick "ch_items ch"] w by simp
qed

lemma pl_inv_step:
  assumes "pl_inv (lib_codec L) st cw es p" "engine_ok a" "pipeline_step L a p = (p', es')"
  shows "pl_inv (lib_codec L) st cw (es @ es') p'"
  using assms pl_inv_produced [OF assms(1)] pl_inv_normalize [OF assms(1)] pl_inv_cold_recv [OF assms(1)] pl_inv_tick [OF assms(1)]
  by (cases a) (auto simp: produced_http produced_ws produced_mqtt pl_inv_embed_recv pl_inv_forward_recv, auto simp: pl_inv_def)

lemma pl_inv_run:
  assumes "pl_inv (lib_codec L) st cw es p" "list_all engine_ok as" "pipeline_run L as p = (p', es')"
  shows "pl_inv (lib_codec L) st cw (es @ es') p'"
  using assms
proof (induction as arbitrary: p es p' es')
  case (Cons a as)
  obtain p1 es1 where s: "pipeline_step L a p = (p1, es1)" by (cases "pipeline_step L a p")
  obtain p2 es2 where r: "pipeline_run L as p1 = (p2, es2)" by (cases "pipeline_run L as p1")
  have "pl_inv (lib_codec L) st cw (es @ es1) p1" using pl_inv_step [OF Cons.prems(1) _ s] Cons.prems(2) by simp
  from Cons.IH [OF this _ r] Cons.prems s r show ?case by simp
qed simp

section \<open>Draining\<close>

lemma pipeline_run_append:
  "pipeline_run L (as @ bs) p = (let (p1, es) = pipeline_run L as p; (p2, es') = pipeline_run L bs p1 in (p2, es @ es'))"
  by (induction as arbitrary: p) (auto simp: Let_def split: prod.split)

text \<open>What draining relies on: the writer is there and its channel open.\<close>

definition cold_queue :: "event list \<Rightarrow> pipeline \<Rightarrow> bool" where
  "cold_queue items p \<longleftrightarrow> pl_cold_writer p \<noteq> None
     \<and> (\<exists>ch. nz_cold_tx (pl_normalizer p) = Some ch \<and> ch_items ch = items \<and> \<not> ch_closed ch \<and> 0 < ch_capacity ch)"

text \<open>The parts of the state a draining schedule must leave alone, or advance to the end.\<close>

definition bus_at :: "nat \<Rightarrow> ingest_envelope list \<Rightarrow> nat \<Rightarrow> pipeline \<Rightarrow> bool" where
  "bus_at n log d p \<longleftrightarrow> pl_normalized p = n \<and> bus_log (hs_bus (pl_http p)) = log
     \<and> cold_drops (hs_metrics (pl_http p)) = d \<and> cold_drops (nz_metrics (pl_normalizer p)) = d"

lemma cold_recv_queue:
  assumes "cold_queue (e # es) p"
  shows "cold_queue es (cold_recv c db p)" "bus_at n log d (cold_recv c db p) \<longleftrightarrow> bus_at n log d p"
  using assms by (auto simp: cold_queue_def cold_recv_def bus_at_def)

lemma drain_queue:
  assumes "cold_queue items p" "bus_at n log d p"
  shows "\<exists>p'. pipeline_run L (replicate (length items) (ColdRecv None)) p = (p', []) \<and> cold_queue [] p' \<and> bus_at n log d p'"
  using assms
proof (induction items arbitrary: p)
  case (Cons e items)
  from Cons.IH [of "cold_recv (lib_codec L) None p"] cold_recv_queue [OF Cons.prems(1)] Cons.prems(2)
  show ?case by (auto simp: Let_def)
qed simp

lemma normalize_queue:
  assumes q: "cold_queue [] p" and b: "bus_at n log d p" and n: "n < length log"
  shows "\<exists>p' e. pipeline_normalize sl t p = (p', [e]) \<and> cold_queue [e] p' \<and> bus_at (Suc n) log d p'"
proof -
  let ?x = "bus_log (hs_bus (pl_http p)) ! pl_normalized p"
  obtain nz e where ns: "normalizer_step sl t ?x (pl_normalizer p) = (nz, e)"
    by (cases "normalizer_step sl t ?x (pl_normalizer p)")
  obtain ch where ch: "nz_cold_tx (pl_normalizer p) = Some ch" "\<not> ch_closed ch" "ch_items ch = []" "0 < ch_capacity ch"
    using q by (auto simp: cold_queue_def)
  have cold: "nz_cold_tx nz = Some (ch\<lparr> ch_items := [e] \<rparr>)"
      "cold_drops (nz_metrics nz) = cold_drops (nz_metrics (pl_normalizer p))"
    using normalizer_step_cold [OF ch(1,2), of sl t ?x] ch(3,4) by (simp_all add: ns Let_def)
  show ?thesis
    using b n q cold ch unfolding pipeline_normalize_def Let_def
    by (auto simp: ns bus_at_def cold_queue_def set_normalizer_def)
qed

lemma drain_bus:
  assumes "cold_queue [] p" "bus_at n log d p" "n \<le> length log"
  shows "\<exists>p' es. pipeline_run L (concat (map (\<lambda>i. [Normalize (stamps i), ColdRecv None]) [n ..< length log])) p = (p', es)
    \<and> cold_queue [] p' \<and> bus_at (length log) log d p'"
  using assms
proof (induction "length log - n" arbitrary: n p)
  case (Suc k)
  then have n: "n < length log" "k = length log - Suc n" by simp_all
  obtain p1 e where p1: "pipeline_normalize (lib_schema L) (stamps n) p = (p1, [e])" "cold_queue [e] p1" "bus_at (Suc n) log d p1"
    using normalize_queue [OF Suc.prems(1,2) n(1)] by blast
  from Suc.hyps(1) [OF n(2), of "cold_recv (lib_codec L) None p1"] cold_recv_queue [OF p1(2)] p1(3) n
  show ?case by (auto simp: upt_conv_Cons p1(1) Let_def)
qed (auto simp: Let_def)

lemma drain_complete:
  assumes inv: "pl_inv c st cw es p"
  shows "\<exists>p' es'. pipeline_run L (drain_actions stamps p) p = (p', es') \<and> cold_queue [] p'
    \<and> bus_at (length (bus_log (hs_bus (pl_http p)))) (bus_log (hs_bus (pl_http p))) (cold_drops (hs_metrics (pl_http p))) p'"
proof -
  let ?log = "bus_log (hs_bus (pl_http p))" and ?n = "pl_normalized p" and ?d = "cold_drops (hs_metrics (pl_http p))"
  obtain ch where ch: "nz_cold_tx (pl_normalizer p) = Some ch" "cold_queue (ch_items ch) p"
    using inv by (auto simp: pl_inv_def cold_queue_def)
  have b: "bus_at ?n ?log ?d p" "?n \<le> length ?log" using inv by (auto simp: pl_inv_def bus_at_def)
  obtain p1 where p1: "pipeline_run L (replicate (length (ch_items ch)) (ColdRecv None)) p = (p1, [])"
      "cold_queue [] p1" "bus_at ?n ?log ?d p1"
    using drain_queue [OF ch(2) b(1)] by blast
  from drain_bus [OF p1(2,3) b(2), of L stamps] show ?thesis
    by (auto simp: drain_actions_def Let_def ch(1) pipeline_run_append p1(1))
qed

lemma drain_engine_ok: "list_all engine_ok (drain_actions stamps p)"
  by (auto simp: drain_actions_def Let_def list_all_iff)

section \<open>Properties\<close>

text \<open>An envelope whose payload and links survive the store's encoding.\<close>

definition envelope_encodes :: "codec \<Rightarrow> ingest_envelope \<Rightarrow> bool" where
  "envelope_encodes c envl \<longleftrightarrow> (let i = env_event envl in
     (\<exists>t. json_to_string c (ie_semantic i) = Inr t \<and> json_from_str c t = Inr (ie_semantic i))
     \<and> (\<forall>l. ie_links i = Some l \<longrightarrow> (\<exists>t. links_to_string c l = Inr t \<and> links_from_str c t = Inr l)))"

lemma canonical_encodable:
  assumes "list_all2 canonical_of log es" "list_all (envelope_encodes c) log" "\<forall>e \<in> set es. \<exists>n \<le> u64_max. seq e = Some n"
  shows "list_all (encodable c) es"
  using assms
  by (induction rule: list_all2_induct) (auto simp: encodable_def envelope_encodes_def canonical_of_def Let_def)

text \<open>
  C5. From admission to disk: whatever HTTP requests, WebSocket messages and MQTT publishes arrive and however
  their handling interleaves with the normalizer, the cold writer and the other tasks, once the pipeline has been
  drained and closed every envelope ever put on the bus has become one canonical event, in order, and the log and
  the current-state map are those of inserting a subsequence of these events one by one. The events missing from it are
  exactly as many as the cold writer's drop counter says, so with no drops it is all of them. (The engine
  works, what was admitted can be encoded, and sequence numbers have not run out.)
\<close>

theorem pipeline_durable:
  assumes "ulid_codec (lib_codec L)" and "cold_inv (lib_codec L) st" and "0 < pc_bus_depth cfg"
    and ok: "list_all engine_ok acts"
    and run: "pipeline_run L acts (pipeline_spawn au sch (Some st) vec fwd cfg) = (p, es)"
    and drain: "pipeline_run L (drain_actions stamps p) p = (p', es')"
    and enc: "list_all (envelope_encodes (lib_codec L)) (bus_log (hs_bus (pl_http p)))"
    and few: "length (bus_log (hs_bus (pl_http p))) \<le> u64_max"
  shows "list_all2 canonical_of (bus_log (hs_bus (pl_http p))) (es @ es')
    \<and> (\<exists>kept w. pl_cold_writer (pipeline_close (lib_codec L) p') = Some w \<and> cw_buf w = []
        \<and> subseq kept (es @ es')
        \<and> length (es @ es') = length kept + consumer_drop_count (hs_metrics (pl_http p)) ''cold_writer''
        \<and> log_of (lib_codec L) (cw_store w) = fold (log_insert \<circ> stored_form) kept (log_of (lib_codec L) st)
        \<and> current_of (lib_codec L) (cw_store w)
            = fold (current_update \<circ> stored_form) kept (current_of (lib_codec L) st))"
proof -
  let ?c = "lib_codec L" and ?cw = "pc_cold_writer cfg" and ?log = "bus_log (hs_bus (pl_http p))"
  have inv: "pl_inv ?c st ?cw es p" using pl_inv_run [OF pl_inv_spawn [OF assms(3)] ok run] by simp
  have inv': "pl_inv ?c st ?cw (es @ es') p'" by (rule pl_inv_run [OF inv drain_engine_ok drain])
  have q: "cold_queue [] p'" and b: "bus_at (length ?log) ?log (cold_drops (hs_metrics (pl_http p))) p'"
    using drain_complete [OF inv, of L stamps] drain by auto
  have can: "list_all2 canonical_of ?log (es @ es')"
    using inv' b by (simp add: pl_inv_def bus_at_def)
  have "\<forall>e \<in> set (es @ es'). \<exists>n \<le> u64_max. seq e = Some n"
    using inv' b few unfolding pl_inv_def bus_at_def by (metis order.trans)
  note enc' = canonical_encodable [OF can enc this]
  from inv' q obtain "is" where i: "pl_cold_writer p' = Some (cold_writer_run ?c is (cold_writer_new st ?cw))"
      "\<forall>i \<in> set is. fst i = None" "subseq (received (map snd is)) (es @ es')"
      "length (es @ es') = length (received (map snd is)) + cold_drops (hs_metrics (pl_http p'))"
    unfolding pl_inv_def cold_queue_def by auto
  let ?w = "cold_writer_run ?c (is @ [(None, Closed)]) (cold_writer_new st ?cw)"
  have "list_all (encodable ?c) (received (map snd is))"
    using enc' list_emb_set [OF i(3)] unfolding list_all_iff by metis
  note fin = cold_writer_closed [OF assms(1,2) this i(2), of ?cw, unfolded Let_def]
  have w: "pl_cold_writer (pipeline_close ?c p') = Some ?w"
    by (simp add: pipeline_close_def i(1) cold_writer_run_def)
  have d: "cold_drops (hs_metrics (pl_http p')) = consumer_drop_count (hs_metrics (pl_http p)) ''cold_writer''"
    using b by (simp add: bus_at_def consumer_drop_count_def tally_def)
  show ?thesis using can w i(3,4) d fin by auto
qed

definition demo_libs :: libs where
  "demo_libs = \<lparr> lib_http = demo_http_lib, lib_glob = demo_globs,
     lib_mqtt = \<lparr> ml_json_from_slice = (\<lambda>_. Inl []), ml_base64 = id, ml_path_error = (\<lambda>_. None), ml_find_slice = (\<lambda>_ _. []) \<rparr>,
     lib_schema = \<lparr> schema_error = (\<lambda>_. None), schema_is_valid = (\<lambda>_ _. True) \<rparr>, 
     lib_codec = demo_codec\<lparr> json_to_string := (\<lambda>_. Inr ''null''), json_from_str := (\<lambda>_. Inr Null) \<rparr> \<rparr>"

definition demo_pipeline :: pipeline where
  "demo_pipeline = pipeline_spawn (auth_insert ''tok'' demo_scope auth_new) schema_index_default (Some cold_open_in_memory)
     None False pipeline_config_default"

definition demo_stamp :: "nat \<Rightarrow> stamp" where
  "demo_stamp i = \<lparr> st_event_id = of_nat i, st_trace_id = ''t'', st_ingest_ts = 5, st_push_ts = 5 \<rparr>"

definition demo_acts :: "pipeline_action list" where
  "demo_acts = [HttpRequest (\<lambda>_. 0) 0 None [''authorization'' \<mapsto> ''Bearer tok''] []]"

definition demo_admitted :: pipeline where
  "demo_admitted = demo_pipeline\<lparr> pl_http := (pl_http demo_pipeline)\<lparr> hs_bus := \<lparr> bus_received = [], bus_tx = \<lparr>
        ch_items = [\<lparr> env_event = demo_wire_event ''a'' 1, env_token_name = Some ''dev'' \<rparr>,
          \<lparr> env_event = demo_wire_event ''b'' 2, env_token_name = Some ''dev'' \<rparr>],
        ch_capacity = 4096, ch_closed = False \<rparr> \<rparr> \<rparr> \<rparr>"

lemma demo_acts_run: "pipeline_run demo_libs demo_acts demo_pipeline = (demo_admitted, [])"
  by (simp add: demo_acts_def demo_admitted_def demo_libs_def set_http_def http_ingest_def demo_pipeline_def pipeline_spawn_def
      http_authenticate_def demo_http_lib_def auth_lookup_def auth_insert_def demo_scope_def demo_wire_event_def
      scope_allows_def glob_set_is_match_def pipeline_config_default_def DEFAULT_HARD_CAP_BYTES_def
      DEFAULT_SOFT_CAP_BYTES_def check_rate_def bus_try_send_def try_send_def new_channel_def normalizer_new_def)

theorem pipeline_durable_witness:
  "let (p, es) = pipeline_run demo_libs demo_acts demo_pipeline;
       (p', es') = pipeline_run demo_libs (drain_actions demo_stamp p) p
   in \<exists>kept w. pl_cold_writer (pipeline_close (lib_codec demo_libs) p') = Some w \<and> length kept = 2
        \<and> log_of (lib_codec demo_libs) (cw_store w)
          = fold (log_insert \<circ> stored_form) kept (log_of (lib_codec demo_libs) cold_open_in_memory)"
proof -
  obtain p' es' where d: "pipeline_run demo_libs (drain_actions demo_stamp demo_admitted) demo_admitted = (p', es')"
    by (cases "pipeline_run demo_libs (drain_actions demo_stamp demo_admitted) demo_admitted")
  have codec: "ulid_codec (lib_codec demo_libs)"
    using demo_ulid_codec by (simp add: ulid_codec_def demo_libs_def)
  have bus: "list_all (envelope_encodes (lib_codec demo_libs)) (bus_log (hs_bus (pl_http demo_admitted)))"
      "length (bus_log (hs_bus (pl_http demo_admitted))) = 2"
      "consumer_drop_count (hs_metrics (pl_http demo_admitted)) ''cold_writer'' = 0"
    by (simp_all add: demo_admitted_def bus_log_def consumer_drop_count_def demo_pipeline_def pipeline_spawn_def
        metrics_new_def envelope_encodes_def demo_wire_event_def demo_libs_def Let_def split: option.split)
  have "0 < pc_bus_depth pipeline_config_default" "list_all engine_ok demo_acts"
    by (simp_all add: pipeline_config_default_def demo_acts_def)
  note fin = pipeline_durable [OF codec cold_inv_open this demo_acts_run [unfolded demo_pipeline_def] d bus(1)]
  from fin bus(2,3) have "length es' = 2" by (auto simp: u64_max_def dest: list_all2_lengthD)
  with fin bus(2,3) show ?thesis by (simp add: demo_acts_run d u64_max_def) (metis (no_types))
qed

end
