(* ===== verification/Client_Sdk.thy ===== *)
theory Client_Sdk
  imports Core_Types Batch_Loop
begin

text \<open>
  \<open>crates/client\<close>: the producer SDK. \<open>send_batch\<close> posts a batch and retries on 429 and 503; the
  blocking client is a second implementation of it; the batcher buffers events and sends them in the
  background. The HTTP exchange is a parameter: \<open>server n req\<close> is the outcome of the \<open>n\<close>-th request
  of a call, \<open>Inl\<close> a transport error. JSON encoding of the body and gzip are the parameters \<open>wire\<close>.
\<close>

section \<open>Events\<close>

record client_event =
  ce_event_id :: "ulid option"
  ce_source_id :: string
  ce_kind :: string
  ce_ts_ms_utc :: i64
  ce_semantic :: json
  ce_links :: "link list option"
  ce_trace_id :: "string option"
  ce_producer_id :: "string option"

definition client_event_new :: "string \<Rightarrow> string \<Rightarrow> i64 \<Rightarrow> json \<Rightarrow> client_event" where
  "client_event_new s k ts sem = \<lparr> ce_event_id = None, ce_source_id = s, ce_kind = k, ce_ts_ms_utc = ts,
     ce_semantic = sem, ce_links = None, ce_trace_id = None, ce_producer_id = None \<rparr>"

definition with_producer_id :: "string \<Rightarrow> client_event \<Rightarrow> client_event" where
  "with_producer_id p e = e\<lparr> ce_producer_id := Some p \<rparr>"

definition with_trace_id :: "string \<Rightarrow> client_event \<Rightarrow> client_event" where
  "with_trace_id t e = e\<lparr> ce_trace_id := Some t \<rparr>"

definition with_event_id :: "ulid \<Rightarrow> client_event \<Rightarrow> client_event" where
  "with_event_id i e = e\<lparr> ce_event_id := Some i \<rparr>"

section \<open>Requests\<close>

datatype client_error =
    Network string | Serialize string | Unauthorized | BadRequest nat string | PayloadTooLarge
  | ScopeDeny | RetriesExhausted usize nat "duration option" | ServerError nat string

record client_config =
  max_attempts :: usize
  max_retry_after :: duration
  default_retry_after :: duration
  gzip :: bool
  timeout :: duration

definition client_config_default :: client_config where
  "client_config_default = \<lparr> max_attempts = 4, max_retry_after = from_secs 30,
     default_retry_after = from_millis 200, gzip = True, timeout = from_secs 10 \<rparr>"

record client =
  base_url :: string
  bearer :: string
  cl_config :: client_config

definition client_with_config :: "string \<Rightarrow> string \<Rightarrow> client_config \<Rightarrow> client" where
  "client_with_config url token cfg = \<lparr> base_url = url, bearer = token, cl_config = cfg \<rparr>"

definition client_new :: "string \<Rightarrow> string \<Rightarrow> client" where
  "client_new url token = client_with_config url token client_config_default"

record wire =
  envelope_to_vec :: "client_event list \<Rightarrow> string + bytes"
  gzip_encode :: "bytes \<Rightarrow> bytes"

record http_request =
  rq_url :: string
  rq_authorization :: string
  rq_gzip :: bool
  rq_body :: bytes

text \<open>
  A response: the two headers as far as they are readable text, the \<open>accepted\<close> field of the JSON
  body or the error of reading it, and the body as text.
\<close>

record http_response =
  rs_status :: nat
  rs_shed_reason :: "string option"
  rs_retry_after :: "string option"
  rs_accepted :: "string + usize"
  rs_text :: "string option"

type_synonym server = "nat \<Rightarrow> http_request \<Rightarrow> string + http_response"

definition parse_retry_after :: "string option \<Rightarrow> duration option" where
  "parse_retry_after h = (case h of
     None \<Rightarrow> None | Some raw \<Rightarrow> map_option from_secs (parse_uint u64_max (trim raw)))"

definition text_or_default :: "http_response \<Rightarrow> string" where
  "text_or_default r = (case rs_text r of Some t \<Rightarrow> t | None \<Rightarrow> [])"

text \<open>What a response makes the loop do: return, or wait and try again.\<close>

datatype verdict = Return "client_error + usize" | Wait duration

definition retry_wait :: "client_config \<Rightarrow> http_response \<Rightarrow> duration" where
  "retry_wait cfg r = min (case parse_retry_after (rs_retry_after r) of Some d \<Rightarrow> d | None \<Rightarrow> default_retry_after cfg)
     (max_retry_after cfg)"

definition on_response :: "client_config \<Rightarrow> nat \<Rightarrow> http_response \<Rightarrow> verdict" where
  "on_response cfg attempt r =
     (let status = rs_status r in
      if status = 200 then Return (case rs_accepted r of Inl e \<Rightarrow> Inl (Network e) | Inr n \<Rightarrow> Inr n)
      else if status = 401 then Return (Inl Unauthorized)
      else if (status = 429 \<or> status = 503) \<and> attempt + 1 < max_attempts cfg then
        (if rs_shed_reason r = Some ''unauthorized'' then Return (Inl ScopeDeny)
         else if rs_shed_reason r = Some ''payload_too_large'' then Return (Inl PayloadTooLarge)
         else Wait (retry_wait cfg r))
      else if status = 413 then Return (Inl PayloadTooLarge)
      else if 400 \<le> status \<and> status \<le> 499 then Return (Inl (BadRequest status (text_or_default r)))
      else Return (Inl (ServerError status (text_or_default r))))"

text \<open>The result with the waits that were slept through, in order.\<close>

fun send_loop :: "client_config \<Rightarrow> server \<Rightarrow> http_request \<Rightarrow> nat list \<Rightarrow> nat \<Rightarrow> duration option
    \<Rightarrow> (client_error + usize) \<times> duration list" where
  "send_loop cfg srv rq [] last_status last_retry_after =
     (Inl (RetriesExhausted (max_attempts cfg) last_status last_retry_after), [])"
| "send_loop cfg srv rq (attempt # rest) last_status last_retry_after =
     (case srv attempt rq of
        Inl e \<Rightarrow> (Inl (Network e), [])
      | Inr r \<Rightarrow> (case on_response cfg attempt r of
          Return res \<Rightarrow> (res, [])
        | Wait d \<Rightarrow>
            (case send_loop cfg srv rq rest (rs_status r) (parse_retry_after (rs_retry_after r)) of
               (res, ws) \<Rightarrow> (res, d # ws))))"

definition request_of :: "wire \<Rightarrow> client \<Rightarrow> bytes \<Rightarrow> http_request" where
  "request_of w cl body_json =
     \<lparr> rq_url = base_url cl @ ''/ingest'', rq_authorization = ''Bearer '' @ bearer cl,
       rq_gzip = gzip (cl_config cl),
       rq_body = (if gzip (cl_config cl) then gzip_encode w body_json else body_json) \<rparr>"

definition send_batch :: "wire \<Rightarrow> client \<Rightarrow> server \<Rightarrow> client_event list \<Rightarrow> (client_error + usize) \<times> duration list" where
  "send_batch w cl srv events =
     (if events = [] then (Inr 0, [])
      else case envelope_to_vec w events of
        Inl e \<Rightarrow> (Inl (Serialize e), [])
      | Inr body_json \<Rightarrow>
          send_loop (cl_config cl) srv (request_of w cl body_json) [0..<max_attempts (cl_config cl)] 0 None)"

definition send_one :: "wire \<Rightarrow> client \<Rightarrow> server \<Rightarrow> client_event \<Rightarrow> (client_error + usize) \<times> duration list" where
  "send_one w cl srv e = send_batch w cl srv [e]"

section \<open>The blocking client\<close>

text \<open>\<open>crates/client/src/blocking.rs\<close>, with its own order of cases and its own header parsing.\<close>

definition blocking_retry_after :: "string option \<Rightarrow> duration option" where
  "blocking_retry_after h = Option.bind h (\<lambda>s. map_option from_secs (parse_uint u64_max (trim s)))"

definition blocking_on_response :: "client_config \<Rightarrow> nat \<Rightarrow> http_response \<Rightarrow> verdict" where
  "blocking_on_response cfg attempt r =
     (let status = rs_status r in
      if status = 200 then Return (case rs_accepted r of Inl e \<Rightarrow> Inl (Network e) | Inr n \<Rightarrow> Inr n)
      else if status = 401 then Return (Inl Unauthorized)
      else if status = 413 then Return (Inl PayloadTooLarge)
      else if (status = 429 \<or> status = 503) \<and> attempt + 1 < max_attempts cfg then
        (if rs_shed_reason r = Some ''unauthorized'' then Return (Inl ScopeDeny)
         else if rs_shed_reason r = Some ''payload_too_large'' then Return (Inl PayloadTooLarge)
         else Wait (min (case blocking_retry_after (rs_retry_after r) of Some d \<Rightarrow> d
                          | None \<Rightarrow> default_retry_after cfg) (max_retry_after cfg)))
      else if 400 \<le> status \<and> status \<le> 499 then Return (Inl (BadRequest status (text_or_default r)))
      else Return (Inl (ServerError status (text_or_default r))))"

fun blocking_loop :: "client_config \<Rightarrow> server \<Rightarrow> http_request \<Rightarrow> nat list \<Rightarrow> nat \<Rightarrow> duration option
    \<Rightarrow> (client_error + usize) \<times> duration list" where
  "blocking_loop cfg srv rq [] last_status last_retry_after =
     (Inl (RetriesExhausted (max_attempts cfg) last_status last_retry_after), [])"
| "blocking_loop cfg srv rq (attempt # rest) last_status last_retry_after =
     (case srv attempt rq of
        Inl e \<Rightarrow> (Inl (Network e), [])
      | Inr r \<Rightarrow> (case blocking_on_response cfg attempt r of
          Return res \<Rightarrow> (res, [])
        | Wait d \<Rightarrow>
            (case blocking_loop cfg srv rq rest (rs_status r) (blocking_retry_after (rs_retry_after r)) of
               (res, ws) \<Rightarrow> (res, d # ws))))"

definition blocking_send_batch :: "wire \<Rightarrow> client \<Rightarrow> server \<Rightarrow> client_event list
    \<Rightarrow> (client_error + usize) \<times> duration list" where
  "blocking_send_batch w cl srv events =
     (if events = [] then (Inr 0, [])
      else case envelope_to_vec w events of
        Inl e \<Rightarrow> (Inl (Serialize e), [])
      | Inr body_json \<Rightarrow>
          blocking_loop (cl_config cl) srv (request_of w cl body_json) [0..<max_attempts (cl_config cl)] 0 None)"

text \<open>The blocking client has the fields of the async one.\<close>

definition blocking_with_config :: "string \<Rightarrow> string \<Rightarrow> client_config \<Rightarrow> client" where
  "blocking_with_config url token cfg = \<lparr> base_url = url, bearer = token, cl_config = cfg \<rparr>"

definition blocking_new :: "string \<Rightarrow> string \<Rightarrow> client" where
  "blocking_new url token = blocking_with_config url token client_config_default"

definition blocking_send_one :: "wire \<Rightarrow> client \<Rightarrow> server \<Rightarrow> client_event \<Rightarrow> (client_error + usize) \<times> duration list" where
  "blocking_send_one w cl srv e = blocking_send_batch w cl srv [e]"

section \<open>The batcher\<close>

record batcher_config =
  bc_max_batch :: usize
  bc_flush_interval :: duration
  bc_queue_depth :: usize

definition batcher_config_default :: batcher_config where
  "batcher_config_default = \<lparr> bc_max_batch = 64, bc_flush_interval = from_millis 500, bc_queue_depth = 1024 \<rparr>"

text \<open>The bounded queue between producers and the task; \<open>open\<close> is false once the task has ended.\<close>

definition try_enqueue :: "batcher_config \<Rightarrow> bool \<Rightarrow> client_event \<Rightarrow> client_event list
    \<Rightarrow> client_event list \<times> (client_event + unit)" where
  "try_enqueue cfg is_open e queue =
     (if \<not> is_open then (queue, Inl e)
      else if length queue < bc_queue_depth cfg then (queue @ [e], Inr ())
      else (queue, Inl e))"

text \<open>The task, with the batches it has sent and what became of them.\<close>

record batcher =
  ba_client :: client
  ba_config :: batcher_config
  ba_buf :: "client_event list"
  ba_sent :: "(client_event list \<times> (client_error + usize)) list"

definition batcher_new :: "client \<Rightarrow> batcher_config \<Rightarrow> batcher" where
  "batcher_new cl cfg = \<lparr> ba_client = cl, ba_config = cfg, ba_buf = [], ba_sent = [] \<rparr>"

definition batcher_flush :: "wire \<Rightarrow> server \<Rightarrow> batcher \<Rightarrow> batcher" where
  "batcher_flush w srv b =
     (let to_send = ba_buf b
      in b\<lparr> ba_buf := [], ba_sent := ba_sent b @ [(to_send, fst (send_batch w (ba_client b) srv to_send))] \<rparr>)"

definition batcher_push :: "client_event \<Rightarrow> batcher \<Rightarrow> batcher" where
  "batcher_push e b = b\<lparr> ba_buf := ba_buf b @ [e] \<rparr>"

fun batcher_step :: "wire \<Rightarrow> server \<Rightarrow> client_event batch_input \<Rightarrow> batcher \<Rightarrow> batcher" where
  "batcher_step w srv (Recv e) b =
     (let b' = batcher_push e b in
      if length (ba_buf b') \<ge> bc_max_batch (ba_config b) then batcher_flush w srv b' else b')"
| "batcher_step w srv Tick b = (if ba_buf b = [] then b else batcher_flush w srv b)"
| "batcher_step w srv Closed b = (if ba_buf b = [] then b else batcher_flush w srv b)"

definition batcher_run :: "wire \<Rightarrow> (server \<times> client_event batch_input) list \<Rightarrow> batcher \<Rightarrow> batcher" where
  "batcher_run w is b = fold (\<lambda>(srv, i). batcher_step w srv i) is b"

section \<open>The retry loop\<close>

lemma on_response_wait:
  "on_response cfg attempt r = Wait d \<Longrightarrow> attempt + 1 < max_attempts cfg \<and> d = retry_wait cfg r
     \<and> d \<le> max_retry_after cfg"
  by (auto simp: on_response_def Let_def retry_wait_def split: if_split_asm)

text \<open>What an exchange makes of attempt \<open>n\<close>.\<close>

definition verdict_at :: "client_config \<Rightarrow> server \<Rightarrow> http_request \<Rightarrow> nat \<Rightarrow> verdict" where
  "verdict_at cfg srv rq n = (case srv n rq of
     Inl e \<Rightarrow> Return (Inl (Network e)) | Inr r \<Rightarrow> on_response cfg n r)"

lemma verdict_at_wait:
  "verdict_at cfg srv rq n = Wait d \<Longrightarrow> n + 1 < max_attempts cfg \<and> d \<le> max_retry_after cfg"
  using on_response_wait by (auto simp: verdict_at_def split: sum.split_asm)

lemma send_loop_step:
  "send_loop cfg srv rq (n # rest) ls lr = (case verdict_at cfg srv rq n of
     Return res \<Rightarrow> (res, [])
   | Wait d \<Rightarrow> (let (res, ws) = send_loop cfg srv rq rest (rs_status (projr (srv n rq)))
        (parse_retry_after (rs_retry_after (projr (srv n rq)))) in (res, d # ws)))"
  by (simp add: verdict_at_def Let_def split: sum.split verdict.split)

lemma send_loop_first:
  assumes "m < max_attempts cfg"
  shows "\<exists>n res. m \<le> n \<and> n < max_attempts cfg \<and> verdict_at cfg srv rq n = Return res
    \<and> (\<forall>i. m \<le> i \<longrightarrow> i < n \<longrightarrow> (\<exists>d. verdict_at cfg srv rq i = Wait d))
    \<and> send_loop cfg srv rq [m..<max_attempts cfg] ls lr
        = (res, map (\<lambda>i. case verdict_at cfg srv rq i of Wait d \<Rightarrow> d | Return _ \<Rightarrow> 0) [m..<n])"
  using assms
proof (induction "max_attempts cfg - m" arbitrary: m ls lr)
  case (Suc k)
  have upt: "[m..<max_attempts cfg] = m # [Suc m..<max_attempts cfg]" using Suc.prems by (rule upt_conv_Cons)
  show ?case
  proof (cases "verdict_at cfg srv rq m")
    case (Return res)
    then show ?thesis
      using Suc.prems by (intro exI [of _ m] exI [of _ res]) (simp add: upt send_loop_step del: send_loop.simps)
  next
    case (Wait d)
    then have "Suc m < max_attempts cfg" using verdict_at_wait by fastforce
    moreover have "k = max_attempts cfg - Suc m" using Suc(2) by simp
    ultimately obtain n res where n: "Suc m \<le> n" "n < max_attempts cfg" "verdict_at cfg srv rq n = Return res"
        "\<forall>i. Suc m \<le> i \<longrightarrow> i < n \<longrightarrow> (\<exists>d. verdict_at cfg srv rq i = Wait d)"
        "send_loop cfg srv rq [Suc m..<max_attempts cfg] (rs_status (projr (srv m rq)))
            (parse_retry_after (rs_retry_after (projr (srv m rq))))
          = (res, map (\<lambda>i. case verdict_at cfg srv rq i of Wait d \<Rightarrow> d | Return _ \<Rightarrow> 0) [Suc m..<n])"
      using Suc(1) by blast
    have "\<exists>d. verdict_at cfg srv rq i = Wait d" if "m \<le> i" "i < n" for i
      using that Wait n(4) by (cases "i = m") auto
    moreover have "[m..<n] = m # [Suc m..<n]" using n(1) by (simp add: upt_conv_Cons)
    ultimately show ?thesis
      using n Wait by (intro exI [of _ n] exI [of _ res]) (simp add: upt send_loop_step del: send_loop.simps)
  qed
qed simp

lemma on_response_blocking: "blocking_on_response cfg attempt r = on_response cfg attempt r"
  by (auto simp: blocking_on_response_def on_response_def Let_def retry_wait_def blocking_retry_after_def
      parse_retry_after_def split: option.split)

lemma retry_after_blocking: "blocking_retry_after h = parse_retry_after h"
  by (cases h) (simp_all add: blocking_retry_after_def parse_retry_after_def)

lemma loop_blocking: "blocking_loop cfg srv rq ns ls lr = send_loop cfg srv rq ns ls lr"
  by (induction ns arbitrary: ls lr)
    (simp_all add: on_response_blocking retry_after_blocking split: sum.split verdict.split)

interpretation ba: batch_task "\<lambda>e. e" ba_buf "\<lambda>b. (ba_client b, ba_sent b)" "\<lambda>b. bc_max_batch (ba_config b)"
    batcher_push "batcher_flush w" "batcher_step w"
    "\<lambda>srv b (cl, sent). (cl, sent @ [(b, fst (send_batch w cl srv b))])" for w
  by unfold_locales (auto simp: batcher_push_def batcher_flush_def Let_def)

lemma ba_run_eq: "ba.run w is b = batcher_run w is b"
  by (simp add: ba.run_def batcher_run_def)

lemma ba_deliveries:
  "\<exists>rs. snd (fold (\<lambda>(srv, b). (\<lambda>(cl, sent). (cl, sent @ [(b, fst (send_batch w cl srv b))]))) ds (cl, sent))
     = sent @ rs \<and> map fst rs = map snd ds"
proof (induction ds arbitrary: sent)
  case (Cons d ds)
  obtain srv b where d: "d = (srv, b)" by (cases d)
  from Cons.IH [of "sent @ [(b, fst (send_batch w cl srv b))]"] obtain rs where
    "snd (fold (\<lambda>(srv, b). (\<lambda>(cl, sent). (cl, sent @ [(b, fst (send_batch w cl srv b))]))) ds
        (cl, sent @ [(b, fst (send_batch w cl srv b))])) = (sent @ [(b, fst (send_batch w cl srv b))]) @ rs"
    "map fst rs = map snd ds" by blast
  then show ?case
    by (intro exI [of _ "(b, fst (send_batch w cl srv b)) # rs"]) (simp add: d)
qed simp

lemma send_batch_answer:
  assumes "events \<noteq> []" and "envelope_to_vec w events = Inr body" and "0 < max_attempts (cl_config cl)"
  shows "\<exists>n res ws. n < max_attempts (cl_config cl) \<and> send_batch w cl srv events = (res, ws)
    \<and> verdict_at (cl_config cl) srv (request_of w cl body) n = Return res
    \<and> (\<forall>i < n. verdict_at (cl_config cl) srv (request_of w cl body) i = Wait (ws ! i))
    \<and> length ws = n \<and> list_all (\<lambda>d. d \<le> max_retry_after (cl_config cl)) ws"
proof -
  let ?cfg = "cl_config cl" and ?rq = "request_of w cl body"
  let ?d = "\<lambda>i. case verdict_at ?cfg srv ?rq i of Wait d \<Rightarrow> d | Return _ \<Rightarrow> 0"
  obtain n res where n: "n < max_attempts ?cfg" "verdict_at ?cfg srv ?rq n = Return res"
      "\<forall>i. 0 \<le> i \<longrightarrow> i < n \<longrightarrow> (\<exists>d. verdict_at ?cfg srv ?rq i = Wait d)"
      "send_loop ?cfg srv ?rq [0..<max_attempts ?cfg] 0 None = (res, map ?d [0..<n])"
    using send_loop_first [OF assms(3)] by blast
  have wait: "verdict_at ?cfg srv ?rq i = Wait (?d i)" if "i < n" for i using n(3) that by fastforce
  then have "list_all (\<lambda>d. d \<le> max_retry_after ?cfg) (map ?d [0..<n])"
    using verdict_at_wait by (fastforce simp: list_all_iff)
  moreover have "send_batch w cl srv events = (res, map ?d [0..<n])"
    using assms(1,2) n(4) by (simp add: send_batch_def)
  ultimately show ?thesis
    using n(1,2) wait by (intro exI [of _ n] exI [of _ res] exI [of _ "map ?d [0..<n]"]) simp
qed

section \<open>Properties\<close>

text \<open>
  C27. The retry loop terminates with the first conclusive answer: with at least one attempt there is
  an attempt \<open>n\<close>, below \<open>max_attempts\<close>, such that every earlier response asked to wait, the answer to
  attempt \<open>n\<close> is final and is what \<open>send_batch\<close> returns, and the client slept once before each later
  attempt, never longer than \<open>max_retry_after\<close>.
\<close>

theorem send_batch_first_answer:
  assumes "events \<noteq> []" and "envelope_to_vec w events = Inr body" and "0 < max_attempts (cl_config cl)"
  shows "\<exists>n res ws. n < max_attempts (cl_config cl) \<and> send_batch w cl srv events = (res, ws)
    \<and> verdict_at (cl_config cl) srv (request_of w cl body) n = Return res
    \<and> (\<forall>i < n. verdict_at (cl_config cl) srv (request_of w cl body) i = Wait (ws ! i))
    \<and> length ws = n \<and> list_all (\<lambda>d. d \<le> max_retry_after (cl_config cl)) ws"
  using assms by (rule send_batch_answer)

definition demo_wire :: wire where
  "demo_wire = \<lparr> envelope_to_vec = (\<lambda>_. Inr ''{}''), gzip_encode = (\<lambda>b. b) \<rparr>"

definition demo_server :: server where
  "demo_server n rq = Inr (if n = 0
     then \<lparr> rs_status = 429, rs_shed_reason = Some ''rate_limit'', rs_retry_after = None, rs_accepted = Inl [], rs_text = None \<rparr>
     else \<lparr> rs_status = 200, rs_shed_reason = None, rs_retry_after = None, rs_accepted = Inr 1, rs_text = None \<rparr>)"

theorem send_batch_first_answer_witness:
  "\<exists>res ws. send_batch demo_wire \<lparr> base_url = ''http://h'', bearer = ''t'', cl_config = client_config_default \<rparr>
     demo_server [client_event_new ''s'' ''k'' 1 Null] = (res, ws) \<and> length ws < 4"
proof -
  have "envelope_to_vec demo_wire [client_event_new ''s'' ''k'' 1 Null] = Inr ''{}''"
      "max_attempts client_config_default = 4"
    by (simp_all add: demo_wire_def client_config_default_def)
  then show ?thesis
    using send_batch_first_answer [of "[client_event_new ''s'' ''k'' 1 Null]" demo_wire "''{}''"
        "\<lparr> base_url = ''http://h'', bearer = ''t'', cl_config = client_config_default \<rparr>" demo_server]
    by auto
qed

text \<open>
  C28. The blocking client and the async client are the same function: they are set up alike, and for every configuration,
  batch and sequence of server answers they return the same result after the same waits.
\<close>

theorem blocking_equals_async:
  "blocking_send_batch w cl srv events = send_batch w cl srv events
   \<and> blocking_send_one w cl srv e = send_one w cl srv e
   \<and> blocking_with_config url token cfg = client_with_config url token cfg \<and> blocking_new url token = client_new url token"
proof -
  have "blocking_send_batch w cl srv es = send_batch w cl srv es" for es
    by (simp add: blocking_send_batch_def send_batch_def loop_blocking split: sum.split)
  then show ?thesis
    by (simp add: blocking_send_one_def send_one_def blocking_with_config_def client_with_config_def blocking_new_def
        client_new_def)
qed

text \<open>
  \<open>RetriesExhausted\<close> is reported only by a client configured with zero attempts: with one or more,
  a server that sheds every attempt makes the last one return \<open>BadRequest\<close> (429) or \<open>ServerError\<close>
  (503) instead.
\<close>

lemma retries_exhausted_unreachable:
  "(case fst (send_batch w cl srv events) of Inl (RetriesExhausted _ _ _) \<Rightarrow> max_attempts (cl_config cl) = 0 | _ \<Rightarrow> True)"
proof (cases "max_attempts (cl_config cl) = 0 \<or> events = [] \<or> (\<exists>e. envelope_to_vec w events = Inl e)")
  case True
  then show ?thesis by (auto simp: send_batch_def split: sum.split client_error.split)
next
  case False
  then obtain body where body: "envelope_to_vec w events = Inr body" by (cases "envelope_to_vec w events") auto
  have never: "on_response cfg n r \<noteq> Return (Inl (RetriesExhausted a b c))" for cfg n r a b c
    by (auto simp: on_response_def Let_def split: sum.split)
  obtain n res ws where "send_batch w cl srv events = (res, ws)"
      "verdict_at (cl_config cl) srv (request_of w cl body) n = Return res"
    using send_batch_answer [OF _ body, of cl srv] False by blast
  then show ?thesis
    using never by (auto simp: verdict_at_def split: sum.split sum.split_asm client_error.split)
qed

text \<open>
  The batcher sends every event once and in order: when its queue has closed, the batches it has
  sent, joined, are the events it received, and each batch is non-empty and at most \<open>max_batch\<close> long.
\<close>

lemma batcher_sends_all:
  "let b = batcher_run w (is @ [(srv, Closed)]) (batcher_new cl cfg)
   in ba_buf b = [] \<and> concat (map fst (ba_sent b)) = received (map snd is)
      \<and> list_all (\<lambda>x. fst x \<noteq> [] \<and> length (fst x) \<le> max 1 (bc_max_batch cfg)) (ba_sent b)"
proof -
  let ?init = "batcher_new cl cfg" and ?b = "batcher_run w (is @ [(srv, Closed)]) (batcher_new cl cfg)"
  have start: "ba_buf ?init = []" "ba_sent ?init = []" "bc_max_batch (ba_config ?init) = bc_max_batch cfg"
    by (simp_all add: batcher_new_def)
  obtain ds where ds: "(ba_client ?b, ba_sent ?b)
        = fold (\<lambda>(srv, b). (\<lambda>(cl, sent). (cl, sent @ [(b, fst (send_batch w cl srv b))]))) ds (ba_client ?init, [])"
      "list_all (ba.batch_ok (bc_max_batch cfg) \<circ> snd) ds" "concat (map snd ds) = received (map snd is)"
    using ba.run_closed_batches [OF start(1), of w "is" srv] unfolding ba_run_eq list.map_ident start(2,3) by blast
  have "ba_sent ?b = snd (ba_client ?b, ba_sent ?b)" by simp
  then obtain rs where rs: "ba_sent ?b = rs" "map fst rs = map snd ds"
    using ba_deliveries [of w ds "ba_client ?init" "[]"] unfolding ds(1) append_Nil by blast
  have "list_all (ba.batch_ok (bc_max_batch cfg)) (map fst rs)"
    unfolding rs(2) using ds(2) by (simp only: list.pred_map)
  then have "list_all (\<lambda>x. fst x \<noteq> [] \<and> length (fst x) \<le> max 1 (bc_max_batch cfg)) rs"
    by (simp only: list.pred_map comp_def ba.batch_ok_def)
  moreover have "ba_buf ?b = []" using ba.run_closed [of w "is" srv ?init] by (simp add: ba_run_eq)
  ultimately show ?thesis
    using rs ds(3) by (simp add: Let_def)
qed

end
