(* ===== verification/Forwarder.thy ===== *)
theory Forwarder
  imports Client_Sdk
begin

text \<open>
  \<open>crates/percept/src/forwarder.rs\<close>: the task that forwards canonical events to a hub through the
  client SDK, with the peer's prefix on every source id.
\<close>

section \<open>State and steps\<close>

record forwarder_config =
  fc_peer_id :: string
  fc_batch_size :: usize
  fc_batch_age :: duration

definition forwarder_config_default :: forwarder_config where
  "forwarder_config_default = \<lparr> fc_peer_id = ''edge'', fc_batch_size = 64, fc_batch_age = from_millis 500 \<rparr>"

record forwarder_metrics =
  fm_batches_sent :: u64
  fm_events_forwarded :: u64
  fm_events_dropped :: u64
  fm_send_errors :: u64

record forwarder =
  fw_client :: client
  fw_config :: forwarder_config
  fw_metrics :: forwarder_metrics
  fw_buf :: "client_event list"

definition forwarder_new :: "client \<Rightarrow> forwarder_config \<Rightarrow> forwarder" where
  "forwarder_new cl cfg = \<lparr> fw_client = cl, fw_config = cfg,
     fw_metrics = \<lparr> fm_batches_sent = 0, fm_events_forwarded = 0, fm_events_dropped = 0, fm_send_errors = 0 \<rparr>,
     fw_buf = [] \<rparr>"

definition to_client_event :: "string \<Rightarrow> event \<Rightarrow> client_event" where
  "to_client_event peer_id e =
     (let out = with_event_id (event_id e)
            (client_event_new (peer_id @ ''.'' @ source_id e) (kind e) (ts_ms_utc e) (semantic e));
          out = (case trace_id e of Some t \<Rightarrow> with_trace_id t out | None \<Rightarrow> out)
      in (case producer_id e of Some p \<Rightarrow> with_producer_id p out | None \<Rightarrow> out))"

definition count_send :: "nat \<Rightarrow> client_error + usize \<Rightarrow> forwarder_metrics \<Rightarrow> forwarder_metrics" where
  "count_send n res m = (case res of
     Inr accepted \<Rightarrow>
       (let m1 = m\<lparr> fm_batches_sent := fm_batches_sent m + 1,
                    fm_events_forwarded := fm_events_forwarded m + accepted \<rparr>
        in if accepted < n then m1\<lparr> fm_events_dropped := fm_events_dropped m1 + (n - accepted) \<rparr> else m1)
   | Inl _ \<Rightarrow> m\<lparr> fm_send_errors := fm_send_errors m + 1, fm_events_dropped := fm_events_dropped m + n \<rparr>)"

definition forwarder_flush :: "wire \<Rightarrow> server \<Rightarrow> forwarder \<Rightarrow> forwarder" where
  "forwarder_flush w srv f =
     (let n = length (fw_buf f); batch = fw_buf f
      in f\<lparr> fw_buf := [],
            fw_metrics := count_send n (fst (send_batch w (fw_client f) srv batch)) (fw_metrics f) \<rparr>)"

definition forwarder_push :: "event \<Rightarrow> forwarder \<Rightarrow> forwarder" where
  "forwarder_push e f = f\<lparr> fw_buf := fw_buf f @ [to_client_event (fc_peer_id (fw_config f)) e] \<rparr>"

fun forwarder_step :: "wire \<Rightarrow> server \<Rightarrow> event batch_input \<Rightarrow> forwarder \<Rightarrow> forwarder" where
  "forwarder_step w srv (Recv e) f =
     (let f' = forwarder_push e f in
      if length (fw_buf f') \<ge> fc_batch_size (fw_config f) then forwarder_flush w srv f' else f')"
| "forwarder_step w srv Tick f = (if fw_buf f = [] then f else forwarder_flush w srv f)"
| "forwarder_step w srv Closed f = (if fw_buf f = [] then f else forwarder_flush w srv f)"

definition forwarder_run :: "wire \<Rightarrow> (server \<times> event batch_input) list \<Rightarrow> forwarder \<Rightarrow> forwarder" where
  "forwarder_run w is f = fold (\<lambda>(srv, i). forwarder_step w srv i) is f"

section \<open>The loop contract\<close>

text \<open>
  The loop contract speaks of one conversion function, here the one of a fixed peer id; the state is
  paired with it so that the contract holds for every state.
\<close>

type_synonym fw_sink = "client \<times> forwarder_metrics"

definition fw_view :: "string \<Rightarrow> forwarder \<Rightarrow> forwarder" where
  "fw_view peer f = f\<lparr> fw_config := (fw_config f)\<lparr> fc_peer_id := peer \<rparr> \<rparr>"

definition fw_deliver :: "wire \<Rightarrow> server \<Rightarrow> client_event list \<Rightarrow> fw_sink \<Rightarrow> fw_sink" where
  "fw_deliver w srv b = (\<lambda>(cl, m). (cl, count_send (length b) (fst (send_batch w cl srv b)) m))"

interpretation fw: batch_task "to_client_event peer" fw_buf "\<lambda>f. (fw_client f, fw_metrics f)"
    "\<lambda>f. fc_batch_size (fw_config f)" "\<lambda>e f. forwarder_push e (fw_view peer f)" "forwarder_flush w"
    "\<lambda>srv i f. forwarder_step w srv i (case i of Recv _ \<Rightarrow> fw_view peer f | _ \<Rightarrow> f)" "fw_deliver w" for w peer
  by unfold_locales (auto simp: forwarder_push_def forwarder_flush_def fw_view_def fw_deliver_def Let_def)

lemma fw_view_id: "fc_peer_id (fw_config f) = peer \<Longrightarrow> fw_view peer f = f"
  by (simp add: fw_view_def)

lemma forwarder_step_peer: "fw_config (forwarder_step w srv i f) = fw_config f"
  by (cases i) (simp_all add: forwarder_push_def forwarder_flush_def Let_def)

lemma fw_run_eq:
  "fc_peer_id (fw_config f) = peer \<Longrightarrow> fw.run w peer is f = forwarder_run w is f"
proof (induction "is" arbitrary: f)
  case (Cons p "is")
  obtain srv i where p: "p = (srv, i)" by (cases p)
  have "(case i of Recv _ \<Rightarrow> fw_view peer f | _ \<Rightarrow> f) = f"
    using Cons.prems by (simp add: fw_view_id split: batch_input.split)
  moreover have "fc_peer_id (fw_config (forwarder_step w srv i f)) = peer"
    using Cons.prems by (simp add: forwarder_step_peer)
  ultimately show ?case
    using Cons.IH [of "forwarder_step w srv i f"] by (simp add: p fw.run_simps forwarder_run_def)
qed (simp add: fw.run_simps forwarder_run_def)

lemma count_send_total:
  assumes "\<And>a. res = Inr a \<Longrightarrow> a \<le> n"
  shows "fm_events_forwarded (count_send n res m) + fm_events_dropped (count_send n res m)
    = fm_events_forwarded m + fm_events_dropped m + n"
  using assms by (cases res) (auto simp: count_send_def Let_def)

text \<open>A server that reports no more accepted events than it was sent.\<close>

definition honest :: "wire \<Rightarrow> client \<Rightarrow> server \<Rightarrow> bool" where
  "honest w cl srv \<longleftrightarrow> (\<forall>b a. fst (send_batch w cl srv b) = Inr a \<longrightarrow> a \<le> length b)"

lemma fw_deliveries_total:
  assumes "\<forall>srv \<in> set (map fst ds). honest w cl srv"
  shows "\<exists>m'. fold (\<lambda>(srv, b). fw_deliver w srv b) ds (cl, m) = (cl, m')
    \<and> fm_events_forwarded m' + fm_events_dropped m'
      = fm_events_forwarded m + fm_events_dropped m + length (concat (map snd ds))"
  using assms
proof (induction ds arbitrary: m)
  case (Cons d ds)
  obtain srv b where d: "d = (srv, b)" by (cases d)
  let ?m = "count_send (length b) (fst (send_batch w cl srv b)) m"
  have "honest w cl srv" using Cons.prems by (simp add: d)
  then have "fm_events_forwarded ?m + fm_events_dropped ?m
      = fm_events_forwarded m + fm_events_dropped m + length b"
    by (intro count_send_total) (simp add: honest_def)
  moreover obtain m' where "fold (\<lambda>(srv, b). fw_deliver w srv b) ds (cl, ?m) = (cl, m')"
      "fm_events_forwarded m' + fm_events_dropped m'
        = fm_events_forwarded ?m + fm_events_dropped ?m + length (concat (map snd ds))"
    using Cons.IH [of ?m] Cons.prems by auto
  ultimately show ?case by (simp add: d fw_deliver_def)
qed simp

text \<open>What has been counted, and what is in the buffer, after any run.\<close>

lemma forwarder_run_total:
  assumes "list_all (\<lambda>p. honest w cl (fst p)) is"
  shows "let f = forwarder_run w is (forwarder_new cl cfg)
    in fm_events_forwarded (fw_metrics f) + fm_events_dropped (fw_metrics f) + length (fw_buf f) = length (received (map snd is))"
proof -
  let ?init = "forwarder_new cl cfg" and ?f = "forwarder_run w is (forwarder_new cl cfg)"
  have start: "fw_buf ?init = []" "fw_client ?init = cl" by (simp_all add: forwarder_new_def)
  have "fc_peer_id (fw_config ?init) = fc_peer_id cfg" by (simp add: forwarder_new_def)
  note run = fw_run_eq [OF this, of w "is"]
  obtain ds where ds: "(fw_client ?f, fw_metrics ?f) = fold (\<lambda>(srv, b). fw_deliver w srv b) ds (cl, fw_metrics ?init)"
      "set (map fst ds) \<subseteq> set (map fst is)"
      "concat (map snd ds) @ fw_buf ?f = map (to_client_event (fc_peer_id cfg)) (received (map snd is))"
    using fw.run_batches_empty [OF start(1), of w "fc_peer_id cfg" "is"] unfolding run start(2) by blast
  have "\<forall>s \<in> set (map fst ds). honest w cl s" using ds(2) assms by (fastforce simp: list_all_iff)
  from fw_deliveries_total [OF this, of "fw_metrics ?init"] obtain m' where
    m: "(fw_client ?f, fw_metrics ?f) = (cl, m')"
      "fm_events_forwarded m' + fm_events_dropped m' = fm_events_forwarded (fw_metrics ?init)
        + fm_events_dropped (fw_metrics ?init) + length (concat (map snd ds))"
    unfolding ds(1) by blast
  then show ?thesis
    using arg_cong [OF ds(3), of length] by (simp add: forwarder_new_def Let_def)
qed

section \<open>Properties\<close>

text \<open>
  C34. The forwarder accounts for every event: with hubs that never report more accepted events than they were
  sent, after any inputs the events forwarded, the events dropped and the events still buffered add up to the
  events received; and when its input closes then, nothing stays buffered and the forwarded and the dropped ones
  are all of them.
\<close>

theorem forwarder_accounting:
  assumes "list_all (\<lambda>p. honest w cl (fst p)) is" and "honest w cl srv"
  shows "let f = forwarder_run w is (forwarder_new cl cfg); f' = forwarder_step w srv Closed f
    in fm_events_forwarded (fw_metrics f) + fm_events_dropped (fw_metrics f) + length (fw_buf f) = length (received (map snd is))
      \<and> fw_buf f' = []
      \<and> fm_events_forwarded (fw_metrics f') + fm_events_dropped (fw_metrics f') = length (received (map snd is))"
proof -
  have "list_all (\<lambda>p. honest w cl (fst p)) (is @ [(srv, Closed)])" using assms by simp
  from forwarder_run_total [OF this, of cfg]
  have "(let f' = forwarder_step w srv Closed (forwarder_run w is (forwarder_new cl cfg)) in
      fm_events_forwarded (fw_metrics f') + fm_events_dropped (fw_metrics f') + length (fw_buf f') = length (received (map snd is)))"
    by (simp add: forwarder_run_def received_append)
  moreover have "fw_buf (forwarder_step w srv Closed f) = []" for f by (simp add: forwarder_flush_def Let_def)
  ultimately show ?thesis using forwarder_run_total [OF assms(1), of cfg] by (simp only: Let_def) simp
qed

text \<open>A hub that is down, and batches of two.\<close>

theorem forwarder_accounting_witness:
  "let down = (\<lambda>_ _. Inl ''down''); e = sample_event 1 ''s'' ''k'' 7;
       f = forwarder_run demo_wire [(down, Recv e), (down, Recv e), (down, Recv e)]
         (forwarder_new \<lparr> base_url = ''http://hub'', bearer = ''t'', cl_config = client_config_default \<rparr>
           (forwarder_config_default\<lparr> fc_batch_size := 2 \<rparr>))
   in length (fw_buf f) = 1 \<and> fm_events_forwarded (fw_metrics f) + fm_events_dropped (fw_metrics f) = 2"
proof -
  let ?cl = "\<lparr> base_url = ''http://hub'', bearer = ''t'', cl_config = client_config_default \<rparr>"
  let ?cfg = "forwarder_config_default\<lparr> fc_batch_size := 2 \<rparr>"
  let ?down = "(\<lambda>_ _. Inl ''down'') :: server" and ?e = "sample_event 1 ''s'' ''k'' 7"
  let ?is = "[(?down, Recv ?e), (?down, Recv ?e), (?down, Recv ?e)]"
  have "honest demo_wire ?cl ?down"
    by (auto simp: honest_def send_batch_def demo_wire_def client_config_default_def upt_rec split: if_split_asm)
  then have "fm_events_forwarded (fw_metrics f) + fm_events_dropped (fw_metrics f) + length (fw_buf f) = 3"
    if "f = forwarder_run demo_wire ?is (forwarder_new ?cl ?cfg)" for f
    using forwarder_accounting [of demo_wire ?cl ?is ?down ?cfg] that by (simp add: Let_def numeral_3_eq_3)
  moreover have "length (fw_buf (forwarder_run demo_wire ?is (forwarder_new ?cl ?cfg))) = 1"
    by (simp add: forwarder_run_def forwarder_new_def forwarder_push_def forwarder_flush_def forwarder_config_default_def Let_def)
  ultimately show ?thesis by (simp add: Let_def)
qed

text \<open>
  Forwarding keeps an event's identity and payload, qualifies its source with the peer id, and
  drops its links: the converted event never carries any.
\<close>

lemma to_client_event_fields:
  "ce_event_id (to_client_event peer e) = Some (event_id e)
   \<and> ce_source_id (to_client_event peer e) = peer @ CHR ''.'' # source_id e
   \<and> ce_kind (to_client_event peer e) = kind e \<and> ce_ts_ms_utc (to_client_event peer e) = ts_ms_utc e
   \<and> ce_semantic (to_client_event peer e) = semantic e \<and> ce_trace_id (to_client_event peer e) = trace_id e
   \<and> ce_producer_id (to_client_event peer e) = producer_id e \<and> ce_links (to_client_event peer e) = None"
  by (simp add: to_client_event_def Let_def client_event_new_def with_event_id_def with_trace_id_def
      with_producer_id_def split: option.split)

end
