(* ===== verification/Cold_Sweep.thy ===== *)
theory Cold_Sweep
  imports Cold_Invariant
begin

text \<open>
  The three sweeps of the cold store (\<open>sweep_max_age\<close>, \<open>sweep_max_count\<close>, \<open>sweep_max_bytes\<close>).
  They share a contract, the locale \<open>pair_sweep\<close>: a dry run changes nothing and predicts the number
  of the run that follows, an executed sweep deletes rows of its own pair only, and reports how
  many. The retention sweeper relies on nothing else.
\<close>

section \<open>The contract\<close>

locale pair_sweep =
  fixes op :: "sql_error option \<Rightarrow> bool \<Rightarrow> cold_store \<Rightarrow> cold_store \<times> (cold_error + u64)"
    and s k :: string
  assumes op_fault: "op (Some x) dry st = (st, Inl (Sqlite x))"
    and op_dry_state: "fst (op None True st) = st"
    and op_dry_count: "cold_inv c st \<Longrightarrow> snd (op None True st) = snd (op None False st)"
    and op_delete: "cold_inv c st \<Longrightarrow>
      \<exists>P. (\<forall>r. P r \<longrightarrow> r \<in> set (events_tbl st) \<longrightarrow> row_key r = (s, k))
        \<and> op None False st = (fst (delete_where P st), Inr (snd (delete_where P st)))"
begin

lemma op_cases:
  assumes "cold_inv c st"
  obtains P n where "\<forall>r \<in> set (events_tbl st). P r \<longrightarrow> row_key r = (s, k)"
    and "op None False st = (st\<lparr> events_tbl := filter (\<lambda>r. \<not> P r) (events_tbl st) \<rparr>, Inr n)"
    and "n = length (filter P (events_tbl st))"
  using op_delete [OF assms] by (auto simp: delete_where_def)

lemma op_inv: "cold_inv c st \<Longrightarrow> cold_inv c (fst (op db dry st))"
proof (cases db)
  case None
  assume inv: "cold_inv c st"
  show ?thesis
  proof (cases dry)
    case True
    then show ?thesis using None inv by (simp add: op_dry_state)
  next
    case False
    obtain P where "op None False st = (fst (delete_where P st), Inr (snd (delete_where P st)))"
      using op_delete [OF inv] by blast
    then have "fst (op None False st) = fst (delete_where P st)" by simp
    then show ?thesis using None False cold_inv_delete [OF inv] by simp
  qed
qed (simp add: op_fault)

lemma op_latest: "cold_inv c st \<Longrightarrow> latest_tbl (fst (op db dry st)) = latest_tbl st"
  by (cases db; cases dry) (auto simp: op_fault op_dry_state elim: op_cases)

lemma op_other_pairs:
  assumes "cold_inv c st" and "(s', k') \<noteq> (s, k)"
  shows "pair_rows s' k' (fst (op db dry st)) = pair_rows s' k' st"
proof (cases "db = None \<and> \<not> dry")
  case True
  obtain P n where P: "\<forall>r \<in> set (events_tbl st). P r \<longrightarrow> row_key r = (s, k)"
    and op: "op None False st = (st\<lparr> events_tbl := filter (\<lambda>r. \<not> P r) (events_tbl st) \<rparr>, Inr n)"
    by (rule op_cases [OF assms(1)])
  have "filter (\<lambda>r. row_key r = (s', k')) (filter (\<lambda>r. \<not> P r) (events_tbl st))
      = filter (\<lambda>r. row_key r = (s', k')) (events_tbl st)"
    using P assms(2) by (auto intro: filter_cong)
  then show ?thesis using True op by (simp add: pair_rows_def)
next
  case False
  then show ?thesis by (cases db) (auto simp: op_fault op_dry_state)
qed

lemma op_subset: "cold_inv c st \<Longrightarrow> set (events_tbl (fst (op db dry st))) \<subseteq> set (events_tbl st)"
  by (cases db; cases dry) (auto simp: op_fault op_dry_state elim: op_cases)

text \<open>The reported number is how many rows the pair lost.\<close>

lemma op_count:
  assumes "cold_inv c st"
  shows "\<exists>n. op None False st = (fst (op None False st), Inr n)
    \<and> length (events_tbl (fst (op None False st))) + n = length (events_tbl st)"
proof -
  obtain P n where "op None False st = (st\<lparr> events_tbl := filter (\<lambda>r. \<not> P r) (events_tbl st) \<rparr>, Inr n)"
    and "n = length (filter P (events_tbl st))"
    by (rule op_cases [OF assms])
  then show ?thesis using sum_length_filter_compl [of P "events_tbl st"] by simp
qed

end

section \<open>Age\<close>

interpretation age: pair_sweep "\<lambda>db. cold_sweep_max_age db s k cutoff" s k for s k cutoff
proof
  fix c st
  let ?P = "\<lambda>r. row_key r = (s, k) \<and> c_ts_ms_utc r < cutoff"
  show "\<exists>P. (\<forall>r. P r \<longrightarrow> r \<in> set (events_tbl st) \<longrightarrow> row_key r = (s, k))
      \<and> cold_sweep_max_age None s k cutoff False st = (fst (delete_where P st), Inr (snd (delete_where P st)))"
    by (rule exI [of _ ?P]) (simp add: cold_sweep_max_age_def delete_where_def)
qed (simp_all add: cold_sweep_max_age_def delete_where_def)

section \<open>Count\<close>

lemma distinct_pair_rows: "cold_inv c st \<Longrightarrow> distinct (map c_event_id (pair_rows s k st))"
  by (simp add: cold_inv_def events_ok_def pair_rows_def distinct_map_filter)

lemma set_pair_rows: "r \<in> set (pair_rows s k st) \<longleftrightarrow> r \<in> set (events_tbl st) \<and> row_key r = (s, k)"
  by (simp add: pair_rows_def)

text \<open>Selecting rows of the table by the ids of some rows of the table selects these rows.\<close>

lemma filter_by_ids:
  assumes "distinct (map c_event_id tbl)" and "distinct rows" and "set rows \<subseteq> set tbl"
  shows "length (filter (\<lambda>r. c_event_id r \<in> c_event_id ` set rows) tbl) = length rows"
    and "r \<in> set tbl \<Longrightarrow> c_event_id r \<in> c_event_id ` set rows \<longleftrightarrow> r \<in> set rows"
proof -
  have inj: "inj_on c_event_id (set tbl)" using assms(1) by (simp add: distinct_map)
  then show iff: "r \<in> set tbl \<Longrightarrow> c_event_id r \<in> c_event_id ` set rows \<longleftrightarrow> r \<in> set rows" for r
    using assms(3) by (auto dest: inj_onD)
  have "set (filter (\<lambda>r. c_event_id r \<in> c_event_id ` set rows) tbl) = set rows"
    using iff assms(3) by auto
  moreover have "distinct (filter (\<lambda>r. c_event_id r \<in> c_event_id ` set rows) tbl)"
    using assms(1) by (simp add: distinct_map)
  ultimately show "length (filter (\<lambda>r. c_event_id r \<in> c_event_id ` set rows) tbl) = length rows"
    using assms(2) distinct_card by metis
qed

definition sorted_pair :: "string \<Rightarrow> string \<Rightarrow> cold_store \<Rightarrow> event_row list" where
  "sorted_pair s k st = sort_key row_pos (pair_rows s k st)"

lemma sorted_pair_facts:
  assumes "cold_inv c st"
  shows "distinct (sorted_pair s k st)" and "set (sorted_pair s k st) = set (pair_rows s k st)"
    and "length (sorted_pair s k st) = length (pair_rows s k st)"
    and "set (sorted_pair s k st) \<subseteq> set (events_tbl st)"
    and "distinct (map c_event_id (events_tbl st))"
  using distinct_pair_rows [OF assms] assms
  by (auto simp: sorted_pair_def distinct_map pair_rows_def cold_inv_def events_ok_def)

text \<open>The subtraction does not wrap for the bounds the sweeper passes.\<close>

lemma drop_count_eq:
  assumes "0 \<le> keep" and "int n \<le> i64_max" and "keep \<le> i64_max"
  shows "nat (max (wrap_i64 (int n - keep)) 0) = n - nat keep"
proof -
  have "in_i64 (int n - keep)" using assms by (simp add: in_i64_def i64_min_def i64_max_def)
  then show ?thesis using assms(1) by (simp add: wrap_i64_id nat_diff_distrib)
qed

text \<open>A drop count within the table, as the source's \<open>i64\<close> subtraction gives it.\<close>

lemma drop_count_bound:
  assumes "0 \<le> keep" "keep \<le> i64_max"
  shows "nat (max (wrap_i64 (int n - keep)) 0) \<le> n"
proof (cases "int n - keep \<le> i64_max")
  case True
  then have "in_i64 (int n - keep)" using assms by (simp add: in_i64_def i64_min_def i64_max_def)
  then show ?thesis using assms by (simp add: wrap_i64_id)
next
  case False
  have "wrap_i64 (int n - keep) \<le> i64_max" using in_i64_wrap by (simp add: in_i64_def)
  then show ?thesis using False assms by linarith
qed

definition keep_ok :: "i64 \<Rightarrow> bool" where
  "keep_ok keep \<longleftrightarrow> 0 \<le> keep \<and> keep \<le> i64_max"

text \<open>Deleting some rows of a pair by their ids.\<close>

definition delete_rows :: "event_row list \<Rightarrow> cold_store \<Rightarrow> cold_store \<times> u64" where
  "delete_rows rows st = delete_where (\<lambda>r. c_event_id r \<in> c_event_id ` set rows) st"

lemma delete_rows_pair:
  assumes "cold_inv c st" and "distinct rows" and "set rows \<subseteq> set (pair_rows s k st)"
  shows "snd (delete_rows rows st) = length rows"
    and "r \<in> set (events_tbl st) \<Longrightarrow> c_event_id r \<in> c_event_id ` set rows \<Longrightarrow> row_key r = (s, k)"
    and "pair_rows s k (fst (delete_rows rows st)) = filter (\<lambda>r. r \<notin> set rows) (pair_rows s k st)"
proof -
  have sub: "set rows \<subseteq> set (events_tbl st)" using assms(3) by (auto simp: set_pair_rows)
  have "distinct (map c_event_id (events_tbl st))"
    using assms(1) by (simp add: cold_inv_def events_ok_def)
  note ids = filter_by_ids [OF this assms(2) sub]
  show "snd (delete_rows rows st) = length rows"
    using ids(1) by (simp add: delete_rows_def delete_where_def)
  show "r \<in> set (events_tbl st) \<Longrightarrow> c_event_id r \<in> c_event_id ` set rows \<Longrightarrow> row_key r = (s, k)"
    using ids(2) assms(3) set_pair_rows by blast
  have "filter (\<lambda>r. row_key r = (s, k)) (filter (\<lambda>r. c_event_id r \<notin> c_event_id ` set rows) (events_tbl st))
      = filter (\<lambda>r. r \<notin> set rows) (filter (\<lambda>r. row_key r = (s, k)) (events_tbl st))"
    unfolding filter_filter by (rule filter_cong) (use ids(2) in blast)+
  then show "pair_rows s k (fst (delete_rows rows st)) = filter (\<lambda>r. r \<notin> set rows) (pair_rows s k st)"
    by (simp add: delete_rows_def delete_where_def pair_rows_def)
qed

text \<open>The number of events \<open>sweep_max_count\<close> drops.\<close>

definition drop_count :: "i64 \<Rightarrow> string \<Rightarrow> string \<Rightarrow> cold_store \<Rightarrow> nat" where
  "drop_count keep s k st = nat (max (wrap_i64 (int (length (pair_rows s k st)) - keep)) 0)"

lemma delete_rows_Nil: "delete_rows [] st = (st, 0)"
  by (simp add: delete_rows_def delete_where_def)

lemma count_dry: "cold_sweep_max_count None s k keep True st = (st, Inr (drop_count keep s k st))"
  by (simp add: cold_sweep_max_count_def drop_count_def Let_def)

lemma count_exec:
  "cold_sweep_max_count None s k keep False st =
    (let del = delete_rows (take (drop_count keep s k st) (sorted_pair s k st)) st in (fst del, Inr (snd del)))"
  by (auto simp: cold_sweep_max_count_def sorted_pair_def Let_def drop_count_def delete_rows_def
      delete_where_def)

lemma drop_count_le: "keep_ok keep \<Longrightarrow> drop_count keep s k st \<le> length (sorted_pair s k st)"
  using drop_count_bound [of keep "length (pair_rows s k st)"]
  by (simp add: drop_count_def keep_ok_def sorted_pair_def)

lemma take_sorted_pair:
  assumes "cold_inv c st"
  shows "distinct (take n (sorted_pair s k st))"
    and "set (take n (sorted_pair s k st)) \<subseteq> set (pair_rows s k st)"
  using sorted_pair_facts(1) [OF assms] set_take_subset [of n "sorted_pair s k st"]
  by (simp_all add: sorted_pair_facts(2) [OF assms])

lemma count_sweep:
  assumes "keep_ok keep"
  shows "pair_sweep (\<lambda>db. cold_sweep_max_count db s k keep) s k"
proof
  fix c st
  assume inv: "cold_inv c st"
  let ?rows = "take (drop_count keep s k st) (sorted_pair s k st)"
  note del = delete_rows_pair [OF inv take_sorted_pair [OF inv, of "drop_count keep s k st" s k]]
  show "snd (cold_sweep_max_count None s k keep True st) = snd (cold_sweep_max_count None s k keep False st)"
    using del(1) drop_count_le [OF assms, of s k st] by (simp add: count_dry count_exec Let_def)
  show "\<exists>P. (\<forall>r. P r \<longrightarrow> r \<in> set (events_tbl st) \<longrightarrow> row_key r = (s, k))
      \<and> cold_sweep_max_count None s k keep False st = (fst (delete_where P st), Inr (snd (delete_where P st)))"
    using del(2)
    by (intro exI [of _ "\<lambda>r. c_event_id r \<in> c_event_id ` set ?rows"] conjI allI impI)
      (simp_all only: count_exec delete_rows_def Let_def)
next
  fix x dry st
  show "cold_sweep_max_count (Some x) s k keep dry st = (st, Inl (Sqlite x))"
    by (simp add: cold_sweep_max_count_def)
  show "fst (cold_sweep_max_count None s k keep True st) = st" by (simp add: count_dry)
qed

lemma keep_ok_i64_try_from: "keep_ok (i64_try_from n)"
  by (simp add: keep_ok_def i64_try_from_def i64_max_def)

interpretation cnt: pair_sweep "\<lambda>db. cold_sweep_max_count db s k (i64_try_from n)" s k for s k n
  by (rule count_sweep) (rule keep_ok_i64_try_from)

section \<open>Bytes\<close>

text \<open>Newest first; the rows from the first one whose running total exceeds the bound are dropped.\<close>

definition row_bytes :: "event_row \<Rightarrow> i64" where
  "row_bytes r = sql_length (c_semantic r)"

fun over_budget :: "i64 \<Rightarrow> i64 \<Rightarrow> event_row list \<Rightarrow> event_row list" where
  "over_budget mx running [] = []"
| "over_budget mx running (r # rs) =
     (let running' = saturating_add running (row_bytes r)
      in if running' > mx then r # over_budget mx running' rs else over_budget mx running' rs)"

lemma bytes_to_drop_eq: "bytes_to_drop mx running rs = map c_event_id (over_budget mx running rs)"
  by (induction mx running rs rule: over_budget.induct) (simp_all add: row_bytes_def Let_def)

lemma sql_length_nonneg [simp]: "0 \<le> sql_length t"
  by (simp add: sql_length_def)

lemma over_budget_all:
  assumes "mx < running" and "in_i64 running"
  shows "over_budget mx running rs = rs"
  using assms
proof (induction rs arbitrary: running)
  case (Cons r rs)
  have "running \<le> saturating_add running (row_bytes r)"
    using Cons.prems(2) sql_length_nonneg [of "c_semantic r"]
    unfolding saturating_add_def sat_i64_def row_bytes_def in_i64_def by linarith
  moreover have "in_i64 (saturating_add running (row_bytes r))" by (simp add: saturating_add_def)
  ultimately show ?case using Cons by (simp add: Let_def)
qed simp

text \<open>The largest number of rows whose sizes still fit.\<close>

fun fitting :: "i64 \<Rightarrow> i64 \<Rightarrow> event_row list \<Rightarrow> nat" where
  "fitting mx running [] = 0"
| "fitting mx running (r # rs) =
     (let running' = saturating_add running (row_bytes r)
      in if running' > mx then 0 else Suc (fitting mx running' rs))"

lemma over_budget_drop: "in_i64 running \<Longrightarrow> over_budget mx running rs = drop (fitting mx running rs) rs"
proof (induction mx running rs rule: fitting.induct)
  case (2 mx running r rs)
  have "in_i64 (saturating_add running (row_bytes r))" by (simp add: saturating_add_def)
  with 2 show ?case by (simp add: Let_def over_budget_all)
qed simp

lemma fitting_le: "fitting mx running rs \<le> length rs"
  by (induction mx running rs rule: fitting.induct) (simp_all add: Let_def)

definition newest_rows :: "string \<Rightarrow> string \<Rightarrow> cold_store \<Rightarrow> event_row list" where
  "newest_rows s k st = rev (sorted_pair s k st)"

lemma in_i64_zero [simp]: "in_i64 0"
  by (simp add: rust_defs)

lemma bytes_dry:
  "cold_sweep_max_bytes None s k mx True st
    = (st, Inr (length (drop (fitting mx 0 (newest_rows s k st)) (newest_rows s k st))))"
  by (simp add: cold_sweep_max_bytes_def Let_def bytes_to_drop_eq over_budget_drop newest_rows_def
      sorted_pair_def)

lemma bytes_exec:
  "cold_sweep_max_bytes None s k mx False st =
    (let del = delete_rows (drop (fitting mx 0 (newest_rows s k st)) (newest_rows s k st)) st
     in (fst del, Inr (snd del)))"
proof -
  let ?rows = "drop (fitting mx 0 (newest_rows s k st)) (newest_rows s k st)"
  have ids: "bytes_to_drop mx 0 (rev (sort_key row_pos (pair_rows s k st))) = map c_event_id ?rows"
    by (simp add: bytes_to_drop_eq over_budget_drop newest_rows_def sorted_pair_def)
  show ?thesis
  proof (cases "?rows = []")
    case True
    then show ?thesis
      unfolding cold_sweep_max_bytes_def Let_def ids by (simp add: delete_rows_Nil)
  next
    case False
    then show ?thesis
      unfolding cold_sweep_max_bytes_def Let_def ids
      by (simp add: delete_rows_def delete_where_def del: drop_eq_Nil)
  qed
qed

lemma drop_newest_rows:
  assumes "cold_inv c st"
  shows "distinct (drop n (newest_rows s k st))"
    and "set (drop n (newest_rows s k st)) \<subseteq> set (pair_rows s k st)"
  using sorted_pair_facts(1) [OF assms] set_drop_subset [of n "newest_rows s k st"]
  by (simp_all add: newest_rows_def sorted_pair_facts(2) [OF assms])

interpretation byt: pair_sweep "\<lambda>db. cold_sweep_max_bytes db s k mx" s k for s k mx
proof
  fix c st
  assume inv: "cold_inv c st"
  let ?rows = "drop (fitting mx 0 (newest_rows s k st)) (newest_rows s k st)"
  note del = delete_rows_pair [OF inv drop_newest_rows [OF inv, of "fitting mx 0 (newest_rows s k st)" s k]]
  show "snd (cold_sweep_max_bytes None s k mx True st) = snd (cold_sweep_max_bytes None s k mx False st)"
    using del(1) by (simp add: bytes_dry bytes_exec Let_def)
  show "\<exists>P. (\<forall>r. P r \<longrightarrow> r \<in> set (events_tbl st) \<longrightarrow> row_key r = (s, k))
      \<and> cold_sweep_max_bytes None s k mx False st = (fst (delete_where P st), Inr (snd (delete_where P st)))"
    using del(2)
    by (intro exI [of _ "\<lambda>r. c_event_id r \<in> c_event_id ` set ?rows"] conjI allI impI)
      (simp_all only: bytes_exec delete_rows_def Let_def)
next
  fix x dry st
  show "cold_sweep_max_bytes (Some x) s k mx dry st = (st, Inl (Sqlite x))"
    by (simp add: cold_sweep_max_bytes_def)
  show "fst (cold_sweep_max_bytes None s k mx True st) = st" by (simp add: bytes_dry)
qed

section \<open>What is kept\<close>

lemma filter_notin_take: "distinct xs \<Longrightarrow> filter (\<lambda>x. x \<notin> set (take n xs)) xs = drop n xs"
proof (induction xs arbitrary: n)
  case (Cons x xs)
  show ?case
  proof (cases n)
    case (Suc m)
    have "filter (\<lambda>y. y \<noteq> x \<and> y \<notin> set (take m xs)) xs = filter (\<lambda>y. y \<notin> set (take m xs)) xs"
      using Cons.prems by (auto intro: filter_cong)
    with Suc Cons show ?thesis by simp
  qed (simp add: filter_id_conv)
qed simp

lemma sorted_pair_delete:
  assumes "cold_inv c st" and "distinct rows" and "set rows = set (take n (sorted_pair s k st))"
  shows "sorted_pair s k (fst (delete_rows rows st)) = drop n (sorted_pair s k st)"
proof -
  have "set rows \<subseteq> set (pair_rows s k st)"
    using assms(3) take_sorted_pair(2) [OF assms(1)] by simp
  from delete_rows_pair(3) [OF assms(1,2) this]
  have "sorted_pair s k (fst (delete_rows rows st)) = filter (\<lambda>r. r \<notin> set rows) (sorted_pair s k st)"
    by (simp add: sorted_pair_def filter_sort)
  then show ?thesis
    using filter_notin_take [OF sorted_pair_facts(1) [OF assms(1)]] assms(3) by simp
qed

lemma newest_rows_delete:
  assumes "cold_inv c st"
  shows "newest_rows s k (fst (delete_rows (drop m (newest_rows s k st)) st)) = take m (newest_rows s k st)"
proof -
  let ?sp = "sorted_pair s k st"
  have "set (drop m (newest_rows s k st)) = set (take (length ?sp - m) ?sp)"
    unfolding newest_rows_def drop_rev set_rev ..
  from sorted_pair_delete [OF assms drop_newest_rows(1) [OF assms] this]
  have "newest_rows s k (fst (delete_rows (drop m (newest_rows s k st)) st)) = rev (drop (length ?sp - m) ?sp)"
    unfolding newest_rows_def by (rule arg_cong)
  also have "\<dots> = take m (newest_rows s k st)" unfolding newest_rows_def take_rev ..
  finally show ?thesis .
qed

lemma fitting_fits:
  assumes "0 \<le> running" "running \<le> mx" "mx < i64_max"
  shows "running + sum_list (map row_bytes (take (fitting mx running rs) rs)) \<le> mx
    \<and> (fitting mx running rs < length rs \<longrightarrow>
        mx < running + sum_list (map row_bytes (take (Suc (fitting mx running rs)) rs)))"
  using assms
proof (induction mx running rs rule: fitting.induct)
  case (2 mx running r rs)
  let ?run = "saturating_add running (row_bytes r)"
  have nn: "0 \<le> row_bytes r" by (simp add: row_bytes_def)
  have sat: "?run = min i64_max (running + row_bytes r)"
    using nn 2(2) by (simp add: saturating_add_def sat_i64_def i64_min_def i64_max_def)
  show ?case
  proof (cases "?run > mx")
    case True
    then show ?thesis using 2 sat by (auto simp: Let_def)
  next
    case False
    then have "?run = running + row_bytes r" using 2(4) sat by (simp add: min_def split: if_splits)
    then show ?thesis using 2 False nn by (auto simp: Let_def add.assoc)
  qed
qed simp

section \<open>Properties\<close>

text \<open>
  \<open>sweep_max_count\<close> keeps exactly the newest \<open>keep_last\<close> events of the pair in
  \<open>(ts_ms_utc, event_id)\<close> order (all of them when there are fewer), reports the number dropped,
  predicts that number in a dry run without changing anything, and touches no other pair.
\<close>

lemma sweep_max_count_keeps_newest:
  assumes "cold_inv c st" and "0 \<le> keep" "keep \<le> i64_max"
    and "int (length (pair_rows s k st)) \<le> i64_max"
  shows "let (st', res) = cold_sweep_max_count None s k keep False st in
      newest_rows s k st' = take (nat keep) (newest_rows s k st)
      \<and> res = Inr (length (pair_rows s k st) - nat keep)
      \<and> cold_sweep_max_count None s k keep True st = (st, res)
      \<and> (\<forall>s' k'. (s', k') = (s, k) \<or> pair_rows s' k' st' = pair_rows s' k' st)"
proof -
  have keep: "keep_ok keep" using assms by (simp add: keep_ok_def)
  let ?n = "length (pair_rows s k st) - nat keep" and ?st' = "fst (cold_sweep_max_count None s k keep False st)"
  have n: "drop_count keep s k st = ?n" using drop_count_eq [OF assms(2,4,3)] by (simp add: drop_count_def)
  have "sorted_pair s k ?st' = drop ?n (sorted_pair s k st)"
    using sorted_pair_delete [OF assms(1) take_sorted_pair(1) [OF assms(1)] refl, of s k ?n]
    by (simp add: count_exec n Let_def)
  then have newest: "newest_rows s k ?st' = take (nat keep) (newest_rows s k st)"
    unfolding newest_rows_def take_rev by (simp only: sorted_pair_facts(3) [OF assms(1)])
  have dry: "cold_sweep_max_count None s k keep True st = (st, Inr ?n)" by (simp add: count_dry n)
  then have res: "snd (cold_sweep_max_count None s k keep False st) = Inr ?n"
    using pair_sweep.op_dry_count [OF count_sweep [OF keep] assms(1), of s k] by simp
  have "(s', k') = (s, k) \<or> pair_rows s' k' ?st' = pair_rows s' k' st" for s' k'
    using pair_sweep.op_other_pairs [OF count_sweep [OF keep] assms(1), of s' k'] by fast
  then show ?thesis unfolding Let_def split_beta dry res using newest by blast
qed



end
