(* ===== verification/Retention_Policy.thy ===== *)
theory Retention_Policy
  imports Core_Types
begin

text \<open>
  \<open>crates/store/src/retention/policy.rs\<close>: retention policies and their resolution for one
  \<open>(source_id, kind)\<close> pair.
\<close>

section \<open>Policies\<close>

record retention_policy =
  match_source_id :: "string option"
  match_kind :: "string option"
  rp_max_age :: "duration option"
  rp_max_count :: "i64 option"
  rp_max_bytes :: "i64 option"
  rp_vector_max_age :: "duration option"

definition policy_matches :: "retention_policy \<Rightarrow> string \<Rightarrow> string \<Rightarrow> bool" where
  "policy_matches p s k =
     (let source_ok = (case match_source_id p of None \<Rightarrow> True | Some m \<Rightarrow> m = s);
          kind_ok = (case match_kind p of None \<Rightarrow> True
            | Some m \<Rightarrow> (let bare = bare_kind k in m = bare \<or> m = k))
      in source_ok \<and> kind_ok)"

definition policy_tier :: "retention_policy \<Rightarrow> nat" where
  "policy_tier p = (case (match_source_id p \<noteq> None, match_kind p \<noteq> None) of
     (True, _) \<Rightarrow> 0 | (False, True) \<Rightarrow> 1 | (False, False) \<Rightarrow> 2)"

record effective_retention =
  er_max_age_ms :: "i64 option"
  er_max_count :: "i64 option"
  er_max_bytes :: "i64 option"
  er_vector_max_age_ms :: "i64 option"

definition effective_default :: effective_retention where
  "effective_default = \<lparr> er_max_age_ms = None, er_max_count = None, er_max_bytes = None,
     er_vector_max_age_ms = None \<rparr>"

definition effective_is_empty :: "effective_retention \<Rightarrow> bool" where
  "effective_is_empty e \<longleftrightarrow> er_max_age_ms e = None \<and> er_max_count e = None
     \<and> er_max_bytes e = None \<and> er_vector_max_age_ms e = None"

definition duration_to_ms :: "duration \<Rightarrow> i64" where
  "duration_to_ms d = i64_try_from (as_millis d)"

definition apply_policy :: "retention_policy \<Rightarrow> effective_retention \<Rightarrow> effective_retention" where
  "apply_policy p eff =
     (let eff = (if er_max_age_ms eff = None
                 then eff\<lparr> er_max_age_ms := map_option duration_to_ms (rp_max_age p) \<rparr> else eff);
          eff = (if er_max_count eff = None then eff\<lparr> er_max_count := rp_max_count p \<rparr> else eff);
          eff = (if er_max_bytes eff = None then eff\<lparr> er_max_bytes := rp_max_bytes p \<rparr> else eff)
      in if er_vector_max_age_ms eff = None
         then eff\<lparr> er_vector_max_age_ms := map_option duration_to_ms (rp_vector_max_age p) \<rparr>
         else eff)"

text \<open>\<open>sort_by_key\<close> is stable, as \<open>sort_key\<close> is.\<close>

definition resolve_effective ::
  "retention_policy list \<Rightarrow> string \<Rightarrow> string \<Rightarrow> effective_retention" where
  "resolve_effective policies s k =
     (let matching = sort_key policy_tier (filter (\<lambda>p. policy_matches p s k) policies)
      in fold apply_policy matching effective_default)"

section \<open>First match per dimension\<close>

text \<open>The first value a list of policies provides for a dimension.\<close>

fun first_some :: "('a \<Rightarrow> 'b option) \<Rightarrow> 'a list \<Rightarrow> 'b option" where
  "first_some f [] = None"
| "first_some f (p # ps) = (case f p of None \<Rightarrow> first_some f ps | Some v \<Rightarrow> Some v)"

lemma first_some_append: "first_some f (xs @ ys) = or_else (first_some f xs) (first_some f ys)"
  by (induction xs) (auto simp: or_else_def split: option.splits)

lemma first_some_map: "first_some (\<lambda>p. map_option g (f p)) ps = map_option g (first_some f ps)"
  by (induction ps) (auto split: option.splits)

lemma apply_policy_fields:
  "er_max_age_ms (apply_policy p e) = or_else (er_max_age_ms e) (map_option duration_to_ms (rp_max_age p))"
  "er_max_count (apply_policy p e) = or_else (er_max_count e) (rp_max_count p)"
  "er_max_bytes (apply_policy p e) = or_else (er_max_bytes e) (rp_max_bytes p)"
  "er_vector_max_age_ms (apply_policy p e)
     = or_else (er_vector_max_age_ms e) (map_option duration_to_ms (rp_vector_max_age p))"
  by (auto simp: apply_policy_def Let_def or_else_def split: option.splits)

lemma fold_apply_policy:
  assumes "\<And>p e. fld (apply_policy p e) = or_else (fld e) (f p)"
  shows "fld (fold apply_policy ps e) = or_else (fld e) (first_some f ps)"
proof (induction ps arbitrary: e)
  case Nil
  then show ?case by (simp add: or_else_def split: option.splits)
next
  case (Cons p ps)
  then show ?case by (auto simp: assms or_else_def split: option.splits)
qed

text \<open>A stable sort by a key with the values 0, 1, 2 is the concatenation of the three groups.\<close>

lemma sort_key_three:
  assumes "\<And>x. f x = (0::nat) \<or> f x = 1 \<or> f x = 2"
  shows "sort_key f xs = filter (\<lambda>x. f x = 0) xs @ filter (\<lambda>x. f x = 1) xs @ filter (\<lambda>x. f x = 2) xs"
proof (rule properties_for_sort_key)
  let ?ys = "filter (\<lambda>x. f x = 0) xs @ filter (\<lambda>x. f x = 1) xs @ filter (\<lambda>x. f x = 2) xs"
  have "mset (filter P xs) + mset (filter Q xs) + mset (filter R xs) = mset xs"
    if "\<And>x. P x = (f x = 0)" "\<And>x. Q x = (f x = 1)" "\<And>x. R x = (f x = 2)" for P Q R
  proof (induction xs)
    case (Cons x xs)
    then show ?case using assms [of x] that by auto
  qed simp
  from this [of "\<lambda>x. f x = 0" "\<lambda>x. f x = 1" "\<lambda>x. f x = 2"] show "mset ?ys = mset xs" by (simp add: add.assoc)
  show "sorted (map f ?ys)"
    using sorted_map_same [of f "\<lambda>_. 0" xs] sorted_map_same [of f "\<lambda>_. 1" xs]
      sorted_map_same [of f "\<lambda>_. 2" xs] by (auto simp: sorted_append)
  fix k
  assume "k \<in> set ?ys"
  then have "f k = 0 \<or> f k = 1 \<or> f k = 2" using assms by blast
  then show "filter (\<lambda>x. f k = f x) ?ys = filter (\<lambda>x. f k = f x) xs"
    by (elim disjE) (simp_all add: eq_commute [of "Suc 0"] conj_commute cong: conj_cong)
qed

text \<open>The matching policies in the order of precedence: source-level, kind-level, global default.\<close>

definition by_precedence :: "retention_policy list \<Rightarrow> string \<Rightarrow> string \<Rightarrow> retention_policy list" where
  "by_precedence ps s k =
     filter (\<lambda>p. match_source_id p \<noteq> None \<and> policy_matches p s k) ps
     @ filter (\<lambda>p. match_source_id p = None \<and> match_kind p \<noteq> None \<and> policy_matches p s k) ps
     @ filter (\<lambda>p. match_source_id p = None \<and> match_kind p = None) ps"

lemma policy_tier_values: "policy_tier p = 0 \<or> policy_tier p = 1 \<or> policy_tier p = 2"
  by (auto simp: policy_tier_def split: bool.splits)

lemma policy_tier_iff:
  "policy_tier p = 0 \<longleftrightarrow> match_source_id p \<noteq> None"
  "policy_tier p = 1 \<longleftrightarrow> match_source_id p = None \<and> match_kind p \<noteq> None"
  "policy_tier p = 2 \<longleftrightarrow> match_source_id p = None \<and> match_kind p = None"
  by (auto simp: policy_tier_def split: bool.splits)

lemma matching_sorted:
  "sort_key policy_tier (filter (\<lambda>p. policy_matches p s k) ps) = by_precedence ps s k"
proof -
  have "match_source_id p = None \<and> match_kind p = None \<and> policy_matches p s k
      \<longleftrightarrow> match_source_id p = None \<and> match_kind p = None" for p
    by (auto simp: policy_matches_def)
  then show ?thesis
    unfolding sort_key_three [OF policy_tier_values] by_precedence_def
    by (simp only: policy_tier_iff filter_filter conj_ac)
qed

lemma resolve_effective_eq:
  "er_max_age_ms (resolve_effective ps s k) = map_option duration_to_ms (first_some rp_max_age (by_precedence ps s k))"
  "er_max_count (resolve_effective ps s k) = first_some rp_max_count (by_precedence ps s k)"
  "er_max_bytes (resolve_effective ps s k) = first_some rp_max_bytes (by_precedence ps s k)"
  "er_vector_max_age_ms (resolve_effective ps s k)
     = map_option duration_to_ms (first_some rp_vector_max_age (by_precedence ps s k))"
proof -
  have res: "resolve_effective ps s k = fold apply_policy (by_precedence ps s k) effective_default"
    unfolding resolve_effective_def Let_def matching_sorted ..
  have none: "or_else None x = x" for x :: "'z option" by (simp add: or_else_def)
  show "er_max_age_ms (resolve_effective ps s k)
      = map_option duration_to_ms (first_some rp_max_age (by_precedence ps s k))"
    unfolding res using fold_apply_policy [of er_max_age_ms, OF apply_policy_fields(1)]
    by (simp add: effective_default_def or_else_def first_some_map)
  show "er_max_count (resolve_effective ps s k) = first_some rp_max_count (by_precedence ps s k)"
    unfolding res using fold_apply_policy [of er_max_count, OF apply_policy_fields(2)]
    by (simp add: effective_default_def or_else_def)
  show "er_max_bytes (resolve_effective ps s k) = first_some rp_max_bytes (by_precedence ps s k)"
    unfolding res using fold_apply_policy [of er_max_bytes, OF apply_policy_fields(3)]
    by (simp add: effective_default_def or_else_def)
  show "er_vector_max_age_ms (resolve_effective ps s k)
      = map_option duration_to_ms (first_some rp_vector_max_age (by_precedence ps s k))"
    unfolding res using fold_apply_policy [of er_vector_max_age_ms, OF apply_policy_fields(4)]
    by (simp add: effective_default_def or_else_def first_some_map)
qed

lemma effective_nonneg:
  "er_max_age_ms (resolve_effective ps s k) = Some a \<Longrightarrow> 0 \<le> a"
  "er_vector_max_age_ms (resolve_effective ps s k) = Some v \<Longrightarrow> 0 \<le> v"
  by (auto simp: resolve_effective_eq duration_to_ms_def)

section \<open>Properties\<close>

text \<open>
  C25. Resolution is first match per dimension: each of the four limits of a pair is the one the
  first matching policy that sets it provides, going through the policies that name the source in
  configured order, then those that name only the kind, then the global ones; the limits are
  resolved independently of each other.
\<close>

theorem resolve_effective_precedence:
  "resolve_effective ps s k =
     \<lparr> er_max_age_ms = map_option duration_to_ms (first_some rp_max_age (by_precedence ps s k)),
       er_max_count = first_some rp_max_count (by_precedence ps s k),
       er_max_bytes = first_some rp_max_bytes (by_precedence ps s k),
       er_vector_max_age_ms = map_option duration_to_ms (first_some rp_vector_max_age (by_precedence ps s k)) \<rparr>"
  by (rule effective_retention.equality) (simp_all add: resolve_effective_eq)

text \<open>
  A policy for a bare kind applies to every version of it, and a policy for \<open>name@version\<close>
  to that version only.
\<close>

lemma policy_matches_versions:
  "CHR ''@'' \<notin> set n \<Longrightarrow>
   policy_matches p s (n @ CHR ''@'' # v) \<longleftrightarrow>
     (match_source_id p = None \<or> match_source_id p = Some s)
     \<and> (match_kind p = None \<or> match_kind p = Some n \<or> match_kind p = Some (n @ CHR ''@'' # v))"
  by (auto simp: policy_matches_def bare_kind_versioned Let_def split: option.splits)

end
