(* ===== verification/Retention_Sweep.thy ===== *)
theory Retention_Sweep
  imports Cold_Sweep Retention_Policy Vector_Facts
begin

text \<open>
  \<open>crates/store/src/retention/sweeper.rs\<close>: one pass of the retention sweeper over the cold store and,
  when there is one, the vector index. Every database call of the pass may fail; \<open>dbs\<close> says which
  (a pair is visited once, so the call is identified by its kind and its pair). A failing call ends
  the pass, and what earlier calls deleted stays deleted.
\<close>

section \<open>Data\<close>

definition EXPENSIVE_REWRITE_THRESHOLD :: i64 where
  "EXPENSIVE_REWRITE_THRESHOLD = 1000"

text \<open>The warning texts, by what is put into them.\<close>

datatype sweep_warning = MaxCountExpensive string string i64 | MaxBytesExpensive string string i64

record per_pair_report =
  pp_source_id :: string
  pp_kind :: string
  pp_effective :: effective_retention
  pp_events_dropped :: u64
  pp_vectors_dropped :: u64

record sweep_report =
  per_pair :: "per_pair_report list"
  events_dropped :: u64
  vectors_dropped :: u64
  warnings :: "sweep_warning list"
  sr_dry_run :: bool

datatype sweep_error = SweepCold cold_error | SweepVector vector_error

datatype sweep_call =
    CallPairs | CallMaxAge ring_key | CallCountForCount ring_key | CallMaxCount ring_key
  | CallCountForBytes ring_key | CallMaxBytes ring_key | CallVector ring_key

type_synonym faults = "sweep_call \<Rightarrow> sql_error option"

section \<open>One pass\<close>

text \<open>The three blocks of the loop body on the cold store.\<close>

definition sweep_age_step :: "faults \<Rightarrow> i64 \<Rightarrow> bool \<Rightarrow> string \<Rightarrow> string \<Rightarrow> effective_retention \<Rightarrow> cold_store
    \<Rightarrow> cold_store \<times> (cold_error + u64)" where
  "sweep_age_step dbs now dry s k eff cold = (case er_max_age_ms eff of
     None \<Rightarrow> (cold, Inr 0)
   | Some max_age_ms \<Rightarrow>
       cold_sweep_max_age (dbs (CallMaxAge (s, k))) s k (saturating_sub now max_age_ms) dry cold)"

definition sweep_count_step :: "faults \<Rightarrow> bool \<Rightarrow> string \<Rightarrow> string \<Rightarrow> effective_retention \<Rightarrow> cold_store
    \<Rightarrow> cold_store \<times> (cold_error + u64 \<times> sweep_warning list)" where
  "sweep_count_step dbs dry s k eff cold = (case er_max_count eff of
     None \<Rightarrow> (cold, Inr (0, []))
   | Some max_count \<Rightarrow> (case count_for_pair (dbs (CallCountForCount (s, k))) s k cold of
       Inl e \<Rightarrow> (cold, Inl e)
     | Inr before \<Rightarrow>
         let ws = (if before > EXPENSIVE_REWRITE_THRESHOLD then [MaxCountExpensive s k before] else [])
         in (case cold_sweep_max_count (dbs (CallMaxCount (s, k))) s k max_count dry cold of
               (cold', Inl e) \<Rightarrow> (cold', Inl e) | (cold', Inr n) \<Rightarrow> (cold', Inr (n, ws)))))"

definition sweep_bytes_step :: "faults \<Rightarrow> bool \<Rightarrow> string \<Rightarrow> string \<Rightarrow> effective_retention \<Rightarrow> cold_store
    \<Rightarrow> cold_store \<times> (cold_error + u64 \<times> sweep_warning list)" where
  "sweep_bytes_step dbs dry s k eff cold = (case er_max_bytes eff of
     None \<Rightarrow> (cold, Inr (0, []))
   | Some max_bytes \<Rightarrow> (case count_for_pair (dbs (CallCountForBytes (s, k))) s k cold of
       Inl e \<Rightarrow> (cold, Inl e)
     | Inr before \<Rightarrow>
         let ws = (if before > EXPENSIVE_REWRITE_THRESHOLD then [MaxBytesExpensive s k before] else [])
         in (case cold_sweep_max_bytes (dbs (CallMaxBytes (s, k))) s k max_bytes dry cold of
               (cold', Inl e) \<Rightarrow> (cold', Inl e) | (cold', Inr n) \<Rightarrow> (cold', Inr (n, ws)))))"

definition sweep_vector_step :: "faults \<Rightarrow> i64 \<Rightarrow> bool \<Rightarrow> string \<Rightarrow> string \<Rightarrow> effective_retention
    \<Rightarrow> vector_index option \<Rightarrow> vector_index option \<times> (vector_error + u64)" where
  "sweep_vector_step dbs now dry s k eff vector = (case vector of
     None \<Rightarrow> (None, Inr 0)
   | Some idx \<Rightarrow> (case er_vector_max_age_ms eff of
       None \<Rightarrow> (Some idx, Inr 0)
     | Some vmax \<Rightarrow>
         (case vector_sweep_max_age (dbs (CallVector (s, k))) s k (saturating_sub now vmax) dry idx of
            (idx', r) \<Rightarrow> (Some idx', r))))"

text \<open>The loop body for a pair with a policy: the new state and what it dropped.\<close>

definition sweep_pair :: "faults \<Rightarrow> i64 \<Rightarrow> bool \<Rightarrow> string \<Rightarrow> string \<Rightarrow> effective_retention
    \<Rightarrow> cold_store \<times> vector_index option
    \<Rightarrow> (cold_store \<times> vector_index option) \<times> (sweep_error + u64 \<times> u64 \<times> sweep_warning list)" where
  "sweep_pair dbs now dry s k eff = (\<lambda>(cold, vector).
     case sweep_age_step dbs now dry s k eff cold of
       (c1, Inl e) \<Rightarrow> ((c1, vector), Inl (SweepCold e))
     | (c1, Inr n1) \<Rightarrow> (case sweep_count_step dbs dry s k eff c1 of
         (c2, Inl e) \<Rightarrow> ((c2, vector), Inl (SweepCold e))
       | (c2, Inr (n2, w2)) \<Rightarrow> (case sweep_bytes_step dbs dry s k eff c2 of
           (c3, Inl e) \<Rightarrow> ((c3, vector), Inl (SweepCold e))
         | (c3, Inr (n3, w3)) \<Rightarrow> (case sweep_vector_step dbs now dry s k eff vector of
             (v', Inl e) \<Rightarrow> ((c3, v'), Inl (SweepVector e))
           | (v', Inr nv) \<Rightarrow> ((c3, v'), Inr (n1 + n2 + n3, nv, w2 @ w3))))))"

definition report_pair :: "string \<Rightarrow> string \<Rightarrow> effective_retention \<Rightarrow> u64 \<Rightarrow> u64 \<Rightarrow> sweep_warning list
    \<Rightarrow> sweep_report \<Rightarrow> sweep_report" where
  "report_pair s k eff ev vc ws rep =
     rep\<lparr> warnings := warnings rep @ ws, events_dropped := events_dropped rep + ev,
          vectors_dropped := vectors_dropped rep + vc,
          per_pair := per_pair rep @
            (if ev > 0 \<or> vc > 0
             then [\<lparr> pp_source_id = s, pp_kind = k, pp_effective = eff, pp_events_dropped = ev,
                     pp_vectors_dropped = vc \<rparr>]
             else []) \<rparr>"

fun sweep_pairs :: "faults \<Rightarrow> retention_policy list \<Rightarrow> i64 \<Rightarrow> bool \<Rightarrow> ring_key list
    \<Rightarrow> cold_store \<times> vector_index option \<Rightarrow> sweep_report
    \<Rightarrow> (cold_store \<times> vector_index option) \<times> (sweep_error + sweep_report)" where
  "sweep_pairs dbs policies now dry [] st rep = (st, Inr rep)"
| "sweep_pairs dbs policies now dry ((s, k) # keys) st rep =
     (let eff = resolve_effective policies s k in
      if effective_is_empty eff then sweep_pairs dbs policies now dry keys st rep
      else (case sweep_pair dbs now dry s k eff st of
          (st', Inl e) \<Rightarrow> (st', Inl e)
        | (st', Inr (ev, vc, ws)) \<Rightarrow>
            sweep_pairs dbs policies now dry keys st' (report_pair s k eff ev vc ws rep)))"

definition sweep :: "faults \<Rightarrow> retention_policy list \<Rightarrow> i64 \<Rightarrow> bool
    \<Rightarrow> cold_store \<times> vector_index option
    \<Rightarrow> (cold_store \<times> vector_index option) \<times> (sweep_error + sweep_report)" where
  "sweep dbs policies now dry st =
     (case distinct_source_kind_pairs (dbs CallPairs) (fst st) of
        Inl e \<Rightarrow> (st, Inl (SweepCold e))
      | Inr pairs \<Rightarrow> sweep_pairs dbs policies now dry pairs st
          \<lparr> per_pair = [], events_dropped = 0, vectors_dropped = 0, warnings = [], sr_dry_run = dry \<rparr>)"

section \<open>Dry runs\<close>

lemma sweep_steps_dry:
  "fst (sweep_age_step dbs now True s k eff cold) = cold"
  "fst (sweep_count_step dbs True s k eff cold) = cold"
  "fst (sweep_bytes_step dbs True s k eff cold) = cold"
  "fst (sweep_vector_step dbs now True s k eff v) = v"
  by (auto simp: sweep_age_step_def sweep_count_step_def sweep_bytes_step_def sweep_vector_step_def
      cold_sweep_max_age_def cold_sweep_max_count_def cold_sweep_max_bytes_def vector_sweep_max_age_def
      Let_def split: option.split sum.split)

lemma sweep_pair_dry: "fst (sweep_pair dbs now True s k eff st) = st"
proof -
  have eq: "f = (fst f, snd f)" for f :: "'x \<times> 'y" by simp
  show ?thesis
    unfolding sweep_pair_def
    by (subst eq [of "sweep_age_step _ _ _ _ _ _ _"], subst eq [of "sweep_count_step _ _ _ _ _ _"],
        subst eq [of "sweep_bytes_step _ _ _ _ _ _"], subst eq [of "sweep_vector_step _ _ _ _ _ _ _"])
      (simp add: sweep_steps_dry split: prod.split sum.split)
qed

lemma sweep_pairs_dry: "fst (sweep_pairs dbs policies now True keys st rep) = st"
proof (induction keys arbitrary: rep)
  case (Cons key keys)
  obtain s k where key: "key = (s, k)" by (cases key)
  have "fst (sweep_pair dbs now True s k (resolve_effective policies s k) st) = st" by (rule sweep_pair_dry)
  then show ?case
    using Cons.IH by (auto simp: key Let_def split: prod.split sum.split)
qed simp

section \<open>An executed pass\<close>

text \<open>What each limit keeps of a pair, on its rows from newest to oldest.\<close>

definition retain_age :: "i64 \<Rightarrow> effective_retention \<Rightarrow> event_row list \<Rightarrow> event_row list" where
  "retain_age now eff rs = (case er_max_age_ms eff of None \<Rightarrow> rs
     | Some a \<Rightarrow> filter (\<lambda>r. saturating_sub now a \<le> c_ts_ms_utc r) rs)"

definition retain_count :: "effective_retention \<Rightarrow> event_row list \<Rightarrow> event_row list" where
  "retain_count eff rs = (case er_max_count eff of None \<Rightarrow> rs | Some n \<Rightarrow> take (nat n) rs)"

definition retain_bytes :: "effective_retention \<Rightarrow> event_row list \<Rightarrow> event_row list" where
  "retain_bytes eff rs = (case er_max_bytes eff of None \<Rightarrow> rs | Some n \<Rightarrow> take (fitting n 0 rs) rs)"

definition retained :: "i64 \<Rightarrow> effective_retention \<Rightarrow> event_row list \<Rightarrow> event_row list" where
  "retained now eff rs = retain_bytes eff (retain_count eff (retain_age now eff rs))"

text \<open>A step from \<open>st\<close> to \<open>st'\<close> that dropped \<open>n\<close> rows of the pair and left \<open>rs\<close> of it.\<close>

definition swept :: "codec \<Rightarrow> string \<Rightarrow> string \<Rightarrow> cold_store \<Rightarrow> cold_store \<Rightarrow> nat \<Rightarrow> event_row list \<Rightarrow> bool" where
  "swept c s k st st' n rs \<longleftrightarrow> cold_inv c st' \<and> latest_tbl st' = latest_tbl st
     \<and> newest_rows s k st' = rs \<and> length (events_tbl st') + n = length (events_tbl st)
     \<and> set (events_tbl st') \<subseteq> set (events_tbl st)
     \<and> (\<forall>s' k'. (s', k') \<noteq> (s, k) \<longrightarrow> pair_rows s' k' st' = pair_rows s' k' st)"

lemma swept_refl: "cold_inv c st \<Longrightarrow> swept c s k st st 0 (newest_rows s k st)"
  by (simp add: swept_def)

lemma swept_trans: "swept c s k st st1 n rs \<Longrightarrow> swept c s k st1 st2 m rs' \<Longrightarrow> swept c s k st st2 (n + m) rs'"
  by (auto simp: swept_def)

lemma swept_op:
  assumes "pair_sweep op s k" and "cold_inv c st"
  shows "\<exists>st' n. op None False st = (st', Inr n) \<and> swept c s k st st' n (newest_rows s k st')"
proof -
  obtain n where n: "op None False st = (fst (op None False st), Inr n)"
      "length (events_tbl (fst (op None False st))) + n = length (events_tbl st)"
    using pair_sweep.op_count [OF assms] by blast
  have "swept c s k st (fst (op None False st)) n (newest_rows s k (fst (op None False st)))"
    unfolding swept_def
    using n(2) pair_sweep.op_inv [OF assms] pair_sweep.op_latest [OF assms] pair_sweep.op_subset [OF assms]
      pair_sweep.op_other_pairs [OF assms] by blast
  with n(1) show ?thesis by blast
qed

definition limits_ok :: "effective_retention \<Rightarrow> bool" where
  "limits_ok eff \<longleftrightarrow> (case er_max_count eff of None \<Rightarrow> True | Some n \<Rightarrow> 0 \<le> n \<and> n \<le> i64_max)"

lemma newest_rows_age:
  "newest_rows s k (fst (cold_sweep_max_age None s k cutoff False st))
    = filter (\<lambda>r. cutoff \<le> c_ts_ms_utc r) (newest_rows s k st)"
proof -
  have "pair_rows s k (fst (cold_sweep_max_age None s k cutoff False st))
      = filter (\<lambda>r. cutoff \<le> c_ts_ms_utc r) (pair_rows s k st)"
    unfolding pair_rows_def
    by (simp add: cold_sweep_max_age_def delete_where_def conj_commute) (rule filter_cong, auto)
  then show ?thesis by (simp add: newest_rows_def sorted_pair_def filter_sort [symmetric] rev_filter)
qed

lemma age_step_exec:
  assumes "cold_inv c st"
  shows "\<exists>st' n. sweep_age_step (\<lambda>_. None) now False s k eff st = (st', Inr n)
    \<and> swept c s k st st' n (retain_age now eff (newest_rows s k st))"
proof (cases "er_max_age_ms eff")
  case None
  then show ?thesis using swept_refl [OF assms] by (simp add: sweep_age_step_def retain_age_def)
next
  case (Some a)
  show ?thesis
    using swept_op [OF age.pair_sweep_axioms [of s k "saturating_sub now a"] assms] Some
      newest_rows_age [of s k "saturating_sub now a" st]
    by (auto simp: sweep_age_step_def retain_age_def)
qed

lemma newest_rows_count:
  assumes "cold_inv c st" and "0 \<le> keep" "keep \<le> i64_max"
    and "int (length (events_tbl st)) \<le> i64_max"
  shows "newest_rows s k (fst (cold_sweep_max_count None s k keep False st)) = take (nat keep) (newest_rows s k st)"
proof -
  let ?n = "length (pair_rows s k st) - nat keep"
  have "length (pair_rows s k st) \<le> length (events_tbl st)" by (simp add: pair_rows_def)
  then have "int (length (pair_rows s k st)) \<le> i64_max" using assms(4) by linarith
  then have "drop_count keep s k st = ?n"
    using drop_count_eq [OF assms(2) _ assms(3)] by (simp add: drop_count_def)
  then have "sorted_pair s k (fst (cold_sweep_max_count None s k keep False st)) = drop ?n (sorted_pair s k st)"
    using sorted_pair_delete [OF assms(1) take_sorted_pair(1) [OF assms(1)] refl, of s k ?n]
    by (simp add: count_exec Let_def)
  then show ?thesis
    unfolding newest_rows_def take_rev by (simp only: sorted_pair_facts(3) [OF assms(1)])
qed

lemma count_step_exec:
  assumes "cold_inv c st" and "limits_ok eff" and "int (length (events_tbl st)) \<le> i64_max"
  shows "\<exists>st' n ws. sweep_count_step (\<lambda>_. None) False s k eff st = (st', Inr (n, ws))
    \<and> swept c s k st st' n (retain_count eff (newest_rows s k st))"
proof (cases "er_max_count eff")
  case None
  then show ?thesis using swept_refl [OF assms(1)] by (simp add: sweep_count_step_def retain_count_def)
next
  case (Some keep)
  then have keep: "0 \<le> keep" "keep \<le> i64_max" using assms(2) by (simp_all add: limits_ok_def)
  then have "keep_ok keep" by (simp add: keep_ok_def)
  from swept_op [OF count_sweep [OF this] assms(1)] obtain st' n
    where "cold_sweep_max_count None s k keep False st = (st', Inr n)"
      "swept c s k st st' n (newest_rows s k st')" by blast
  then show ?thesis
    using Some newest_rows_count [OF assms(1) keep assms(3), of s k]
    by (simp add: sweep_count_step_def retain_count_def count_for_pair_def Let_def)
qed

lemma bytes_step_exec:
  assumes "cold_inv c st"
  shows "\<exists>st' n ws. sweep_bytes_step (\<lambda>_. None) False s k eff st = (st', Inr (n, ws))
    \<and> swept c s k st st' n (retain_bytes eff (newest_rows s k st))"
proof (cases "er_max_bytes eff")
  case None
  then show ?thesis using swept_refl [OF assms] by (simp add: sweep_bytes_step_def retain_bytes_def)
next
  case (Some mx)
  from swept_op [OF byt.pair_sweep_axioms [of s k mx] assms] obtain st' n
    where "cold_sweep_max_bytes None s k mx False st = (st', Inr n)"
      "swept c s k st st' n (newest_rows s k st')" by blast
  moreover have "newest_rows s k (fst (cold_sweep_max_bytes None s k mx False st))
      = take (fitting mx 0 (newest_rows s k st)) (newest_rows s k st)"
    using newest_rows_delete [OF assms] by (simp add: bytes_exec Let_def)
  ultimately show ?thesis
    using Some by (simp add: sweep_bytes_step_def retain_bytes_def count_for_pair_def Let_def)
qed

text \<open>Vectors that a pair's \<open>vector_max_age\<close> expires.\<close>

definition vector_expired :: "i64 \<Rightarrow> effective_retention \<Rightarrow> string \<Rightarrow> string \<Rightarrow> in_memory_row \<Rightarrow> bool" where
  "vector_expired now eff s k m \<longleftrightarrow> m_source_id m = s \<and> m_kind m = k \<and>
     (case er_vector_max_age_ms eff of None \<Rightarrow> False | Some v \<Rightarrow> m_ts_ms_utc m < saturating_sub now v)"

lemma vector_step_exec:
  "\<exists>v' nv. sweep_vector_step (\<lambda>_. None) now False s k eff v = (v', Inr nv)
     \<and> map_option vi_rows v' = map_option (\<lambda>vi. filter (\<lambda>m. \<not> vector_expired now eff s k m) (vi_rows vi)) v"
proof (cases v)
  case None
  then show ?thesis by (simp add: sweep_vector_step_def)
next
  case (Some vi)
  then show ?thesis
    by (cases "er_vector_max_age_ms eff")
      (simp_all add: sweep_vector_step_def vector_sweep_max_age_def vector_expired_def Let_def)
qed

lemma sweep_pair_exec:
  assumes "cold_inv c st" and "limits_ok eff" and "int (length (events_tbl st)) \<le> i64_max"
  shows "\<exists>st' v' n nv ws. sweep_pair (\<lambda>_. None) now False s k eff (st, v) = ((st', v'), Inr (n, nv, ws))
    \<and> swept c s k st st' n (retained now eff (newest_rows s k st))
    \<and> map_option vi_rows v' = map_option (\<lambda>vi. filter (\<lambda>m. \<not> vector_expired now eff s k m) (vi_rows vi)) v"
proof -
  obtain st1 n1 where s1: "sweep_age_step (\<lambda>_. None) now False s k eff st = (st1, Inr n1)"
      "swept c s k st st1 n1 (retain_age now eff (newest_rows s k st))"
    using age_step_exec [OF assms(1)] by blast
  then have 1: "cold_inv c st1" "int (length (events_tbl st1)) \<le> i64_max"
      "newest_rows s k st1 = retain_age now eff (newest_rows s k st)"
    using assms(3) by (auto simp: swept_def)
  obtain st2 n2 w2 where s2: "sweep_count_step (\<lambda>_. None) False s k eff st1 = (st2, Inr (n2, w2))"
      "swept c s k st1 st2 n2 (retain_count eff (newest_rows s k st1))"
    using count_step_exec [OF 1(1) assms(2) 1(2)] by blast
  then have 2: "cold_inv c st2" "newest_rows s k st2 = retain_count eff (newest_rows s k st1)"
    by (simp_all add: swept_def)
  obtain st3 n3 w3 where s3: "sweep_bytes_step (\<lambda>_. None) False s k eff st2 = (st3, Inr (n3, w3))"
      "swept c s k st2 st3 n3 (retain_bytes eff (newest_rows s k st2))"
    using bytes_step_exec [OF 2(1)] by blast
  obtain v' nv where sv: "sweep_vector_step (\<lambda>_. None) now False s k eff v = (v', Inr nv)"
      "map_option vi_rows v' = map_option (\<lambda>vi. filter (\<lambda>m. \<not> vector_expired now eff s k m) (vi_rows vi)) v"
    using vector_step_exec by blast
  have "swept c s k st st3 (n1 + n2 + n3) (retained now eff (newest_rows s k st))"
    using swept_trans [OF swept_trans [OF s1(2) s2(2)] s3(2)] by (simp add: retained_def 1(3) 2(2))
  then show ?thesis using s1(1) s2(1) s3(1) sv by (simp add: sweep_pair_def)
qed

lemma newest_rows_other:
  "pair_rows s k st' = pair_rows s k st \<Longrightarrow> newest_rows s k st' = newest_rows s k st"
  by (simp add: newest_rows_def sorted_pair_def)

lemma retained_empty: "effective_is_empty eff \<Longrightarrow> retained now eff rs = rs"
  by (simp add: retained_def retain_age_def retain_count_def retain_bytes_def effective_is_empty_def)

lemma retained_Nil [simp]: "retained now eff [] = []"
  by (simp add: retained_def retain_age_def retain_count_def retain_bytes_def split: option.split)

definition policies_ok :: "retention_policy list \<Rightarrow> bool" where
  "policies_ok ps \<longleftrightarrow> list_all (\<lambda>p. case rp_max_count p of None \<Rightarrow> True | Some n \<Rightarrow> 0 \<le> n \<and> n \<le> i64_max) ps"

lemma first_some_in: "first_some f ps = Some v \<Longrightarrow> \<exists>p \<in> set ps. f p = Some v"
  by (induction ps) (auto split: option.split_asm)

lemma limits_ok_resolved: "policies_ok ps \<Longrightarrow> limits_ok (resolve_effective ps s k)"
proof -
  assume ok: "policies_ok ps"
  have "set (by_precedence ps s k) \<subseteq> set ps" by (auto simp: by_precedence_def)
  then show ?thesis
    using ok first_some_in [of rp_max_count "by_precedence ps s k"]
    by (fastforce simp: limits_ok_def policies_ok_def list_all_iff resolve_effective_eq split: option.split)
qed

text \<open>Vectors expired for one of the visited pairs.\<close>

definition vector_dropped :: "retention_policy list \<Rightarrow> i64 \<Rightarrow> ring_key list \<Rightarrow> in_memory_row \<Rightarrow> bool" where
  "vector_dropped ps now keys m \<longleftrightarrow>
     (m_source_id m, m_kind m) \<in> set keys
     \<and> vector_expired now (resolve_effective ps (m_source_id m) (m_kind m)) (m_source_id m) (m_kind m) m"

lemma vector_expired_empty: "effective_is_empty eff \<Longrightarrow> \<not> vector_expired now eff s k m"
  by (simp add: vector_expired_def effective_is_empty_def)

lemma vector_dropped_Cons:
  "vector_dropped ps now ((s, k) # keys) m \<longleftrightarrow>
     vector_expired now (resolve_effective ps s k) s k m \<or> vector_dropped ps now keys m"
  by (auto simp: vector_dropped_def vector_expired_def)

text \<open>
  The whole loop: the visited pairs are reduced to what their limits retain, every other pair is
  left alone, and the totals of the report account for every row that went.
\<close>

lemma sweep_pairs_exec:
  assumes "policies_ok ps" and "cold_inv c st" and "int (length (events_tbl st)) \<le> i64_max"
    and "distinct keys"
  shows "\<exists>st' v' rep'. sweep_pairs (\<lambda>_. None) ps now False keys (st, v) rep = ((st', v'), Inr rep')
    \<and> cold_inv c st' \<and> latest_tbl st' = latest_tbl st
    \<and> (\<forall>s k. newest_rows s k st' = (if (s, k) \<in> set keys
          then retained now (resolve_effective ps s k) (newest_rows s k st) else newest_rows s k st))
    \<and> events_dropped rep' + length (events_tbl st') = events_dropped rep + length (events_tbl st)
    \<and> map_option vi_rows v' = map_option (\<lambda>vi. filter (\<lambda>m. \<not> vector_dropped ps now keys m) (vi_rows vi)) v"
  using assms(2-4)
proof (induction keys arbitrary: st v rep)
  case Nil
  then show ?case by (simp add: vector_dropped_def)
next
  case (Cons key keys)
  obtain s k where key: "key = (s, k)" by (cases key)
  let ?eff = "resolve_effective ps s k"
  show ?case
  proof (cases "effective_is_empty ?eff")
    case True
    then have "retained now ?eff rs = rs" for rs by (rule retained_empty)
    with True Cons.IH [OF Cons.prems(1,2), of v rep] Cons.prems(3) show ?thesis
      by (simp add: key Let_def vector_dropped_Cons vector_expired_empty) metis
  next
    case False
    obtain st1 v1 n nv ws where
      run: "sweep_pair (\<lambda>_. None) now False s k ?eff (st, v) = ((st1, v1), Inr (n, nv, ws))"
      and swept: "swept c s k st st1 n (retained now ?eff (newest_rows s k st))"
      and v1: "map_option vi_rows v1 = map_option (\<lambda>vi. filter (\<lambda>m. \<not> vector_expired now ?eff s k m) (vi_rows vi)) v"
      using sweep_pair_exec [OF Cons.prems(1) limits_ok_resolved [OF assms(1)] Cons.prems(2)] by blast
    let ?rep = "report_pair s k ?eff n nv ws rep"
    have st1: "cold_inv c st1" "int (length (events_tbl st1)) \<le> i64_max"
      using swept Cons.prems(2) by (auto simp: swept_def)
    obtain st2 v2 rep2 where
      run2: "sweep_pairs (\<lambda>_. None) ps now False keys (st1, v1) ?rep = ((st2, v2), Inr rep2)"
      and 2: "cold_inv c st2" "latest_tbl st2 = latest_tbl st1"
      and rows: "\<And>s' k'. newest_rows s' k' st2 = (if (s', k') \<in> set keys
          then retained now (resolve_effective ps s' k') (newest_rows s' k' st1) else newest_rows s' k' st1)"
      and total: "events_dropped rep2 + length (events_tbl st2) = events_dropped ?rep + length (events_tbl st1)"
      and v2: "map_option vi_rows v2 = map_option (\<lambda>vi. filter (\<lambda>m. \<not> vector_dropped ps now keys m) (vi_rows vi)) v1"
      using Cons.IH [OF st1, of v1 ?rep] Cons.prems(3) by (simp add: key) blast
    have "newest_rows s' k' st2 = (if (s', k') \<in> set (key # keys)
          then retained now (resolve_effective ps s' k') (newest_rows s' k' st) else newest_rows s' k' st)" for s' k'
    proof (cases "(s', k') = (s, k)")
      case True
      then show ?thesis using rows swept Cons.prems(3) by (simp add: key swept_def)
    next
      case other: False
      then have "newest_rows s' k' st1 = newest_rows s' k' st"
        using swept by (intro newest_rows_other) (simp add: swept_def)
      with other show ?thesis using rows by (auto simp: key)
    qed
    moreover have "events_dropped rep2 + length (events_tbl st2) = events_dropped rep + length (events_tbl st)"
      using total swept by (simp add: swept_def report_pair_def)
    moreover have "map_option vi_rows v2
        = map_option (\<lambda>vi. filter (\<lambda>m. \<not> vector_dropped ps now (key # keys) m) (vi_rows vi)) v"
      using v1 v2 by (cases v; cases v1) (auto simp: key vector_dropped_Cons conj_commute)
    moreover have "latest_tbl st2 = latest_tbl st" using 2 swept by (simp add: swept_def)
    ultimately show ?thesis using run run2 False 2 by (simp add: key Let_def)
  qed
qed

lemma newest_rows_absent: "(s, k) \<notin> row_key ` set (events_tbl st) \<Longrightarrow> newest_rows s k st = []"
proof -
  assume "(s, k) \<notin> row_key ` set (events_tbl st)"
  then have "pair_rows s k st = []" by (force simp: pair_rows_def filter_empty_conv)
  then show ?thesis by (simp add: newest_rows_def sorted_pair_def)
qed

section \<open>Properties\<close>

text \<open>
  C3. What a sweep keeps: with a working engine a pass succeeds and reduces every
  \<open>(source_id, kind)\<close> pair to exactly what its resolved limits retain of it (events not older than
  \<open>max_age\<close>, of those the newest \<open>max_count\<close>, of those the newest run that fits \<open>max_bytes\<close>; pairs
  without a policy are untouched), keeps the \<open>latest\<close> table, reports exactly the number of events
  that went, and drops exactly the vectors that \<open>vector_max_age\<close> expires for a pair that has events.
\<close>

theorem sweep_retains:
  assumes "policies_ok ps" and "cold_inv c st" and "int (length (events_tbl st)) \<le> i64_max"
  shows "\<exists>st' v' rep. sweep (\<lambda>_. None) ps now False (st, v) = ((st', v'), Inr rep)
    \<and> cold_inv c st' \<and> latest_tbl st' = latest_tbl st
    \<and> (\<forall>s k. newest_rows s k st' = retained now (resolve_effective ps s k) (newest_rows s k st))
    \<and> events_dropped rep + length (events_tbl st') = length (events_tbl st)
    \<and> map_option vi_rows v' = map_option (\<lambda>vi. filter (\<lambda>m. \<not> vector_dropped ps now
          (remdups (map row_key (events_tbl st))) m) (vi_rows vi)) v"
proof -
  let ?keys = "sort (remdups (map row_key (events_tbl st)))"
  obtain st' v' rep where
    run: "sweep_pairs (\<lambda>_. None) ps now False ?keys (st, v)
      \<lparr> per_pair = [], events_dropped = 0, vectors_dropped = 0, warnings = [], sr_dry_run = False \<rparr>
      = ((st', v'), Inr rep)"
    and inv: "cold_inv c st'" "latest_tbl st' = latest_tbl st"
    and rows: "\<And>s k. newest_rows s k st' = (if (s, k) \<in> set ?keys
          then retained now (resolve_effective ps s k) (newest_rows s k st) else newest_rows s k st)"
    and total: "events_dropped rep + length (events_tbl st') = 0 + length (events_tbl st)"
    and vec: "map_option vi_rows v' = map_option (\<lambda>vi. filter (\<lambda>m. \<not> vector_dropped ps now ?keys m) (vi_rows vi)) v"
    using sweep_pairs_exec [OF assms, of ?keys now v
        "\<lparr> per_pair = [], events_dropped = 0, vectors_dropped = 0, warnings = [], sr_dry_run = False \<rparr>"]
    by auto
  have "newest_rows s k st' = retained now (resolve_effective ps s k) (newest_rows s k st)" for s k
    using rows [of s k] newest_rows_absent [of s k st] by (auto split: if_splits)
  moreover have "vector_dropped ps now ?keys m = vector_dropped ps now (remdups (map row_key (events_tbl st))) m" for m
    by (simp add: vector_dropped_def)
  ultimately show ?thesis
    using run inv total vec by (simp add: sweep_def distinct_source_kind_pairs_def)
qed

theorem sweep_retains_witness:
  "\<exists>st' v' rep. sweep (\<lambda>_. None) [\<lparr> match_source_id = None, match_kind = None, rp_max_age = Some (from_secs 1),
      rp_max_count = Some 5, rp_max_bytes = None, rp_vector_max_age = None \<rparr>] 5000 False
      (fst (cold_append demo_codec None [sample_event 1 ''s'' ''k'' 7] cold_open_in_memory), None)
    = ((st', v'), Inr rep)"
proof -
  let ?ps = "[\<lparr> match_source_id = None, match_kind = None, rp_max_age = Some (from_secs 1),
      rp_max_count = Some 5, rp_max_bytes = None, rp_vector_max_age = None \<rparr>]"
  let ?st = "fst (cold_append demo_codec None [sample_event 1 ''s'' ''k'' 7] cold_open_in_memory)"
  have "policies_ok ?ps" by (simp add: policies_ok_def i64_max_def)
  moreover have "cold_inv demo_codec ?st" by (rule cold_inv_append) (simp_all add: cold_inv_open)
  moreover have "int (length (events_tbl ?st)) \<le> i64_max"
    by (simp add: cold_append_encodable cold_open_in_memory_def insert_or_ignore_def i64_max_def)
  ultimately show ?thesis using sweep_retains [of ?ps demo_codec ?st 5000 None] by blast
qed

text \<open>
  A dry run has no effect: whatever the policies, and whichever database calls fail, a pass with
  \<open>dry_run\<close> leaves the cold store and the vector index as they were.
\<close>

lemma sweep_dry_run_pure: "fst (sweep dbs ps now True st) = st"
  by (simp add: sweep_def sweep_pairs_dry split: sum.split)

end
