(* ===== verification/Cold_Window.thy ===== *)
theory Cold_Window
  imports Cold_Invariant
begin

text \<open>
  Time-range scans (\<open>query_window\<close>): the statement with an anchor returns the events of the whole
  window that follow the anchor in \<open>(ts_ms_utc, event_id)\<close> order, so the last event of one page
  is the anchor of the next. The last section is about the pattern translation
  \<open>glob_to_like\<close>.
\<close>

section \<open>The whole window\<close>

definition window_all :: "(string \<Rightarrow> string \<Rightarrow> bool) \<Rightarrow> window_filter \<Rightarrow> cold_store \<Rightarrow> event_row list" where
  "window_all like f st = sort_key row_pos (filter (window_where like f) (events_tbl st))"

text \<open>The page size the statement runs with.\<close>

definition page_size :: "window_filter \<Rightarrow> nat" where
  "page_size f = min (limit f) MAX_WINDOW_LIMIT"

text \<open>The events of the window, decoded, in order: what an unbounded scan would return.\<close>

definition window_events ::
  "codec \<Rightarrow> (string \<Rightarrow> string \<Rightarrow> bool) \<Rightarrow> window_filter \<Rightarrow> cold_store \<Rightarrow> event list" where
  "window_events c like f st = map (\<lambda>r. projr (row_to_event c r)) (window_all like f st)"

definition anchor_of :: "event \<Rightarrow> anchor" where
  "anchor_of e = \<lparr> a_ts_ms_utc = ts_ms_utc e, a_event_id = event_id e \<rparr>"

lemma anchor_of_simps [simp]:
  "a_ts_ms_utc (anchor_of e) = ts_ms_utc e" "a_event_id (anchor_of e) = event_id e"
  by (simp_all add: anchor_of_def)

lemma window_rows_eq:
  "window_rows c like f a st = take (page_size f) (filter (after_anchor c a) (window_all like f st))"
proof -
  have "filter (after_anchor c a) (window_all like f st)
      = sort_key row_pos (filter (\<lambda>r. window_where like f r \<and> after_anchor c a r) (events_tbl st))"
    by (simp add: window_all_def filter_sort conj_commute)
  then show ?thesis by (simp add: window_rows_def page_size_def)
qed

lemma set_window_all: "set (window_all like f st) = {r \<in> set (events_tbl st). window_where like f r}"
  by (simp add: window_all_def)

lemma events_ok_window:
  assumes "cold_inv c st"
  shows "distinct (map c_event_id (window_all like f st))" and "list_all (row_ok c) (window_all like f st)"
proof -
  have ok: "events_ok c (events_tbl st)" using assms by (simp add: cold_inv_def)
  then have "distinct (map c_event_id (filter (window_where like f) (events_tbl st)))"
    by (simp add: events_ok_def distinct_map_filter)
  moreover have "mset (map c_event_id (window_all like f st))
      = mset (map c_event_id (filter (window_where like f) (events_tbl st)))"
    by (simp add: window_all_def)
  ultimately show "distinct (map c_event_id (window_all like f st))"
    using mset_eq_imp_distinct_iff by blast
  show "list_all (row_ok c) (window_all like f st)"
    using ok by (auto simp: events_ok_def list_all_iff set_window_all)
qed

lemma window_all_strict:
  assumes "cold_inv c st"
  shows "sorted_wrt (<) (map row_pos (window_all like f st))"
proof -
  have "distinct (map snd (map row_pos (window_all like f st)))"
    using events_ok_window(1) [OF assms] by (simp add: row_pos_def comp_def)
  then have "distinct (map row_pos (window_all like f st))" by (rule distinct_map [THEN iffD1, THEN conjunct1])
  moreover have "sorted (map row_pos (window_all like f st))" by (simp add: window_all_def)
  ultimately show ?thesis by (simp add: strict_sorted_iff)
qed

lemma filter_above_nth:
  fixes f :: "'a \<Rightarrow> 'b::linorder"
  assumes "sorted_wrt (<) (map f xs)" and "i < length xs"
  shows "filter (\<lambda>x. f (xs ! i) < f x) xs = drop (Suc i) xs"
  using assms
proof (induction xs arbitrary: i)
  case (Cons y ys)
  show ?case
  proof (cases i)
    case 0
    then show ?thesis using Cons.prems by (auto simp: filter_id_conv)
  next
    case (Suc j)
    then have "f y < f (ys ! j)" using Cons.prems by auto
    then have "\<not> f (ys ! j) < f y" by simp
    with Suc Cons show ?thesis by simp
  qed
qed simp

lemma row_decodes:
  assumes "cold_inv c st" and "r \<in> set (window_all like f st)"
  shows "row_to_event c r = Inr (projr (row_to_event c r))"
    and "c_event_id r = ulid_to_string c (event_id (projr (row_to_event c r)))"
    and "c_ts_ms_utc r = ts_ms_utc (projr (row_to_event c r))"
proof -
  have "row_ok c r" using events_ok_window(2) [OF assms(1)] assms(2) by (auto simp: list_all_iff)
  then obtain e where e: "row_to_event c r = Inr e" "ulid_to_string c (event_id e) = c_event_id r"
    by (auto simp: row_ok_def)
  moreover have "c_ts_ms_utc r = ts_ms_utc e"
    using e(1) by (auto simp: row_to_event_def split: sum.split_asm)
  ultimately show "row_to_event c r = Inr (projr (row_to_event c r))"
    and "c_event_id r = ulid_to_string c (event_id (projr (row_to_event c r)))"
    and "c_ts_ms_utc r = ts_ms_utc (projr (row_to_event c r))"
    by simp_all
qed

lemma window_events_nth:
  assumes "cold_inv c st" and "i < length (window_events c like f st)"
  shows "row_pos (window_all like f st ! i) = (ts_ms_utc (window_events c like f st ! i),
    ulid_to_string c (event_id (window_events c like f st ! i)))"
proof -
  have i: "i < length (window_all like f st)" using assms(2) by (simp add: window_events_def)
  then have "window_all like f st ! i \<in> set (window_all like f st)" by simp
  from row_decodes(2,3) [OF assms(1) this] show ?thesis
    using i by (simp add: row_pos_def window_events_def)
qed

text \<open>The rows after the anchor of the \<open>i\<close>-th event are the rows after position \<open>i\<close>.\<close>

lemma filter_after_anchor:
  assumes "cold_inv c st" and "i < length (window_events c like f st)"
  shows "filter (after_anchor c (Some (anchor_of (window_events c like f st ! i)))) (window_all like f st)
    = drop (Suc i) (window_all like f st)"
proof -
  have "after_anchor c (Some (anchor_of (window_events c like f st ! i))) r
      \<longleftrightarrow> row_pos (window_all like f st ! i) < row_pos r" for r
    unfolding window_events_nth [OF assms] by (auto simp: after_anchor_def row_pos_def less_prod_def')
  then have "after_anchor c (Some (anchor_of (window_events c like f st ! i)))
      = (\<lambda>r. row_pos (window_all like f st ! i) < row_pos r)" by blast
  moreover have "i < length (window_all like f st)" using assms(2) by (simp add: window_events_def)
  ultimately show ?thesis
    using filter_above_nth [OF window_all_strict [OF assms(1)]] by simp
qed

lemma query_window_eq:
  assumes "cold_inv c st"
  shows "query_window c like None f a st
    = Inr (take (page_size f) (map (\<lambda>r. projr (row_to_event c r))
            (filter (after_anchor c a) (window_all like f st))))"
proof -
  have "traverse (row_to_event c) (window_rows c like f a st)
      = Inr (map (\<lambda>r. projr (row_to_event c r)) (window_rows c like f a st))"
  proof (rule traverse_map_Inr, rule ballI)
    fix r
    assume "r \<in> set (window_rows c like f a st)"
    then have "r \<in> set (window_all like f st)"
      unfolding window_rows_eq by (meson filter_is_subset in_set_takeD subsetD)
    then show "row_to_event c r = Inr (projr (row_to_event c r))" by (rule row_decodes [OF assms])
  qed
  then show ?thesis by (simp add: query_window_def window_rows_eq take_map)
qed

lemma query_window_first:
  "cold_inv c st \<Longrightarrow> query_window c like None f None st
    = Inr (take (page_size f) (window_events c like f st))"
  by (simp add: query_window_eq window_events_def after_anchor_def)

lemma query_window_next:
  assumes "cold_inv c st" and "i < length (window_events c like f st)"
  shows "query_window c like None f (Some (anchor_of (window_events c like f st ! i))) st
    = Inr (take (page_size f) (drop (Suc i) (window_events c like f st)))"
  unfolding query_window_eq [OF assms(1)] filter_after_anchor [OF assms]
  by (simp add: window_events_def drop_map)

lemma distinct_window_events:
  assumes "cold_inv c st"
  shows "distinct (map event_id (window_events c like f st))"
proof -
  have "map (ulid_to_string c) (map event_id (window_events c like f st))
      = map c_event_id (window_all like f st)"
    using row_decodes(2) [OF assms] by (simp add: window_events_def)
  then have "distinct (map (ulid_to_string c) (map event_id (window_events c like f st)))"
    using events_ok_window(1) [OF assms] by simp
  then show ?thesis by (rule distinct_map [THEN iffD1, THEN conjunct1])
qed

lemma sorted_window_events:
  assumes "cold_inv c st"
  shows "sorted (map ts_ms_utc (window_events c like f st))"
proof -
  have "map ts_ms_utc (window_events c like f st) = map c_ts_ms_utc (window_all like f st)"
    using row_decodes(3) [OF assms] by (simp add: window_events_def)
  moreover have "sorted (map row_pos (window_all like f st))" by (simp add: window_all_def)
  then have "sorted (map fst (map row_pos (window_all like f st)))"
    unfolding sorted_wrt_map by (rule sorted_wrt_mono_rel [rotated]) (auto simp: less_eq_prod_def)
  ultimately show ?thesis by (simp add: row_pos_def comp_def)
qed

lemma mset_window_events:
  "mset (window_events c like f st)
    = {# projr (row_to_event c r). r \<in># filter_mset (window_where like f) (mset (events_tbl st)) #}"
  by (simp add: window_events_def window_all_def)

section \<open>Patterns\<close>

text \<open>
  SQLite documents for \<open>LIKE\<close> without an \<open>ESCAPE\<close> clause: a character of the pattern other than
  \<open>%\<close> and \<open>_\<close>, a backslash included, matches only itself up to ASCII case.
\<close>

definition ascii_lower :: "char \<Rightarrow> char" where
  "ascii_lower ch = (if 65 \<le> (of_char ch :: nat) \<and> (of_char ch :: nat) \<le> 90
     then char_of (of_char ch + 32 :: nat) else ch)"

definition like_literal :: "(string \<Rightarrow> string \<Rightarrow> bool) \<Rightarrow> bool" where
  "like_literal like \<longleftrightarrow> (\<forall>x p t. x \<noteq> CHR ''%'' \<and> x \<noteq> CHR ''_'' \<and> like (x # p) t \<longrightarrow>
     (\<exists>y u. t = y # u \<and> ascii_lower y = ascii_lower x \<and> like p u))"

text \<open>A matcher with SQLite's documented behaviour, for the witness.\<close>

fun demo_like :: "string \<Rightarrow> string \<Rightarrow> bool" where
  "demo_like [] t = (t = [])"
| "demo_like (p # ps) [] = (p = CHR ''%'' \<and> demo_like ps [])"
| "demo_like (p # ps) (t # ts) =
     (if p = CHR ''%'' then demo_like ps (t # ts) \<or> demo_like (p # ps) ts
      else if p = CHR ''_'' then demo_like ps ts
      else ascii_lower t = ascii_lower p \<and> demo_like ps ts)"

lemma demo_like_literal: "like_literal demo_like"
  unfolding like_literal_def
proof (intro allI impI)
  fix x p t
  assume "x \<noteq> CHR ''%'' \<and> x \<noteq> CHR ''_'' \<and> demo_like (x # p) t"
  then show "\<exists>y u. t = y # u \<and> ascii_lower y = ascii_lower x \<and> demo_like p u"
    by (cases t) auto
qed

lemma like_literalD:
  assumes "like_literal like" and "x \<noteq> CHR ''%''" "x \<noteq> CHR ''_''" and "like (x # p) (y # u)"
  shows "ascii_lower y = ascii_lower x" and "like p u"
proof -
  have "\<exists>y' u'. y # u = y' # u' \<and> ascii_lower y' = ascii_lower x \<and> like p u'"
    using assms unfolding like_literal_def by (metis (no_types))
  then show "ascii_lower y = ascii_lower x" and "like p u" by simp_all
qed

lemma like_literal_prefix:
  assumes "like_literal like" and "CHR ''%'' \<notin> set p" "CHR ''_'' \<notin> set p" and "like (p @ q) (p @ t)"
  shows "like q t"
  using assms(2-)
proof (induction p)
  case (Cons x p)
  then have "like (p @ q) (p @ t)"
    using like_literalD(2) [OF assms(1), of x "p @ q" x "p @ t"] by (simp add: eq_commute)
  with Cons show ?case by simp
qed simp

lemma replace_char_append: "replace_char c r (xs @ ys) = replace_char c r xs @ replace_char c r ys"
  by (simp add: replace_char_def)

lemma replace_char_notin: "c \<notin> set s \<Longrightarrow> replace_char c r s = s"
  by (induction s) (auto simp: replace_char_def)

lemma glob_to_like_underscore:
  assumes "CHR ''%'' \<notin> set p" "CHR ''_'' \<notin> set p" "CHR ''*'' \<notin> set p"
  shows "\<exists>q. glob_to_like (p @ CHR ''_'' # s) = p @ CHR 0x5C # q"
  using assms
  by (simp add: glob_to_like_def replace_char_append replace_char_notin)
    (simp add: replace_char_def)

section \<open>Properties\<close>

text \<open>
  A window scan is exact: the unanchored query returns the first page, and a query anchored at
  the \<open>i\<close>-th event of the window returns the page that starts right after it. The window itself is
  every stored event the filter selects, in timestamp order and each exactly once.
\<close>

lemma query_window_pages:
  assumes "cold_inv c st"
  shows "query_window c like None f None st = Inr (take (min (limit f) MAX_WINDOW_LIMIT) (window_events c like f st))
    \<and> (\<forall>i < length (window_events c like f st).
        query_window c like None f (Some (anchor_of (window_events c like f st ! i))) st
          = Inr (take (min (limit f) MAX_WINDOW_LIMIT) (drop (Suc i) (window_events c like f st))))
    \<and> sorted (map ts_ms_utc (window_events c like f st))
    \<and> distinct (map event_id (window_events c like f st))
    \<and> mset (window_events c like f st)
        = {# projr (row_to_event c r). r \<in># filter_mset (window_where like f) (mset (events_tbl st)) #}"
  using query_window_first [OF assms] query_window_next [OF assms] sorted_window_events [OF assms]
    distinct_window_events [OF assms] mset_window_events
  by (simp add: page_size_def)

text \<open>
  C38. A filter that contains an underscore (and no other special character before it) never
  matches the id it spells out: \<open>glob_to_like\<close> escapes the underscore with a backslash, but the
  statement has no \<open>ESCAPE\<close> clause, so the backslash has to occur in the column.
\<close>

theorem underscore_filter_misses:
  assumes "like_literal like"
    and "CHR ''%'' \<notin> set p" "CHR ''_'' \<notin> set p" "CHR ''*'' \<notin> set p"
  shows "\<not> glob_clause like (Some [p @ CHR ''_'' # s]) (p @ CHR ''_'' # s)"
proof
  assume clause: "glob_clause like (Some [p @ CHR ''_'' # s]) (p @ CHR ''_'' # s)"
  obtain q where "glob_to_like (p @ CHR ''_'' # s) = p @ CHR 0x5C # q"
    using glob_to_like_underscore [OF assms(2-4)] by blast
  then have "like (CHR 0x5C # q) (CHR ''_'' # s)"
    using clause like_literal_prefix [OF assms(1-3)] by (simp add: glob_clause_def)
  then have "ascii_lower CHR ''_'' = ascii_lower CHR 0x5C"
    by (rule like_literalD(1) [OF assms(1), rotated 2]) simp_all
  then show False by (simp add: ascii_lower_def)
qed

theorem underscore_filter_misses_witness:
  "\<not> glob_clause demo_like (Some [''living_room'']) ''living_room''"
  using underscore_filter_misses [OF demo_like_literal, of "''living''" "''room''"] by simp

end
