(* ===== verification/Cold_Cursor.thy ===== *)
theory Cold_Cursor
  imports Cold_Window
begin

text \<open>
  \<open>crates/store/src/cold/cursor.rs\<close>: the opaque pagination cursor and the canonical hash of the
  filter it belongs to. base64, CBOR and BLAKE3 are not under \<open>src/\<close> and are parameters (record
  \<open>cursor_codec\<close>); the byte string that is hashed is built here as the code builds it.
\<close>

section \<open>Data\<close>

record cursor_payload =
  cp_p :: string
  cp_a :: anchor
  cp_h :: bytes

record cursor =
  cur_anchor :: anchor
  cur_filter_hash :: bytes

datatype cursor_error = Malformed | FilterMismatch

record cursor_codec =
  b64_encode :: "bytes \<Rightarrow> string"
  b64_decode :: "string \<Rightarrow> bytes option"
  cbor_write :: "cursor_payload \<Rightarrow> bytes"
  cbor_read :: "bytes \<Rightarrow> cursor_payload option"
  blake3 :: "bytes \<Rightarrow> bytes"

section \<open>Operations\<close>

definition cursor_encode :: "cursor_codec \<Rightarrow> cursor \<Rightarrow> string" where
  "cursor_encode cc cur = b64_encode cc (cbor_write cc
     \<lparr> cp_p = [], cp_a = cur_anchor cur, cp_h = cur_filter_hash cur \<rparr>)"

definition cursor_decode :: "cursor_codec \<Rightarrow> string \<Rightarrow> bytes \<Rightarrow> cursor_error + cursor" where
  "cursor_decode cc s expected_hash = (case b64_decode cc s of
     None \<Rightarrow> Inl Malformed
   | Some bs \<Rightarrow> (case cbor_read cc bs of
       None \<Rightarrow> Inl Malformed
     | Some payload \<Rightarrow>
         if cp_h payload \<noteq> expected_hash then Inl FilterMismatch
         else Inr \<lparr> cur_anchor = cp_a payload, cur_filter_hash = cp_h payload \<rparr>))"

text \<open>\<open>i64::to_le_bytes\<close> and \<open>u32::try_from(n).unwrap_or(u32::MAX).to_le_bytes()\<close>.\<close>

definition i64_le_bytes :: "i64 \<Rightarrow> bytes" where
  [rust_defs]: "i64_le_bytes x = le_bytes 8 (i64_as_u64 x)"

definition u32_le_bytes :: "nat \<Rightarrow> bytes" where
  [rust_defs]: "u32_le_bytes n = le_bytes 4 (min n u32_max)"

text \<open>The bytes fed to the hasher for one filter list: its length, then each entry with its length.\<close>

definition hash_strings :: "string list option \<Rightarrow> bytes" where
  "hash_strings filter_opt =
     (let srcs = sort (case filter_opt of Some l \<Rightarrow> l | None \<Rightarrow> [])
      in u32_le_bytes (length srcs) @ concat (map (\<lambda>s. u32_le_bytes (length s) @ s) srcs))"

definition filter_preimage ::
  "i64 \<Rightarrow> i64 \<Rightarrow> string list option \<Rightarrow> string list option \<Rightarrow> u32 \<Rightarrow> bytes" where
  "filter_preimage start stop srcs kinds lim =
     ''percept-cursor-v1'' @ i64_le_bytes start @ i64_le_bytes stop @ le_bytes 4 lim
     @ hash_strings srcs @ hash_strings kinds"

definition filter_hash :: "cursor_codec \<Rightarrow> i64 \<Rightarrow> i64 \<Rightarrow> string list option \<Rightarrow> string list option
    \<Rightarrow> u32 \<Rightarrow> bytes" where
  "filter_hash cc start stop srcs kinds lim =
     take 16 (blake3 cc (filter_preimage start stop srcs kinds lim))"

section \<open>The hashed bytes determine the filter\<close>

text \<open>Two filter lists the store treats alike: the same entries, in any order.\<close>

definition filter_entries :: "string list option \<Rightarrow> string multiset" where
  "filter_entries fo = mset (case fo of Some l \<Rightarrow> l | None \<Rightarrow> [])"

definition short_filter :: "string list option \<Rightarrow> bool" where
  "short_filter fo = (case fo of None \<Rightarrow> True
     | Some l \<Rightarrow> length l \<le> u32_max \<and> list_all (\<lambda>s. length s \<le> u32_max) l)"

lemma i64_le_bytes_inj: "in_i64 x \<Longrightarrow> in_i64 y \<Longrightarrow> i64_le_bytes x = i64_le_bytes y \<longleftrightarrow> x = y"
proof -
  assume r: "in_i64 x" "in_i64 y"
  have b: "i64_as_u64 z < 256 ^ 8" for z
    using pos_mod_bound [of "2 ^ 64" z] by (simp add: i64_as_u64_def nat_less_iff)
  have "i64_as_u64 x = i64_as_u64 y \<longleftrightarrow> x = y"
  proof
    assume "i64_as_u64 x = i64_as_u64 y"
    then have "x mod 2 ^ 64 = y mod 2 ^ 64"
      unfolding i64_as_u64_def by (subst (asm) nat_eq_iff2) auto
    then have "(x + 2 ^ 63) mod 2 ^ 64 = (y + 2 ^ 63) mod 2 ^ 64" by (metis mod_add_left_eq)
    with r show "x = y" using wrap_i64_id [of x] wrap_i64_id [of y] by (simp add: wrap_i64_def)
  qed simp
  then show ?thesis using le_bytes_inj [OF b b] by (simp add: i64_le_bytes_def)
qed

lemma u32_le_bytes_inj: "m \<le> u32_max \<Longrightarrow> n \<le> u32_max \<Longrightarrow> u32_le_bytes m = u32_le_bytes n \<longleftrightarrow> m = n"
  using le_bytes_inj [of m 4 n] by (simp add: u32_le_bytes_def u32_max_def)

lemma length_u32_le_bytes [simp]: "length (u32_le_bytes n) = 4"
  by (simp add: u32_le_bytes_def)

lemma concat_entries_inj:
  assumes "length xs = length ys" and "list_all (\<lambda>s. length s \<le> u32_max) xs"
    and "list_all (\<lambda>s. length s \<le> u32_max) ys"
    and "concat (map (\<lambda>s. u32_le_bytes (length s) @ s) xs) @ r
      = concat (map (\<lambda>s. u32_le_bytes (length s) @ s) ys) @ r'"
  shows "xs = ys \<and> r = r'"
  using assms
proof (induction xs ys rule: list_induct2)
  case (Cons x xs y ys)
  let ?rest = "\<lambda>xs. concat (map (\<lambda>s. u32_le_bytes (length s) @ s) xs)"
  have eq: "u32_le_bytes (length x) @ x @ ?rest xs @ r = u32_le_bytes (length y) @ y @ ?rest ys @ r'"
    using Cons.prems(3) by simp
  then have "u32_le_bytes (length x) = u32_le_bytes (length y)" by (simp add: append_eq_append_conv)
  then have len: "length x = length y" using Cons.prems(1,2) by (simp add: u32_le_bytes_inj)
  with eq have "x = y" "?rest xs @ r = ?rest ys @ r'" by (simp_all add: append_eq_append_conv)
  then show ?case using Cons by simp
qed simp

lemma hash_strings_inj:
  assumes "short_filter a" "short_filter b" and "hash_strings a @ r = hash_strings b @ r'"
  shows "filter_entries a = filter_entries b \<and> r = r'"
proof -
  define xs ys where "xs = sort (case a of Some l \<Rightarrow> l | None \<Rightarrow> [])"
    and "ys = sort (case b of Some l \<Rightarrow> l | None \<Rightarrow> [])"
  have short: "length xs \<le> u32_max" "length ys \<le> u32_max"
      "list_all (\<lambda>s. length s \<le> u32_max) xs" "list_all (\<lambda>s. length s \<le> u32_max) ys"
    using assms(1,2) by (auto simp: xs_def ys_def short_filter_def list_all_iff split: option.splits)
  have eq: "u32_le_bytes (length xs) @ concat (map (\<lambda>s. u32_le_bytes (length s) @ s) xs) @ r
      = u32_le_bytes (length ys) @ concat (map (\<lambda>s. u32_le_bytes (length s) @ s) ys) @ r'"
    using assms(3) by (simp add: hash_strings_def xs_def ys_def Let_def)
  then have count: "u32_le_bytes (length xs) = u32_le_bytes (length ys)"
    and rest: "concat (map (\<lambda>s. u32_le_bytes (length s) @ s) xs) @ r
      = concat (map (\<lambda>s. u32_le_bytes (length s) @ s) ys) @ r'"
    by (subst (asm) append_eq_append_conv; simp)+
  from count have "length xs = length ys" using short(1,2) by (simp only: u32_le_bytes_inj)
  from concat_entries_inj [OF this short(3,4) rest] show ?thesis unfolding filter_entries_def xs_def ys_def by (metis mset_sort)
qed

lemma filter_preimage_inj:
  assumes "in_i64 s" "in_i64 s'" "in_i64 e" "in_i64 e'" "l \<le> u32_max" "l' \<le> u32_max"
    and "short_filter a" "short_filter a'" "short_filter b" "short_filter b'"
    and "filter_preimage s e a b l = filter_preimage s' e' a' b' l'"
  shows "s = s' \<and> e = e' \<and> l = l' \<and> filter_entries a = filter_entries a'
    \<and> filter_entries b = filter_entries b'"
proof -
  have split: "i64_le_bytes s = i64_le_bytes s'" "i64_le_bytes e = i64_le_bytes e'"
      "le_bytes 4 l = le_bytes 4 l'"
      "hash_strings a @ hash_strings b @ [] = hash_strings a' @ hash_strings b' @ []"
    using assms(11) by (simp_all add: filter_preimage_def append_eq_append_conv i64_le_bytes_def)
  have "s = s'" using split(1) i64_le_bytes_inj [OF assms(1,2)] by simp
  moreover have "e = e'" using split(2) i64_le_bytes_inj [OF assms(3,4)] by simp
  moreover have "l = l'" using split(3) le_bytes_inj [of l 4 l'] assms(5,6) by (simp add: u32_max_def)
  moreover have "filter_entries a = filter_entries a'" "hash_strings b @ [] = hash_strings b' @ []"
    using hash_strings_inj [OF assms(7,8) split(4)] by (rule conjunct1, rule conjunct2)
  moreover have "filter_entries b = filter_entries b'"
    using hash_strings_inj [OF assms(9,10) calculation(5)] by (rule conjunct1)
  ultimately show ?thesis by (intro conjI)
qed

lemma sort_cong: "mset xs = mset ys \<Longrightarrow> sort xs = sort ys"
  using properties_for_sort [of "sort ys" xs] by simp

lemma hash_strings_cong: "filter_entries a = filter_entries b \<Longrightarrow> hash_strings a = hash_strings b"
proof -
  assume "filter_entries a = filter_entries b"
  then have "sort (case a of Some l \<Rightarrow> l | None \<Rightarrow> []) = sort (case b of Some l \<Rightarrow> l | None \<Rightarrow> [])"
    unfolding filter_entries_def by (rule sort_cong)
  then show ?thesis unfolding hash_strings_def Let_def by simp
qed

lemma glob_clause_entries: "glob_clause like fo = (\<lambda>col. filter_entries fo = {#}
    \<or> (\<exists>g \<in> set_mset (filter_entries fo). like (glob_to_like g) col))"
  by (rule ext) (auto simp: glob_clause_def filter_entries_def list_ex_iff split: option.splits)

lemma window_where_cong:
  assumes "start_ms f = start_ms g" "end_ms f = end_ms g"
    and "filter_entries (source_filter f) = filter_entries (source_filter g)"
    and "filter_entries (kind_filter f) = filter_entries (kind_filter g)"
  shows "window_where like f = window_where like g"
  unfolding window_where_def glob_clause_entries using assms by simp

section \<open>Properties\<close>

text \<open>
  A cursor decodes only under the filter it was issued for: encoding and then decoding with
  the expected hash gives back exactly the anchor and the hash when the hash is the cursor's own,
  and \<open>cursor_filter_mismatch\<close> for every other hash. The hypotheses are the round trips base64
  and CBOR document for the bytes at hand.
\<close>

lemma cursor_roundtrip:
  assumes "\<And>bs. b64_decode cc (b64_encode cc bs) = Some bs"
    and "\<And>pl. cbor_read cc (cbor_write cc pl) = Some pl"
  shows "cursor_decode cc (cursor_encode cc cur) h
    = (if h = cur_filter_hash cur then Inr cur else Inl FilterMismatch)"
  by (cases cur) (simp add: cursor_decode_def cursor_encode_def assms)

text \<open>A codec with these round trips, for the witnesses: unary numbers, then the two strings.\<close>

definition unary :: "nat \<Rightarrow> bytes" where
  "unary n = replicate n CHR ''1'' @ ''0''"

definition read_unary :: "bytes \<Rightarrow> nat \<times> bytes" where
  "read_unary bs = (length (takeWhile (\<lambda>b. b = CHR ''1'') bs),
     drop 1 (dropWhile (\<lambda>b. b = CHR ''1'') bs))"

definition demo_cbor_write :: "cursor_payload \<Rightarrow> bytes" where
  "demo_cbor_write pl = unary (nat (a_ts_ms_utc (cp_a pl))) @ unary (nat (- a_ts_ms_utc (cp_a pl)))
     @ unary (unat (a_event_id (cp_a pl))) @ unary (length (cp_p pl)) @ cp_p pl @ cp_h pl"

definition demo_cbor_read :: "bytes \<Rightarrow> cursor_payload option" where
  "demo_cbor_read bs =
     (let (a, r1) = read_unary bs; (b, r2) = read_unary r1; (i, r3) = read_unary r2;
          (n, r4) = read_unary r3
      in Some \<lparr> cp_p = take n r4, cp_a = \<lparr> a_ts_ms_utc = int a - int b, a_event_id = of_nat i \<rparr>,
          cp_h = drop n r4 \<rparr>)"

definition demo_cursor_codec :: cursor_codec where
  "demo_cursor_codec = \<lparr> b64_encode = (\<lambda>bs. bs), b64_decode = Some, cbor_write = demo_cbor_write,
     cbor_read = demo_cbor_read, blake3 = (\<lambda>bs. bs) \<rparr>"

lemma read_unary_unary [simp]: "read_unary (unary n @ r) = (n, r)"
proof -
  have "takeWhile (\<lambda>b. b = CHR ''1'') (replicate n CHR ''1'' @ CHR ''0'' # r) = replicate n CHR ''1''"
    by (induction n) auto
  moreover have "dropWhile (\<lambda>b. b = CHR ''1'') (replicate n CHR ''1'' @ CHR ''0'' # r) = CHR ''0'' # r"
    by (induction n) auto
  ultimately show ?thesis by (simp add: read_unary_def unary_def)
qed

lemma demo_cursor_codec_simps:
  "b64_decode demo_cursor_codec (b64_encode demo_cursor_codec bs) = Some bs"
  "cbor_read demo_cursor_codec (cbor_write demo_cursor_codec pl) = Some pl"
proof -
  show "b64_decode demo_cursor_codec (b64_encode demo_cursor_codec bs) = Some bs"
    by (simp add: demo_cursor_codec_def)
  show "cbor_read demo_cursor_codec (cbor_write demo_cursor_codec pl) = Some pl"
    by (cases pl) (simp add: demo_cursor_codec_def demo_cbor_read_def demo_cbor_write_def Let_def)
qed

text \<open>
  The canonical form that is hashed identifies the filter exactly: two filters (with bounds in
  \<open>i64\<close>, and lists and patterns shorter than \<open>2^32\<close>) have the same canonical bytes if and only if
  they have the same bounds, the same limit and the same patterns up to order, an absent list
  being the empty one; and then they select the same events.
\<close>

lemma filter_preimage_canonical:
  assumes "in_i64 (start_ms f)" "in_i64 (start_ms g)" "in_i64 (end_ms f)" "in_i64 (end_ms g)"
    and "limit f \<le> u32_max" "limit g \<le> u32_max"
    and "short_filter (source_filter f)" "short_filter (source_filter g)"
    and "short_filter (kind_filter f)" "short_filter (kind_filter g)"
  shows "(filter_preimage (start_ms f) (end_ms f) (source_filter f) (kind_filter f) (limit f)
        = filter_preimage (start_ms g) (end_ms g) (source_filter g) (kind_filter g) (limit g)
      \<longleftrightarrow> start_ms f = start_ms g \<and> end_ms f = end_ms g \<and> limit f = limit g
        \<and> filter_entries (source_filter f) = filter_entries (source_filter g)
        \<and> filter_entries (kind_filter f) = filter_entries (kind_filter g))
    \<and> (filter_preimage (start_ms f) (end_ms f) (source_filter f) (kind_filter f) (limit f)
        = filter_preimage (start_ms g) (end_ms g) (source_filter g) (kind_filter g) (limit g)
      \<longrightarrow> window_where like f = window_where like g)"
  (is "(?p = ?q \<longleftrightarrow> ?same) \<and> _")
proof -
  have inj: "?p = ?q \<Longrightarrow> ?same" by (rule filter_preimage_inj [OF assms])
  have cong: "?p = ?q" if ?same
    unfolding filter_preimage_def
    using that hash_strings_cong [of "source_filter f" "source_filter g"]
      hash_strings_cong [of "kind_filter f" "kind_filter g"] by simp
  have sel: "window_where like f = window_where like g" if ?same
    using that by (intro window_where_cong) simp_all
  have iff: "?p = ?q \<longleftrightarrow> ?same" by (rule iffI) (fact inj, fact cong)
  have "?p = ?q \<longrightarrow> window_where like f = window_where like g" by (rule impI) (rule sel, rule inj)
  with iff show ?thesis by (rule conjI)
qed

end
