(* ===== verification/Mcp_Tools.thy ===== *)
theory Mcp_Tools
  imports Cold_Refinement Cold_Cursor Vector_Facts Hot_Ring Embedding Metrics Retention_Policy Globs
begin

text \<open>
  What the MCP server answers: the descriptor registry (\<open>crates/percept/src/mcp/registry.rs\<close>), the
  tools (\<open>tools.rs\<close>) and the federation with peers (\<open>peer.rs\<close>). The \<open>serde\<close> serialisation of the local rows,
  the texts of errors and what a peer answers are parameters; \<open>serde_json\<close>'s object is the list of its entries in key order.
  The result of \<open>get_window\<close> and \<open>search_events\<close> is a record with the fields of the JSON object.
\<close>

section \<open>Descriptor registry\<close>

record descriptor_registry =
  dr_rows :: "resolved_descriptor list"
  dr_by_pair :: "string \<times> string \<Rightarrow> nat option"

definition registry_new :: "resolved_descriptor list \<Rightarrow> descriptor_registry" where
  "registry_new rows = \<lparr> dr_rows = rows,
     dr_by_pair = fold (\<lambda>(i, r) m. m((rd_source_id r, rd_kind r) \<mapsto> i)) (enumerate 0 rows) Map.empty \<rparr>"

definition registry_lookup :: "descriptor_registry \<Rightarrow> string \<Rightarrow> string \<Rightarrow> resolved_descriptor option" where
  "registry_lookup reg s k = (case dr_by_pair reg (s, k) of None \<Rightarrow> None | Some idx \<Rightarrow> Some (dr_rows reg ! idx))"

definition registry_filter :: "glob_lib \<Rightarrow> descriptor_registry \<Rightarrow> string list option \<Rightarrow> string list option
    \<Rightarrow> string + resolved_descriptor list" where
  "registry_filter gl reg sf kf =
     (case build_filter_globs gl sf of
        Inl e \<Rightarrow> Inl e
      | Inr src \<Rightarrow> (case build_filter_globs gl kf of
          Inl e \<Rightarrow> Inl e
        | Inr knd \<Rightarrow> Inr (filter (\<lambda>r. filter_globs_match gl knd (rd_kind r))
            (filter (\<lambda>r. filter_globs_match gl src (rd_source_id r)) (dr_rows reg)))))"

section \<open>Peers\<close>

record peer_handle =
  ph_id :: string
  ph_mcp_url :: string
  ph_token :: string
  ph_timeout :: duration

datatype peer_status = PeerOk | PeerTimeout | PeerError string

text \<open>What sending the request to a peer under its timeout comes to, and the printers used on it.\<close>

datatype peer_reply = SendFailed string | TimedOut | Replied nat "string + json"

record peer_lib =
  pl_reply :: "peer_handle \<Rightarrow> json \<Rightarrow> peer_reply"
  pl_status_text :: "nat \<Rightarrow> string"
  pl_json_text :: "json \<Rightarrow> string"

definition call_tool :: "peer_lib \<Rightarrow> peer_handle \<Rightarrow> string \<Rightarrow> json \<Rightarrow> peer_status \<times> json option" where
  "call_tool pl peer tool_name arguments =
     (let body = Object [(''id'', Number (PosInt 1)), (''jsonrpc'', String ''2.0''), (''method'', String ''tools/call''),
           (''params'', Object [(''arguments'', arguments), (''name'', String tool_name)])]
      in case pl_reply pl peer body of
           SendFailed e \<Rightarrow> (PeerError e, None)
         | TimedOut \<Rightarrow> (PeerTimeout, None)
         | Replied status content \<Rightarrow>
             if \<not> (200 \<le> status \<and> status < 300)
             then (PeerError (''peer returned '' @ pl_status_text pl status), None)
             else (case content of
                 Inl e \<Rightarrow> (PeerError e, None)
               | Inr envelope \<Rightarrow> (case json_get envelope ''error'' of
                   Some err \<Rightarrow> (PeerError (pl_json_text pl err), None)
                 | None \<Rightarrow> (PeerOk, Option.bind (json_get envelope ''result'') (\<lambda>r. json_get r ''structuredContent'')))))"

text \<open>\<open>Map::insert\<close> on \<open>serde_json\<close>'s ordered object; other values are left alone.\<close>

fun btree_insert :: "string \<Rightarrow> json \<Rightarrow> (string \<times> json) list \<Rightarrow> (string \<times> json) list" where
  "btree_insert k v [] = [(k, v)]"
| "btree_insert k v ((k', v') # es) =
     (if k < k' then (k, v) # (k', v') # es
      else if k = k' then (k, v) # es
      else (k', v') # btree_insert k v es)"

fun insert_field :: "string \<Rightarrow> json \<Rightarrow> json \<Rightarrow> json" where
  "insert_field k v (Object es) = Object (btree_insert k v es)"
| "insert_field k v j = j"

fun as_array :: "json \<Rightarrow> json list option" where
  "as_array (Array xs) = Some xs"
| "as_array _ = None"

definition opt_strings_json :: "string list option \<Rightarrow> json" where
  "opt_strings_json f = (case f of None \<Rightarrow> Null | Some xs \<Rightarrow> Array (map String xs))"

text \<open>The rows a peer's answer contributes, and the fan-out over the peers; the status map is by peer id.\<close>

definition peer_rows :: "string \<Rightarrow> string \<Rightarrow> peer_status \<times> json option \<Rightarrow> json list" where
  "peer_rows field peer_id ans = (case ans of
     (PeerOk, Some v) \<Rightarrow> (case Option.bind (json_get v field) as_array of
         Some arr \<Rightarrow> map (insert_field ''peer_id'' (String peer_id)) arr
       | None \<Rightarrow> [])
   | _ \<Rightarrow> [])"

definition fan_out :: "peer_lib \<Rightarrow> string \<Rightarrow> string \<Rightarrow> peer_handle list \<Rightarrow> string list option \<Rightarrow> string list option
    \<Rightarrow> json list \<Rightarrow> json list \<times> peer_status hash_map" where
  "fan_out pl tool field peers sf kf rows =
     (if peers = [] then (rows, Map.empty)
      else let payload = Object [(''kind_filter'', opt_strings_json kf),
                                 (''source_filter'', opt_strings_json sf)];
               results = map (\<lambda>p. (ph_id p, call_tool pl p tool payload)) peers
           in fold (\<lambda>(peer_id, ans) (rows, m). (rows @ peer_rows field peer_id ans, m(peer_id \<mapsto> fst ans)))
                results (rows, Map.empty))"

section \<open>Tools\<close>

record filter_args =
  fa_source_filter :: "string list option"
  fa_kind_filter :: "string list option"

type_synonym describe_sources_args = filter_args
type_synonym get_current_state_args = filter_args

record get_window_args =
  gw_start_ms :: i64
  gw_end_ms :: i64
  gw_source_filter :: "string list option"
  gw_kind_filter :: "string list option"
  gw_limit :: "u32 option"
  gw_cursor :: "string option"

record describe_sources_entry =
  de_descriptor :: resolved_descriptor
  de_recent_errors :: "recent_errors option"
  de_effective_retention :: "effective_retention option"

record current_state_entry =
  ce_event :: event
  ce_age_ms :: i64
  ce_stale :: bool
  ce_from_cold :: bool
  ce_descriptor :: resolved_descriptor

record time_range =
  tr_start_ms :: i64
  tr_end_ms :: i64

record search_events_args =
  se_query :: string
  se_time_range :: "time_range option"
  se_source_filter :: "string list option"
  se_kind_filter :: "string list option"
  se_limit :: "u32 option"

datatype tool_error =
    ToolGlob string
  | NoColdStore
  | NoVectorIndex
  | ToolCold cold_error
  | ToolVector vector_error
  | InvalidRange i64 i64
  | EmptyQuery
  | CursorFilterMismatch
  | CursorMalformed

definition fan_out_describe_sources :: "peer_lib \<Rightarrow> peer_handle list \<Rightarrow> describe_sources_args \<Rightarrow> json list
    \<Rightarrow> json list \<times> peer_status hash_map" where
  "fan_out_describe_sources pl peers args sources =
     fan_out pl ''describe_sources'' ''sources'' peers (fa_source_filter args) (fa_kind_filter args) sources"

definition fan_out_get_current_state :: "peer_lib \<Rightarrow> peer_handle list \<Rightarrow> get_current_state_args \<Rightarrow> json list
    \<Rightarrow> json list \<times> peer_status hash_map" where
  "fan_out_get_current_state pl peers args states =
     fan_out pl ''get_current_state'' ''states'' peers (fa_source_filter args) (fa_kind_filter args) states"

definition describe_entry :: "metrics \<Rightarrow> retention_policy list \<Rightarrow> resolved_descriptor \<Rightarrow> describe_sources_entry" where
  "describe_entry m policies d =
     (let eff = resolve_effective policies (rd_source_id d) (rd_kind d)
      in \<lparr> de_descriptor = d, de_recent_errors = metrics_recent_errors m (rd_source_id d),
           de_effective_retention = (if effective_is_empty eff then None else Some eff) \<rparr>)"

definition describe_sources :: "glob_lib \<Rightarrow> peer_lib \<Rightarrow> (describe_sources_entry \<Rightarrow> json) \<Rightarrow> descriptor_registry \<Rightarrow> metrics
    \<Rightarrow> retention_policy list \<Rightarrow> peer_handle list \<Rightarrow> describe_sources_args
    \<Rightarrow> tool_error + json list \<times> peer_status hash_map" where
  "describe_sources gl pl to_value reg m policies peers args =
     (case registry_filter gl reg (fa_source_filter args) (fa_kind_filter args) of
        Inl e \<Rightarrow> Inl (ToolGlob e)
      | Inr rows \<Rightarrow>
          let sources = map (\<lambda>d. insert_field ''peer_id'' Null (to_value (describe_entry m policies d))) rows
          in Inr (fan_out_describe_sources pl peers args sources))"

text \<open>
  The loop over the registry rows. \<open>now - ts\<close> is machine subtraction: out of range it panics in a
  checked build (\<open>None\<close>).
\<close>

definition state_event :: "codec \<Rightarrow> sql_error option \<Rightarrow> hot_rings \<Rightarrow> cold_store option \<Rightarrow> resolved_descriptor
    \<Rightarrow> cold_error + (event \<times> bool) option" where
  "state_event c db hr cold d = (case hot_latest hr (rd_source_id d) (rd_kind d) of
     Some e \<Rightarrow> Inr (Some (e, False))
   | None \<Rightarrow> (case cold of
       None \<Rightarrow> Inr None
     | Some st \<Rightarrow> (case cold_latest c db (rd_source_id d) (rd_kind d) st of
         Inl x \<Rightarrow> Inl x
       | Inr None \<Rightarrow> Inr None
       | Inr (Some e) \<Rightarrow> Inr (Some (e, True)))))"

fun current_states :: "codec \<Rightarrow> sql_error option \<Rightarrow> i64 \<Rightarrow> hot_rings \<Rightarrow> cold_store option \<Rightarrow> resolved_descriptor list
    \<Rightarrow> (tool_error + current_state_entry list) option" where
  "current_states c db now hr cold [] = Some (Inr [])"
| "current_states c db now hr cold (d # ds) = (case state_event c db hr cold d of
     Inl x \<Rightarrow> Some (Inl (ToolCold x))
   | Inr None \<Rightarrow> current_states c db now hr cold ds
   | Inr (Some (e, from_cold)) \<Rightarrow>
       let age_ms = now - ts_ms_utc e in
       if \<not> in_i64 age_ms then None
       else let stale = (case rd_freshness_ttl_ms d of None \<Rightarrow> False | Some ttl \<Rightarrow> age_ms > ttl);
                entry = \<lparr> ce_event = e, ce_age_ms = age_ms, ce_stale = stale, ce_from_cold = from_cold, ce_descriptor = d \<rparr>
            in map_option (map_sum id ((#) entry)) (current_states c db now hr cold ds))"

definition get_current_state :: "glob_lib \<Rightarrow> peer_lib \<Rightarrow> (current_state_entry \<Rightarrow> json) \<Rightarrow> codec \<Rightarrow> sql_error option \<Rightarrow> i64
    \<Rightarrow> descriptor_registry \<Rightarrow> hot_rings \<Rightarrow> cold_store option \<Rightarrow> peer_handle list \<Rightarrow> get_current_state_args
    \<Rightarrow> (tool_error + json list \<times> peer_status hash_map) option" where
  "get_current_state gl pl to_value c db now reg hr cold peers args =
     (case registry_filter gl reg (fa_source_filter args) (fa_kind_filter args) of
        Inl e \<Rightarrow> Some (Inl (ToolGlob e))
      | Inr rows \<Rightarrow> (case current_states c db now hr cold rows of
          None \<Rightarrow> None
        | Some (Inl x) \<Rightarrow> Some (Inl x)
        | Some (Inr es) \<Rightarrow>
            let states = map (\<lambda>e. insert_field ''peer_id'' Null (to_value e)) es
            in Some (Inr (fan_out_get_current_state pl peers args states))))"

record window_page =
  wp_events :: "event list"
  wp_cursor :: "string option"

definition get_window :: "codec \<Rightarrow> (string \<Rightarrow> string \<Rightarrow> bool) \<Rightarrow> cursor_codec \<Rightarrow> sql_error option
    \<Rightarrow> cold_store option \<Rightarrow> get_window_args \<Rightarrow> tool_error + window_page" where
  "get_window c like cc db cold args = (case cold of
     None \<Rightarrow> Inl NoColdStore
   | Some st \<Rightarrow>
       if gw_end_ms args \<le> gw_start_ms args then Inl (InvalidRange (gw_start_ms args) (gw_end_ms args))
       else let lim = min (case gw_limit args of Some n \<Rightarrow> n | None \<Rightarrow> MAX_WINDOW_LIMIT) MAX_WINDOW_LIMIT;
                h = filter_hash cc (gw_start_ms args) (gw_end_ms args) (gw_source_filter args) (gw_kind_filter args) lim
            in case (case gw_cursor args of
                       None \<Rightarrow> Inr None
                     | Some s \<Rightarrow> (case cursor_decode cc s h of
                         Inr cur \<Rightarrow> Inr (Some (cur_anchor cur))
                       | Inl FilterMismatch \<Rightarrow> Inl CursorFilterMismatch
                       | Inl Malformed \<Rightarrow> Inl CursorMalformed)) of
                 Inl e \<Rightarrow> Inl e
               | Inr anch \<Rightarrow>
                   let f = \<lparr> start_ms = gw_start_ms args, end_ms = gw_end_ms args,
                             source_filter = gw_source_filter args, kind_filter = gw_kind_filter args, limit = lim \<rparr>
                   in case query_window c like db f anch st of
                        Inl x \<Rightarrow> Inl (ToolCold x)
                      | Inr events \<Rightarrow>
                          Inr \<lparr> wp_events = events,
                            wp_cursor = (if length events \<le> u32_max \<and> length events \<ge> lim
                              then (if events = [] then None
                                    else let e = last events in
                                      Some (cursor_encode cc \<lparr> cur_anchor = \<lparr> a_ts_ms_utc = ts_ms_utc e, a_event_id = event_id e \<rparr>,
                                                               cur_filter_hash = h \<rparr>))
                              else None) \<rparr>)"

definition DEFAULT_SEARCH_LIMIT :: u32 where
  "DEFAULT_SEARCH_LIMIT = 10"

definition MAX_SEARCH_LIMIT :: u32 where
  "MAX_SEARCH_LIMIT = 50"

record search_hit_out =
  so_event :: event
  so_score :: f32
  so_truncated :: bool

fun hydrate :: "codec \<Rightarrow> sql_error option \<Rightarrow> cold_store \<Rightarrow> search_hit list \<Rightarrow> cold_error + search_hit_out list" where
  "hydrate c db st [] = Inr []"
| "hydrate c db st (h # hs) = (case get_by_id c db (sh_event_id h) st of
     Inl x \<Rightarrow> Inl x
   | Inr None \<Rightarrow> hydrate c db st hs
   | Inr (Some e) \<Rightarrow> map_sum id ((#) \<lparr> so_event = e, so_score = score h, so_truncated = sh_truncated h \<rparr>) (hydrate c db st hs))"

definition search_events :: "glob_lib \<Rightarrow> codec \<Rightarrow> sql_error option \<Rightarrow> vector_index option \<Rightarrow> embedder option \<Rightarrow> cold_store option
    \<Rightarrow> search_events_args \<Rightarrow> (tool_error + search_hit_out list) option" where
  "search_events gl c db index emb cold args = (case index of
     None \<Rightarrow> Some (Inl NoVectorIndex)
   | Some vi \<Rightarrow> (case emb of
       None \<Rightarrow> Some (Inl NoVectorIndex)
     | Some em \<Rightarrow> (case cold of
         None \<Rightarrow> Some (Inl NoColdStore)
       | Some st \<Rightarrow>
           if trim (se_query args) = [] then Some (Inl EmptyQuery)
           else (case (case se_time_range args of
                         None \<Rightarrow> Inr (None, None)
                       | Some t \<Rightarrow> if tr_end_ms t \<le> tr_start_ms t then Inl (InvalidRange (tr_start_ms t) (tr_end_ms t))
                           else Inr (Some (tr_start_ms t), Some (tr_end_ms t))) of
               Inl e \<Rightarrow> Some (Inl e)
             | Inr (s, e) \<Rightarrow>
                 let top_k = max 1 (min MAX_SEARCH_LIMIT (case se_limit args of Some n \<Rightarrow> n | None \<Rightarrow> DEFAULT_SEARCH_LIMIT));
                     f = \<lparr> vf_start_ms = s, vf_end_ms = e, vf_source_filter = se_source_filter args,
                           vf_kind_filter = se_kind_filter args \<rparr>
                 in (case search_kn gl (emb_embed em (se_query args)) top_k f vi of
                       None \<Rightarrow> None
                     | Some (Inl x) \<Rightarrow> Some (Inl (ToolVector x))
                     | Some (Inr hits) \<Rightarrow> (case hydrate c db st hits of
                         Inl x \<Rightarrow> Some (Inl (ToolCold x)) | Inr out \<Rightarrow> Some (Inr out)))))))"

section \<open>Facts\<close>

text \<open>The query \<open>get_window\<close> runs, and its answer on a working store.\<close>

definition gw_filter :: "get_window_args \<Rightarrow> window_filter" where
  "gw_filter args = \<lparr> start_ms = gw_start_ms args, end_ms = gw_end_ms args, source_filter = gw_source_filter args,
     kind_filter = gw_kind_filter args,
     limit = min (case gw_limit args of Some n \<Rightarrow> n | None \<Rightarrow> MAX_WINDOW_LIMIT) MAX_WINDOW_LIMIT \<rparr>"

definition gw_hash :: "cursor_codec \<Rightarrow> get_window_args \<Rightarrow> bytes" where
  "gw_hash cc args = filter_hash cc (gw_start_ms args) (gw_end_ms args) (gw_source_filter args) (gw_kind_filter args)
     (limit (gw_filter args))"

definition gw_cursor_at :: "cursor_codec \<Rightarrow> get_window_args \<Rightarrow> event \<Rightarrow> string" where
  "gw_cursor_at cc args e = cursor_encode cc \<lparr> cur_anchor = anchor_of e, cur_filter_hash = gw_hash cc args \<rparr>"

definition cursor_laws :: "cursor_codec \<Rightarrow> bool" where
  "cursor_laws cc \<longleftrightarrow> (\<forall>bs. b64_decode cc (b64_encode cc bs) = Some bs) \<and> (\<forall>pl. cbor_read cc (cbor_write cc pl) = Some pl)"

lemma cursor_lawsD: "cursor_laws cc \<Longrightarrow> cursor_decode cc (cursor_encode cc cur) h
    = (if h = cur_filter_hash cur then Inr cur else Inl FilterMismatch)"
  by (cases cur) (simp add: cursor_laws_def cursor_decode_def cursor_encode_def)

lemma gw_filter_cursor [simp]: "gw_filter (args\<lparr> gw_cursor := x \<rparr>) = gw_filter args"
  by (simp add: gw_filter_def)

lemma gw_cursor_at_cursor [simp]: "gw_cursor_at cc (args\<lparr> gw_cursor := x \<rparr>) e = gw_cursor_at cc args e"
  by (simp add: gw_cursor_at_def gw_hash_def)

lemma gw_limit_page: "page_size (gw_filter args) = limit (gw_filter args)"
  by (simp add: page_size_def gw_filter_def)

lemma get_window_eq:
  "get_window c like cc db (Some st) args =
     (if gw_end_ms args \<le> gw_start_ms args then Inl (InvalidRange (gw_start_ms args) (gw_end_ms args))
      else case (case gw_cursor args of
                   None \<Rightarrow> Inr None
                 | Some s \<Rightarrow> (case cursor_decode cc s (gw_hash cc args) of
                     Inr cur \<Rightarrow> Inr (Some (cur_anchor cur))
                   | Inl FilterMismatch \<Rightarrow> Inl CursorFilterMismatch
                   | Inl Malformed \<Rightarrow> Inl CursorMalformed)) of
             Inl e \<Rightarrow> Inl e
           | Inr anch \<Rightarrow> (case query_window c like db (gw_filter args) anch st of
               Inl x \<Rightarrow> Inl (ToolCold x)
             | Inr events \<Rightarrow> Inr \<lparr> wp_events = events,
                 wp_cursor = (if length events \<le> u32_max \<and> limit (gw_filter args) \<le> length events
                   then (if events = [] then None else Some (gw_cursor_at cc args (last events))) else None) \<rparr>))"
  by (simp only: get_window_def gw_filter_def gw_hash_def gw_cursor_at_def anchor_of_def Let_def option.case window_filter.simps)

text \<open>The page after the first \<open>i\<close> events, reached with no cursor or with the cursor of the event before it.\<close>

lemma get_window_page:
  assumes "cold_inv c st" "cursor_laws cc" "gw_start_ms args < gw_end_ms args" "0 < limit (gw_filter args)"
    and "(i = 0 \<and> gw_cursor args = None)
      \<or> (0 < i \<and> i \<le> length (window_events c like (gw_filter args) st)
          \<and> gw_cursor args = Some (gw_cursor_at cc args (window_events c like (gw_filter args) st ! (i - 1))))"
  shows "get_window c like cc None (Some st) args
    = (let page = take (limit (gw_filter args)) (drop i (window_events c like (gw_filter args) st))
       in Inr \<lparr> wp_events = page,
            wp_cursor = (if length page = limit (gw_filter args) then Some (gw_cursor_at cc args (last page)) else None) \<rparr>)"
proof -
  let ?f = "gw_filter args" and ?es = "window_events c like (gw_filter args) st"
  let ?anch = "if i = 0 then None else Some (anchor_of (?es ! (i - 1)))"
  have q: "query_window c like None ?f ?anch st = Inr (take (limit ?f) (drop i ?es))"
    using query_window_first [OF assms(1), of like ?f] query_window_next [OF assms(1), of "i - 1" like ?f] assms(5)
    by (auto simp: gw_limit_page)
  have dec: "(case gw_cursor args of
       None \<Rightarrow> Inr None
     | Some s \<Rightarrow> (case cursor_decode cc s (gw_hash cc args) of
         Inr cur \<Rightarrow> Inr (Some (cur_anchor cur))
       | Inl FilterMismatch \<Rightarrow> Inl CursorFilterMismatch
       | Inl Malformed \<Rightarrow> Inl CursorMalformed)) = Inr ?anch"
    using assms(5) cursor_lawsD [OF assms(2)] by (auto simp: gw_cursor_at_def)
  let ?p = "take (limit ?f) (drop i ?es)"
  have in_range: "\<not> gw_end_ms args \<le> gw_start_ms args" using assms(3) by simp
  have step: "get_window c like cc None (Some st) args = Inr \<lparr> wp_events = ?p,
      wp_cursor = (if length ?p \<le> u32_max \<and> limit ?f \<le> length ?p
        then (if ?p = [] then None else Some (gw_cursor_at cc args (last ?p))) else None) \<rparr>"
    unfolding get_window_eq dec sum.case q if_not_P [OF in_range] by (rule refl)
  have arith: "n \<le> l \<Longrightarrow> n \<le> m \<Longrightarrow> (n \<le> m \<and> l \<le> n) \<longleftrightarrow> n = l" for n l m :: nat by auto
  have le: "length ?p \<le> limit ?f" by simp
  have "limit ?f \<le> MAX_WINDOW_LIMIT" by (simp add: gw_filter_def)
  then have small: "length ?p \<le> u32_max" using le by (simp add: MAX_WINDOW_LIMIT_def u32_max_def)
  note cond = arith [OF le small]
  show ?thesis
  proof (cases "length ?p = limit ?f")
    case True
    then have ne: "?p \<noteq> []" using assms(4) by auto
    show ?thesis unfolding step cond Let_def if_P [OF True] if_not_P [OF ne] by (rule refl)
  next
    case False
    show ?thesis unfolding step cond Let_def if_not_P [OF False] by (rule refl)
  qed
qed

text \<open>
  The loop of a client that passes the cursor of each page on until a page has none; \<open>None\<close> when
  the fuel runs out.
\<close>

fun window_walk :: "nat \<Rightarrow> codec \<Rightarrow> (string \<Rightarrow> string \<Rightarrow> bool) \<Rightarrow> cursor_codec \<Rightarrow> cold_store \<Rightarrow> get_window_args
    \<Rightarrow> (tool_error + event list list) option" where
  "window_walk 0 c like cc st args = None"
| "window_walk (Suc n) c like cc st args = (case get_window c like cc None (Some st) args of
     Inl e \<Rightarrow> Some (Inl e)
   | Inr page \<Rightarrow> (case wp_cursor page of
       None \<Rightarrow> Some (Inr [wp_events page])
     | Some s \<Rightarrow> map_option (map_sum id ((#) (wp_events page)))
         (window_walk n c like cc st (args\<lparr> gw_cursor := Some s \<rparr>))))"

lemma window_walk_drop:
  assumes "cold_inv c st" "cursor_laws cc" "gw_start_ms args < gw_end_ms args" "0 < limit (gw_filter args)"
    and "(i = 0 \<and> gw_cursor args = None)
      \<or> (0 < i \<and> i \<le> length (window_events c like (gw_filter args) st)
          \<and> gw_cursor args = Some (gw_cursor_at cc args (window_events c like (gw_filter args) st ! (i - 1))))"
    and "length (window_events c like (gw_filter args) st) - i < n"
  shows "\<exists>ps. window_walk n c like cc st args = Some (Inr ps)
    \<and> concat ps = drop i (window_events c like (gw_filter args) st)"
  using assms(3-)
proof (induction n arbitrary: args i)
  case (Suc n)
  let ?f = "gw_filter args" and ?es = "window_events c like (gw_filter args) st"
  let ?page = "take (limit ?f) (drop i ?es)"
  note page = get_window_page [OF assms(1,2) Suc.prems(1-3), unfolded Let_def]
  show ?case
  proof (cases "length ?page = limit ?f")
    case False
    then have "?page = drop i ?es" by simp
    then show ?thesis using page False by simp
  next
    case True
    let ?args = "args\<lparr> gw_cursor := Some (gw_cursor_at cc args (last ?page)) \<rparr>" and ?j = "i + limit ?f"
    have full: "?j \<le> length ?es" and ne: "?page \<noteq> []" using True Suc.prems(2) by auto
    have "last ?page = ?es ! (?j - 1)" using full ne Suc.prems(2) by (simp add: last_conv_nth)
    moreover have "length ?es - ?j < n" using Suc.prems(2,4) full by linarith
    ultimately obtain ps where "window_walk n c like cc st ?args = Some (Inr ps)" "concat ps = drop ?j ?es"
      using Suc.IH [of ?args ?j] Suc.prems(1,2) full by auto
    moreover have "?page @ drop ?j ?es = drop i ?es"
      by (metis append_take_drop_id drop_drop add.commute)
    ultimately show ?thesis using page True by simp
  qed
qed simp

text \<open>Reads from the store under its invariant.\<close>

lemma latest_row:
  assumes "cold_inv c st" "latest_tbl st k = Some r"
  obtains e where "row_to_event c r = Inr e" "event_key e = k"
  using assms row_to_event_fields(2) unfolding cold_inv_def latest_ok_def row_ok_def by metis

lemma cold_latest_current:
  assumes "cold_inv c st"
  shows "cold_latest c None s k st = Inr (current_of c st (s, k))"
proof (cases "latest_tbl st (s, k)")
  case None
  then show ?thesis by (simp add: current_of_eq cold_latest_def optional_row_def decoded_simps)
next
  case (Some r)
  then obtain e where "row_to_event c r = Inr e" by (rule latest_row [OF assms])
  with Some show ?thesis by (simp add: current_of_eq cold_latest_def optional_row_def decoded_simps)
qed

lemma current_of_key:
  assumes "cold_inv c st" "current_of c st (s, k) = Some e"
  shows "event_key e = (s, k)"
proof (cases "latest_tbl st (s, k)")
  case None
  then show ?thesis using assms(2) by (simp add: current_of_eq decoded_simps)
next
  case (Some r)
  then obtain e' where "row_to_event c r = Inr e'" "event_key e' = (s, k)" by (rule latest_row [OF assms(1)])
  with Some show ?thesis using assms(2) by (simp add: current_of_eq decoded_simps)
qed

lemma get_by_id_log:
  assumes "cold_inv c st"
  shows "get_by_id c None i st = Inr (log_of c st i)"
proof (cases "find (\<lambda>r. c_event_id r = ulid_to_string c i) (events_tbl st)")
  case None
  then show ?thesis by (simp add: get_by_id_def log_of_eq optional_row_def decoded_simps)
next
  case (Some r)
  then have "r \<in> set (events_tbl st)" by (auto simp: find_Some_iff)
  with assms obtain e where "row_to_event c r = Inr e"
    by (auto simp: cold_inv_def events_ok_def list_all_iff row_ok_def)
  with Some show ?thesis by (simp add: get_by_id_def log_of_eq optional_row_def decoded_simps)
qed

lemma hot_latest_snapshot:
  "hot_latest hr s k = (if hot_snapshot hr s k = [] then None else Some (last (hot_snapshot hr s k)))"
  by (simp add: hot_latest_def hot_snapshot_def split: option.split)

lemma state_event_eq:
  assumes "cold_inv c st"
  shows "state_event c None hr (Some st) d = Inr (case hot_latest hr (rd_source_id d) (rd_kind d) of
     Some e \<Rightarrow> Some (e, False)
   | None \<Rightarrow> map_option (\<lambda>e. (e, True)) (current_of c st (rd_source_id d, rd_kind d)))"
  using cold_latest_current [OF assms] by (simp add: state_event_def split: option.split)

lemma map_of_btree_insert: "map_of (btree_insert k v es) = (map_of es)(k \<mapsto> v)"
  by (induction k v es rule: btree_insert.induct) auto

lemma hydrate_out:
  assumes "cold_inv c st"
  shows "hydrate c None st hs =
    Inr (map (\<lambda>h. \<lparr> so_event = the (log_of c st (sh_event_id h)), so_score = score h, so_truncated = sh_truncated h \<rparr>)
      (filter (\<lambda>h. log_of c st (sh_event_id h) \<noteq> None) hs))"
  by (induction hs) (auto simp: get_by_id_log [OF assms] split: option.split)

lemma fan_out_eq:
  "fan_out pl tool field peers sf kf rows =
     (let payload = Object [(''kind_filter'', opt_strings_json kf), (''source_filter'', opt_strings_json sf)]
      in (rows @ concat (map (\<lambda>p. peer_rows field (ph_id p) (call_tool pl p tool payload)) peers),
          fold (\<lambda>p m. m(ph_id p \<mapsto> fst (call_tool pl p tool payload))) peers Map.empty))"
proof -
  let ?a = "\<lambda>p. call_tool pl p tool
    (Object [(''kind_filter'', opt_strings_json kf), (''source_filter'', opt_strings_json sf)])"
  have "fold (\<lambda>(peer_id, ans) (rows, m). (rows @ peer_rows field peer_id ans, m(peer_id \<mapsto> fst ans)))
      (map (\<lambda>p. (ph_id p, ?a p)) ps) (rs, m)
    = (rs @ concat (map (\<lambda>p. peer_rows field (ph_id p) (?a p)) ps), fold (\<lambda>p m. m(ph_id p \<mapsto> fst (?a p))) ps m)" for ps rs m
    by (induction ps arbitrary: rs m) simp_all
  then show ?thesis by (cases peers) (simp_all add: fan_out_def Let_def)
qed

lemma fold_status:
  "fold (\<lambda>p m. m(ph_id p \<mapsto> h p)) ps Map.empty i = map_option h (find (\<lambda>p. ph_id p = i) (rev ps))"
  by (induction ps rule: rev_induct) auto

text \<open>
  What a federated answer owes its peers, from their replies alone. The request each is sent; the
  reply that counts as an answer (a success status, a JSON body, no \<open>error\<close> member); the rows in it; the label
  a row gets, which replaces any \<open>peer_id\<close> of its own and which only an object has room for; and
  the status a reply stands for.
\<close>

definition peer_request :: "string \<Rightarrow> filter_args \<Rightarrow> json" where
  "peer_request tool args = Object [(''id'', Number (PosInt 1)), (''jsonrpc'', String ''2.0''),
     (''method'', String ''tools/call''),
     (''params'', Object [(''arguments'', Object [(''kind_filter'', opt_strings_json (fa_kind_filter args)),
                                                  (''source_filter'', opt_strings_json (fa_source_filter args))]),
                          (''name'', String tool)])]"

definition peer_answer :: "peer_reply \<Rightarrow> json option" where
  "peer_answer r = (case r of
     Replied s (Inr envelope) \<Rightarrow>
       if 200 \<le> s \<and> s < 300 \<and> json_get envelope ''error'' = None then Some envelope else None
   | _ \<Rightarrow> None)"

definition peer_sent :: "string \<Rightarrow> peer_reply \<Rightarrow> json list" where
  "peer_sent field r = (case fold (\<lambda>k v. Option.bind v (\<lambda>j. json_get j k)) [''result'', ''structuredContent'', field]
      (peer_answer r) of
     Some (Array xs) \<Rightarrow> xs
   | _ \<Rightarrow> [])"

fun labelled :: "string \<Rightarrow> json \<Rightarrow> json \<Rightarrow> bool" where
  "labelled pid (Object es) row \<longleftrightarrow> (case row of
     Object fs \<Rightarrow> map_of fs = (map_of es)(''peer_id'' \<mapsto> String pid) | _ \<Rightarrow> False)"
| "labelled pid j row \<longleftrightarrow> row = j"

definition status_fits :: "peer_reply \<Rightarrow> peer_status \<Rightarrow> bool" where
  "status_fits r s \<longleftrightarrow> (s = PeerOk) = (peer_answer r \<noteq> None) \<and> (s = PeerTimeout) = (r = TimedOut)"

definition attributed :: "peer_lib \<Rightarrow> string \<Rightarrow> string \<Rightarrow> peer_handle list \<Rightarrow> filter_args \<Rightarrow> json list
    \<Rightarrow> json list \<times> peer_status hash_map \<Rightarrow> bool" where
  "attributed pl tool field peers args rows result \<longleftrightarrow>
     (let reply = (\<lambda>p. pl_reply pl p (peer_request tool args))
      in (\<exists>added. fst result = rows @ concat added
            \<and> list_all2 (\<lambda>p. list_all2 (labelled (ph_id p)) (peer_sent field (reply p))) peers added)
         \<and> (\<forall>i. rel_option (status_fits \<circ> reply) (find (\<lambda>p. ph_id p = i) (rev peers)) (snd result i)))"

lemma labelled_insert_field: "labelled pid j (insert_field ''peer_id'' (String pid) j)"
  by (cases j) (simp_all add: map_of_btree_insert)

abbreviation peer_payload :: "filter_args \<Rightarrow> json" where
  "peer_payload args \<equiv> Object [(''kind_filter'', opt_strings_json (fa_kind_filter args)),
     (''source_filter'', opt_strings_json (fa_source_filter args))]"

lemma call_tool_reply:
  "\<exists>s. call_tool pl p tool (peer_payload args) =
      (s, Option.bind (peer_answer (pl_reply pl p (peer_request tool args)))
            (\<lambda>env. Option.bind (json_get env ''result'') (\<lambda>r. json_get r ''structuredContent'')))
    \<and> status_fits (pl_reply pl p (peer_request tool args)) s"
proof (cases "pl_reply pl p (peer_request tool args)")
  case (Replied n content)
  then show ?thesis
    unfolding call_tool_def Let_def peer_request_def [symmetric]
    by (cases content) (auto simp: peer_answer_def status_fits_def split: option.split)
qed (unfold call_tool_def Let_def peer_request_def [symmetric], simp_all add: peer_answer_def status_fits_def)

lemma call_tool_status:
  "status_fits (pl_reply pl p (peer_request tool args)) (fst (call_tool pl p tool (peer_payload args)))"
  using call_tool_reply [of pl p tool args] by auto

lemma call_tool_rows:
  "peer_rows field pid (call_tool pl p tool (peer_payload args))
    = map (insert_field ''peer_id'' (String pid)) (peer_sent field (pl_reply pl p (peer_request tool args)))"
proof -
  let ?r = "pl_reply pl p (peer_request tool args)"
  obtain s where s: "call_tool pl p tool (peer_payload args) = (s, Option.bind (peer_answer ?r)
      (\<lambda>env. Option.bind (json_get env ''result'') (\<lambda>r. json_get r ''structuredContent'')))" "status_fits ?r s"
    using call_tool_reply by blast
  have arr: "(case Option.bind x as_array of Some a \<Rightarrow> map f a | None \<Rightarrow> [])
      = map f (case x of Some (Array a) \<Rightarrow> a | _ \<Rightarrow> [])" for x and f :: "json \<Rightarrow> json"
    by (cases x; cases "the x") simp_all
  show ?thesis
  proof (cases "peer_answer ?r")
    case None
    then show ?thesis by (simp add: s(1) peer_rows_def peer_sent_def split: peer_status.split)
  next
    case (Some env)
    then have "s = PeerOk" using s(2) by (simp add: status_fits_def)
    then show ?thesis
      by (cases "Option.bind (json_get env ''result'') (\<lambda>r. json_get r ''structuredContent'')")
        (simp_all add: s(1) Some peer_rows_def peer_sent_def arr)
  qed
qed

lemma fan_out_attributed:
  "attributed pl tool field peers args rows (fan_out pl tool field peers (fa_source_filter args) (fa_kind_filter args) rows)"
  unfolding attributed_def fan_out_eq Let_def fst_conv snd_conv call_tool_rows fold_status
proof (intro conjI allI exI)
  show "rows @ concat (map (\<lambda>p. map (insert_field ''peer_id'' (String (ph_id p)))
        (peer_sent field (pl_reply pl p (peer_request tool args)))) peers)
    = rows @ concat (map (\<lambda>p. map (insert_field ''peer_id'' (String (ph_id p)))
        (peer_sent field (pl_reply pl p (peer_request tool args)))) peers)" by (rule refl)
  show "list_all2 (\<lambda>p. list_all2 (labelled (ph_id p)) (peer_sent field (pl_reply pl p (peer_request tool args)))) peers
      (map (\<lambda>p. map (insert_field ''peer_id'' (String (ph_id p))) (peer_sent field (pl_reply pl p (peer_request tool args)))) peers)"
    by (simp add: list_all2_map2 list_all2_same labelled_insert_field)
  show "rel_option (status_fits \<circ> (\<lambda>p. pl_reply pl p (peer_request tool args))) (find (\<lambda>p. ph_id p = i) (rev peers))
      (map_option (\<lambda>p. fst (call_tool pl p tool (peer_payload args))) (find (\<lambda>p. ph_id p = i) (rev peers)))" for i
    by (cases "find (\<lambda>p. ph_id p = i) (rev peers)") (simp_all add: call_tool_status)
qed

section \<open>Properties\<close>

text \<open>
  C4. \<open>get_window\<close> paginates exactly: with a working store that does not change meanwhile and a cursor
  encoding that can be read back, a client that passes each page's cursor on ends after finitely many
  calls, and the pages joined are every stored event the filter selects, in timestamp order and each
  exactly once, whatever the page size.
\<close>

theorem get_window_walk_complete:
  assumes "cold_inv c st"
    and "\<And>bs. b64_decode cc (b64_encode cc bs) = Some bs" "\<And>pl. cbor_read cc (cbor_write cc pl) = Some pl"
    and "gw_start_ms args < gw_end_ms args" "gw_limit args \<noteq> Some 0" "gw_cursor args = None"
  shows "\<exists>pages. window_walk (Suc (length (events_tbl st))) c like cc st args = Some (Inr pages)
    \<and> sorted (map ts_ms_utc (concat pages)) \<and> distinct (map event_id (concat pages))
    \<and> mset (concat pages)
        = {# projr (row_to_event c r). r \<in># filter_mset (window_where like (gw_filter args)) (mset (events_tbl st)) #}"
proof -
  have laws: "cursor_laws cc" using assms(2,3) by (simp add: cursor_laws_def)
  have pos: "0 < limit (gw_filter args)" using assms(5) by (auto simp: gw_filter_def MAX_WINDOW_LIMIT_def split: option.split)
  have "length (window_events c like (gw_filter args) st) \<le> length (events_tbl st)"
    by (simp add: window_events_def window_all_def)
  then obtain pages where "window_walk (Suc (length (events_tbl st))) c like cc st args = Some (Inr pages)"
      "concat pages = window_events c like (gw_filter args) st"
    using window_walk_drop [OF assms(1) laws assms(4) pos, of 0 like "Suc (length (events_tbl st))"] assms(6) by auto
  then show ?thesis
    using sorted_window_events [OF assms(1)] distinct_window_events [OF assms(1)] mset_window_events by metis
qed

definition demo_args :: "string list option \<Rightarrow> get_window_args" where
  "demo_args kinds = \<lparr> gw_start_ms = 0, gw_end_ms = 9, gw_source_filter = None, gw_kind_filter = kinds,
     gw_limit = Some 1, gw_cursor = None \<rparr>"

lemma demo_args_simps [simp]:
  "gw_start_ms (demo_args ks) = 0" "gw_end_ms (demo_args ks) = 9" "gw_cursor (demo_args ks) = None"
  "gw_limit (demo_args ks) = Some 1" "gw_kind_filter (demo_args ks) = ks"
  "gw_kind_filter (demo_args ks \<lparr> gw_cursor := x \<rparr>) = ks" "limit (gw_filter (demo_args ks)) = 1"
  by (simp_all add: demo_args_def gw_filter_def MAX_WINDOW_LIMIT_def)

definition demo_store :: cold_store where
  "demo_store = fst (cold_append demo_codec None [sample_event 1 ''s1'' ''k'' 7] cold_open_in_memory)"

lemma demo_store_inv: "cold_inv demo_codec demo_store" "length (events_tbl demo_store) = 1"
proof -
  show "cold_inv demo_codec demo_store"
    unfolding demo_store_def by (rule cold_inv_append) (simp_all add: cold_inv_open)
  show "length (events_tbl demo_store) = 1"
    by (simp add: demo_store_def cold_append_encodable cold_open_in_memory_def insert_or_ignore_def)
qed

lemma demo_store_log: "log_of demo_codec demo_store 1 = Some (stored_form (sample_event 1 ''s1'' ''k'' 7))"
  using enc_props [OF demo_ulid_codec demo_encodable [of 1 "''s1''" "''k''" 7]]
  by (simp add: log_of_eq demo_store_def cold_append_encodable cold_open_in_memory_def insert_or_ignore_def decoded_simps)

theorem get_window_walk_complete_witness:
  "\<exists>pages. window_walk 2 demo_codec demo_like demo_cursor_codec demo_store (demo_args None) = Some (Inr pages)
     \<and> distinct (map event_id (concat pages))"
proof -
  have "gw_start_ms (demo_args None) < gw_end_ms (demo_args None)" "gw_limit (demo_args None) \<noteq> Some 0"
    "gw_cursor (demo_args None) = None" by simp_all
  from get_window_walk_complete [OF demo_store_inv(1) demo_cursor_codec_simps this, of demo_like]
  show ?thesis unfolding demo_store_inv(2) Suc_1 by blast
qed

text \<open>
  A cursor is only good for the query it came from: presenting the cursor of a page of one query
  with arguments whose filter hash is different is refused as a filter mismatch, and no event is returned.
\<close>

lemma get_window_foreign_cursor:
  assumes "\<And>bs. b64_decode cc (b64_encode cc bs) = Some bs" "\<And>pl. cbor_read cc (cbor_write cc pl) = Some pl"
    and "get_window c like cc db (Some st) args = Inr page" "wp_cursor page = Some s"
    and "gw_start_ms args' < gw_end_ms args'" "gw_cursor args' = Some s" "gw_hash cc args' \<noteq> gw_hash cc args"
  shows "get_window c like cc db' (Some st') args' = Inl CursorFilterMismatch"
proof -
  have laws: "cursor_laws cc" using assms(1,2) by (simp add: cursor_laws_def)
  from assms(3,4) obtain e where "s = gw_cursor_at cc args e"
    unfolding get_window_eq by (auto split: if_split_asm sum.split_asm)
  then have "cursor_decode cc s (gw_hash cc args') = Inl FilterMismatch"
    using cursor_lawsD [OF laws] assms(7) by (simp add: gw_cursor_at_def)
  then show ?thesis using assms(5,6) by (simp add: get_window_eq)
qed

text \<open>
  C20. \<open>get_current_state\<close> answers with the current state: for the descriptors the filters select, in
  registry order, exactly those with an event have an entry; the entry's event belongs to the
  descriptor's source and kind, is the newest of the hot ring when the ring has any and the store's
  latest one otherwise (and says which), with its age and whether it is past the freshness limit.
\<close>

theorem current_states_exact:
  assumes "cold_inv c st" "hot_inv hr"
    and "\<forall>d \<in> set rows. \<forall>e. hot_latest hr (rd_source_id d) (rd_kind d) = Some e
           \<or> current_of c st (rd_source_id d, rd_kind d) = Some e \<longrightarrow> in_i64 (now - ts_ms_utc e)"
  shows "\<exists>es. current_states c None now hr (Some st) rows = Some (Inr es)
    \<and> map ce_descriptor es = filter (\<lambda>d. hot_snapshot hr (rd_source_id d) (rd_kind d) \<noteq> []
          \<or> current_of c st (rd_source_id d, rd_kind d) \<noteq> None) rows
    \<and> (\<forall>x \<in> set es. let d = ce_descriptor x; ring = hot_snapshot hr (rd_source_id d) (rd_kind d) in
          source_id (ce_event x) = rd_source_id d \<and> kind (ce_event x) = rd_kind d
          \<and> Some (ce_event x) = (if ring = [] then current_of c st (rd_source_id d, rd_kind d) else Some (last ring))
          \<and> (ce_from_cold x \<longleftrightarrow> ring = [])
          \<and> ce_age_ms x = now - ts_ms_utc (ce_event x)
          \<and> (ce_stale x \<longleftrightarrow> (\<exists>ttl. rd_freshness_ttl_ms d = Some ttl \<and> ttl < ce_age_ms x)))"
  using assms(3)
proof (induction rows)
  case (Cons d ds)
  then obtain es where es: "current_states c None now hr (Some st) ds = Some (Inr es)"
    "map ce_descriptor es = filter (\<lambda>d. hot_snapshot hr (rd_source_id d) (rd_kind d) \<noteq> []
          \<or> current_of c st (rd_source_id d, rd_kind d) \<noteq> None) ds"
    "\<forall>x \<in> set es. let d = ce_descriptor x; ring = hot_snapshot hr (rd_source_id d) (rd_kind d) in
          source_id (ce_event x) = rd_source_id d \<and> kind (ce_event x) = rd_kind d
          \<and> Some (ce_event x) = (if ring = [] then current_of c st (rd_source_id d, rd_kind d) else Some (last ring))
          \<and> (ce_from_cold x \<longleftrightarrow> ring = [])
          \<and> ce_age_ms x = now - ts_ms_utc (ce_event x)
          \<and> (ce_stale x \<longleftrightarrow> (\<exists>ttl. rd_freshness_ttl_ms d = Some ttl \<and> ttl < ce_age_ms x))"
    by auto
  let ?s = "rd_source_id d" and ?k = "rd_kind d"
  show ?case
  proof (cases "hot_snapshot hr ?s ?k = []")
    case True
    then show ?thesis
      using es Cons.prems current_of_key [OF assms(1), of ?s ?k] state_event_eq [OF assms(1), of hr d]
      by (cases "current_of c st (?s, ?k)")
        (auto simp: hot_latest_snapshot event_key_def Let_def split: option.split)
  next
    case False
    then have "event_key (last (hot_snapshot hr ?s ?k)) = (?s, ?k)"
      using assms(2) by (simp add: hot_inv_def)
    with False show ?thesis
      using es Cons.prems state_event_eq [OF assms(1), of hr d]
      by (auto simp: hot_latest_snapshot event_key_def Let_def split: option.split)
  qed
qed simp

definition demo_descriptor :: "string \<Rightarrow> string \<Rightarrow> resolved_descriptor" where
  "demo_descriptor s k = \<lparr> rd_source_id = s, rd_kind = k, rd_kind_version = ''v1'', rd_description = [], rd_usage = [],
     rd_caveats = [], rd_semantic_schema = None, rd_units = None, rd_sampling_hint_ms = None,
     rd_freshness_ttl_ms = Some 5, rd_location = None \<rparr>"

lemma demo_store_current:
  "current_of demo_codec demo_store (''s1'', ''k'') = Some (stored_form (sample_event 1 ''s1'' ''k'' 7))"
  using enc_props [OF demo_ulid_codec demo_encodable [of 1 "''s1''" "''k''" 7]]
  by (simp add: current_of_eq demo_store_def cold_append_encodable cold_open_in_memory_def upsert_latest_def
      decoded_simps latest_in_batch_def event_key_def)

theorem current_states_exact_witness:
  "\<exists>es. current_states demo_codec None 100 (hot_rings_new hot_ring_config_default) (Some demo_store)
      [demo_descriptor ''s1'' ''k''] = Some (Inr es)
    \<and> map ce_descriptor es = [demo_descriptor ''s1'' ''k'']"
proof -
  let ?d = "demo_descriptor ''s1'' ''k''"
  have fields: "rd_source_id ?d = ''s1''" "rd_kind ?d = ''k''" by (simp_all add: demo_descriptor_def)
  have "ts_ms_utc (stored_form (sample_event 1 ''s1'' ''k'' 7)) = 7" by (simp add: stored_form_def)
  then have age: "\<forall>d \<in> set [?d]. \<forall>e. hot_latest (hot_rings_new hot_ring_config_default) (rd_source_id d) (rd_kind d) = Some e
      \<or> current_of demo_codec demo_store (rd_source_id d, rd_kind d) = Some e \<longrightarrow> in_i64 (100 - ts_ms_utc e)"
    by (auto simp: fields demo_store_current hot_latest_snapshot hot_rings_new_def hot_snapshot_def rust_defs)
  show ?thesis
    using current_states_exact [OF demo_store_inv(1) hot_inv_new age] by (auto simp: fields demo_store_current)
qed

text \<open>
  C39. A version-pinned event does not reach the current state of its kind: hot rings and the store's
  latest table are keyed by the kind as sent, and the registry has kinds without a version, so
  pushing and storing an event of kind \<open>k@v\<close> leaves what \<open>get_current_state\<close> finds for
  every registered kind as it was.
\<close>

theorem pinned_kind_not_current:
  assumes "ulid_codec c" "encodable c e" "CHR ''@'' \<in> set (kind e)" "CHR ''@'' \<notin> set (rd_kind d)"
  shows "state_event c None (fst (hot_push now e hr)) (Some (fst (cold_append c None [e] st))) d
    = state_event c None hr (Some st) d"
proof -
  have key: "event_key e \<noteq> (rd_source_id d, rd_kind d)" using assms(3,4) by (auto simp: event_key_def)
  then have hot: "hot_latest (fst (hot_push now e hr)) (rd_source_id d) (rd_kind d) = hot_latest hr (rd_source_id d) (rd_kind d)"
    by (auto simp: hot_latest_snapshot hot_snapshot_push event_key_def)
  have "latest_tbl (fst (cold_append c None [e] st)) (rd_source_id d, rd_kind d) = latest_tbl st (rd_source_id d, rd_kind d)"
    using key enc_props(7) [OF assms(1,2)]
    by (simp add: cold_append_encodable [OF assms(1)] assms(2) latest_in_batch_def upsert_latest_def split: option.split)
  with hot show ?thesis by (simp add: state_event_def cold_latest_def split: option.split)
qed

theorem pinned_kind_not_current_witness:
  "state_event demo_codec None (fst (hot_push 8 (sample_event 2 ''s1'' ''k@v2'' 8) (hot_rings_new hot_ring_config_default)))
     (Some (fst (cold_append demo_codec None [sample_event 2 ''s1'' ''k@v2'' 8] cold_open_in_memory)))
     (demo_descriptor ''s1'' ''k'') = Inr None"
  using pinned_kind_not_current [of demo_codec "sample_event 2 ''s1'' ''k@v2'' 8" "demo_descriptor ''s1'' ''k''" 8
      "hot_rings_new hot_ring_config_default" cold_open_in_memory]
  by (simp add: demo_descriptor_def state_event_def hot_latest_snapshot hot_rings_new_def hot_snapshot_def
      cold_latest_def optional_row_def cold_open_in_memory_def)

text \<open>
  C21. \<open>search_events\<close> returns the best hits that are still in the log: with a time range, if any, that is not
  empty, patterns that compile and no NaN score, the answer has at most the clamped limit (never more than 50) of hits, in order of descending
  score; each is a stored event with the score of a vector of that event that the filter (time range, start
  included and end not, sources and kinds) selects; and
  every best hit whose event is in the log is there.
\<close>

theorem search_events_best:
  assumes "cold_inv c st" "trim (se_query args) \<noteq> []"
    and "case se_time_range args of None \<Rightarrow> True | Some t \<Rightarrow> tr_start_ms t < tr_end_ms t"
    and "build_filter_globs gl (se_source_filter args) = Inr sg" "build_filter_globs gl (se_kind_filter args) = Inr kg"
    and "cands = map (hit_of (emb_embed em (se_query args)))
          (filter (row_selected gl \<lparr> vf_start_ms = map_option tr_start_ms (se_time_range args),
             vf_end_ms = map_option tr_end_ms (se_time_range args), vf_source_filter = se_source_filter args,
             vf_kind_filter = se_kind_filter args \<rparr> sg kg) (vi_rows vi))"
    and "no_nan cands"
  shows "\<exists>hits out. search_events gl c None (Some vi) (Some em) (Some st) args = Some (Inr out)
    \<and> mset hits \<subseteq># mset cands
    \<and> length hits = min (max 1 (min 50 (case se_limit args of Some n \<Rightarrow> n | None \<Rightarrow> 10))) (length cands)
    \<and> (\<forall>h \<in># mset hits. \<forall>x \<in># mset cands - mset hits. f32_val (score x) \<le> f32_val (score h))
    \<and> sorted_wrt (\<lambda>a b. f32_val (so_score b) \<le> f32_val (so_score a)) out
    \<and> out = map (\<lambda>h. \<lparr> so_event = the (log_of c st (sh_event_id h)), so_score = score h, so_truncated = sh_truncated h \<rparr>)
         (filter (\<lambda>h. log_of c st (sh_event_id h) \<noteq> None) hits)"
proof -
  let ?k = "max 1 (min MAX_SEARCH_LIMIT (case se_limit args of Some n \<Rightarrow> n | None \<Rightarrow> DEFAULT_SEARCH_LIMIT))"
  let ?f = "\<lparr> vf_start_ms = map_option tr_start_ms (se_time_range args), vf_end_ms = map_option tr_end_ms (se_time_range args),
     vf_source_filter = se_source_filter args, vf_kind_filter = se_kind_filter args \<rparr>"
  have "0 < ?k" "best ?k {#} (mset [])" "no_nan []" by (simp_all add: best_def no_nan_def)
  from search_loop_best [OF this assms(7)]
  obtain heap where heap: "search_loop ?k cands [] = Some heap" "best ?k (mset cands) (mset heap)" "no_nan heap"
    by auto
  let ?out = "map (\<lambda>h. \<lparr> so_event = the (log_of c st (sh_event_id h)), so_score = score h, so_truncated = sh_truncated h \<rparr>)
     (filter (\<lambda>h. log_of c st (sh_event_id h) \<noteq> None) (sort_desc heap))"
  have "hydrate c None st (sort_desc heap) = Inr ?out" by (rule hydrate_out [OF assms(1)])
  moreover have "search_kn gl (emb_embed em (se_query args)) ?k ?f vi = Some (Inr (sort_desc heap))"
    using heap(1) assms(4-6) by (simp add: search_kn_def)
  ultimately have "search_events gl c None (Some vi) (Some em) (Some st) args = Some (Inr ?out)"
    using assms(2,3) by (cases "se_time_range args") (simp_all add: search_events_def Let_def)
  moreover have "sorted_wrt (\<lambda>a b. f32_val (so_score b) \<le> f32_val (so_score a)) ?out"
    using sorted_sort_desc [OF heap(3)] by (simp add: sorted_wrt_map sorted_wrt_filter)
  moreover have "length (sort_desc heap) = min ?k (length cands)"
    using heap(2) by (metis best_def mset_sort_desc size_mset)
  ultimately show ?thesis
    using heap(2) unfolding best_def MAX_SEARCH_LIMIT_def DEFAULT_SEARCH_LIMIT_def
    by (intro exI [of _ "sort_desc heap"] exI [of _ ?out]) simp
qed

definition demo_search :: search_events_args where
  "demo_search = \<lparr> se_query = ''q'', se_time_range = Some \<lparr> tr_start_ms = 5, tr_end_ms = 8 \<rparr>,
     se_source_filter = None, se_kind_filter = Some [''k''], se_limit = Some 0 \<rparr>"

text \<open>An index with a vector in the range of \<open>demo_search\<close>, one at its end and one of another kind.\<close>

definition demo_vector_row :: "ulid \<Rightarrow> string \<Rightarrow> i64 \<Rightarrow> in_memory_row" where
  "demo_vector_row i k t = \<lparr> m_event_id = i, m_source_id = ''s1'', m_kind = k, m_ts_ms_utc = t,
     m_truncated = False, m_vector = [0x3F800000] \<rparr>"

theorem search_events_best_witness:
  "\<exists>out. search_events demo_globs demo_codec None
      (Some \<lparr> vectors_tbl = [], vi_rows = [demo_vector_row 2 ''k'' 8, demo_vector_row 1 ''k'' 7, demo_vector_row 3 ''j'' 7] \<rparr>)
      (Some \<lparr> emb_embed = (\<lambda>_. [0x3F800000]), emb_dim = 1, emb_model_id = ''m'' \<rparr>) (Some demo_store) demo_search = Some (Inr out)
    \<and> map so_score out = [0x3F800000] \<and> map so_event out = [stored_form (sample_event 1 ''s1'' ''k'' 7)]"
proof -
  let ?vi = "\<lparr> vectors_tbl = [], vi_rows = [demo_vector_row 2 ''k'' 8, demo_vector_row 1 ''k'' 7, demo_vector_row 3 ''j'' 7] \<rparr>"
  let ?em = "\<lparr> emb_embed = (\<lambda>_. [0x3F800000]), emb_dim = 1, emb_model_id = ''m'' \<rparr> :: embedder"
  let ?h = "hit_of [0x3F800000] (demo_vector_row 1 ''k'' 7)"
  have q: "trim (se_query demo_search) \<noteq> []" by (simp add: demo_search_def, code_simp)
  have t: "case se_time_range demo_search of None \<Rightarrow> True | Some t \<Rightarrow> tr_start_ms t < tr_end_ms t"
    by (simp add: demo_search_def)
  have globs: "build_filter_globs demo_globs (se_source_filter demo_search) = Inr None"
    "build_filter_globs demo_globs (se_kind_filter demo_search) = Inr (Some [''k''])"
    by (simp_all add: demo_search_def build_filter_globs_def)
  have cands: "[?h] = map (hit_of (emb_embed ?em (se_query demo_search)))
      (filter (row_selected demo_globs \<lparr> vf_start_ms = map_option tr_start_ms (se_time_range demo_search),
         vf_end_ms = map_option tr_end_ms (se_time_range demo_search), vf_source_filter = se_source_filter demo_search,
         vf_kind_filter = se_kind_filter demo_search \<rparr> None (Some [''k''])) (vi_rows ?vi))"
    by (simp add: demo_search_def demo_vector_row_def row_selected_def filter_globs_match_def glob_set_is_match_def)
  have s: "score ?h = 0x3F800000"
    by (simp add: hit_of_def demo_vector_row_def cosine_similarity_def f32_one)
  have "no_nan [?h]" by (simp add: no_nan_def s f32_is_nan_def f32_exp_def f32_man_def)
  from search_events_best [OF demo_store_inv(1) q t globs cands this]
  obtain hits out where o: "search_events demo_globs demo_codec None (Some ?vi) (Some ?em) (Some demo_store) demo_search = Some (Inr out)"
      "mset hits \<subseteq># {#?h#}" "length hits = Suc 0"
      "out = map (\<lambda>h. \<lparr> so_event = the (log_of demo_codec demo_store (sh_event_id h)), so_score = score h, so_truncated = sh_truncated h \<rparr>)
         (filter (\<lambda>h. log_of demo_codec demo_store (sh_event_id h) \<noteq> None) hits)"
    by (auto simp: demo_search_def)
  from o(3) obtain h where h: "hits = [h]" by (cases hits) auto
  with o(2) have "hits = [?h]" by simp
  moreover have "sh_event_id ?h = 1" by (simp add: hit_of_def demo_vector_row_def)
  ultimately show ?thesis using o(1,4) s by (intro exI [of _ out]) (simp add: demo_store_log)
qed

text \<open>
  C36. Federation never hides local rows and neither loses nor mislabels a peer's, in \<open>describe_sources\<close> and
  in \<open>get_current_state\<close>: the local rows come first and unchanged; after them, peer by peer in the configured
  order, come exactly the rows the peer's reply holds, each object with its \<open>peer_id\<close> set to that peer whatever
  it said before and nothing else changed (a row that is no object goes in as it is, unlabelled); a
  peer whose reply is not a successful answer adds none. The status map has exactly the peers' ids:
  ok for a successful answer, timeout for none in time and an error for anything else (of several peers with one
  id, the last).
\<close>

theorem federation_attributes:
  "attributed pl ''describe_sources'' ''sources'' peers args rows (fan_out_describe_sources pl peers args rows)
   \<and> attributed pl ''get_current_state'' ''states'' peers args rows (fan_out_get_current_state pl peers args rows)"
  unfolding fan_out_describe_sources_def fan_out_get_current_state_def by (intro conjI fan_out_attributed)

text \<open>The registry's pair lookup agrees with a scan of its rows: it returns the last row of the pair, if any.\<close>

lemma registry_lookup_scan:
  "registry_lookup (registry_new rows) s k = find (\<lambda>r. rd_source_id r = s \<and> rd_kind r = k) (rev rows)"
proof (induction rows rule: rev_induct)
  case Nil
  then show ?case by (simp add: registry_lookup_def registry_new_def)
next
  case (snoc r rows)
  have bound: "i < length rows" if "dr_by_pair (registry_new rows) p = Some i" for i p
    using that
    by (induction rows rule: rev_induct)
      (auto simp: registry_new_def enumerate_append_eq less_Suc_eq split: if_splits)
  show ?case
    using snoc bound [of "(s, k)"]
    by (auto simp: registry_lookup_def registry_new_def enumerate_append_eq nth_append split: option.split)
qed

end
