(* ===== verification/Mcp_Router.thy ===== *)
theory Mcp_Router
  imports Mcp_Tools Http_Ingest
begin

text \<open>
  \<open>crates/percept/src/mcp/router.rs\<close> and \<open>protocol.rs\<close>: the \<open>POST /mcp\<close> handler, that is the bearer check, the JSON-RPC
  envelope, the method dispatch and the four tool calls. What \<open>serde\<close> derives (reading a request, the
  parameters and the arguments of a tool, writing an entry) and the texts of errors are parameters
  (record \<open>rpc_lib\<close>); JSON objects list their entries in key order. A panic inside a tool ends the
  request with no answer: the handler's result is then \<open>None\<close>.
\<close>

section \<open>Protocol\<close>

definition PROTOCOL_VERSION :: string where
  "PROTOCOL_VERSION = ''2024-11-05''"

record rpc_request =
  rq_jsonrpc :: string
  rq_id :: "json option"
  rq_method :: string
  rq_params :: "json option"

record rpc_error =
  rpc_code :: int
  rpc_message :: string
  rpc_data :: "json option"

datatype response_payload = RpcOk json | RpcErr rpc_error

record rpc_response =
  rr_jsonrpc :: string
  rr_id :: "json option"
  rr_payload :: response_payload

definition parse_error :: "string \<Rightarrow> rpc_error" where
  "parse_error msg = \<lparr> rpc_code = -32700, rpc_message = msg, rpc_data = None \<rparr>"

definition invalid_request :: "string \<Rightarrow> rpc_error" where
  "invalid_request msg = \<lparr> rpc_code = -32600, rpc_message = msg, rpc_data = None \<rparr>"

definition method_not_found :: "string \<Rightarrow> rpc_error" where
  "method_not_found method = \<lparr> rpc_code = -32601, rpc_message = ''method not found: '' @ method, rpc_data = None \<rparr>"

definition invalid_params :: "string \<Rightarrow> rpc_error" where
  "invalid_params msg = \<lparr> rpc_code = -32602, rpc_message = msg, rpc_data = None \<rparr>"

definition rpc_ok :: "json option \<Rightarrow> json \<Rightarrow> rpc_response" where
  "rpc_ok i result = \<lparr> rr_jsonrpc = ''2.0'', rr_id = i, rr_payload = RpcOk result \<rparr>"

definition rpc_err :: "json option \<Rightarrow> rpc_error \<Rightarrow> rpc_response" where
  "rpc_err i e = \<lparr> rr_jsonrpc = ''2.0'', rr_id = i, rr_payload = RpcErr e \<rparr>"

record call_params =
  cp_name :: string
  cp_arguments :: "json option"

section \<open>Input schemas\<close>

definition string_array :: "(string \<times> json) list \<Rightarrow> json" where
  "string_array extra = Object (extra @ [(''items'', Object [(''type'', String ''string'')]), (''type'', String ''array'')])"

definition describe_sources_input_schema :: json where
  "describe_sources_input_schema = Object
     [(''additionalProperties'', Bool False),
      (''properties'', Object
        [(''kind_filter'', string_array [(''description'', String ''Shell-style globs against kind. Omit for all.'')]),
         (''source_filter'', string_array [(''description'', String ''Shell-style globs against source_id. Omit for all.'')])]),
      (''type'', String ''object'')]"

definition get_current_state_input_schema :: json where
  "get_current_state_input_schema = Object
     [(''additionalProperties'', Bool False),
      (''properties'', Object [(''kind_filter'', string_array []), (''source_filter'', string_array [])]),
      (''type'', String ''object'')]"

definition get_window_input_schema :: json where
  "get_window_input_schema = Object
     [(''additionalProperties'', Bool False),
      (''properties'', Object
        [(''cursor'', Object [(''description'', String ''Opaque cursor returned by a previous get_window call.''), (''type'', String ''string'')]),
         (''end_ms'', Object [(''description'', String ''UTC ms, exclusive.''), (''type'', String ''integer'')]),
         (''kind_filter'', string_array []),
         (''limit'', Object [(''maximum'', Number (PosInt 10000)), (''minimum'', Number (PosInt 1)), (''type'', String ''integer'')]),
         (''source_filter'', string_array []),
         (''start_ms'', Object [(''description'', String ''UTC ms, inclusive.''), (''type'', String ''integer'')])]),
      (''required'', Array [String ''start_ms'', String ''end_ms'']),
      (''type'', String ''object'')]"

definition search_events_input_schema :: json where
  "search_events_input_schema = Object
     [(''additionalProperties'', Bool False),
      (''properties'', Object
        [(''kind_filter'', string_array []),
         (''limit'', Object [(''description'', String (''Top-k cap (default 10, hard max 50 per DESIGN '' @ map char_of [194 :: nat, 167] @ ''11.1).'')),
            (''maximum'', Number (PosInt 50)), (''minimum'', Number (PosInt 1)), (''type'', String ''integer'')]),
         (''query'', Object [(''description'', String ''Free-text query to embed and ANN-search the vector index.''), (''type'', String ''string'')]),
         (''source_filter'', string_array []),
         (''time_range'', Object
            [(''additionalProperties'', Bool False),
             (''properties'', Object [(''end_ms'', Object [(''type'', String ''integer'')]), (''start_ms'', Object [(''type'', String ''integer'')])]),
             (''required'', Array [String ''start_ms'', String ''end_ms'']),
             (''type'', String ''object'')])]),
      (''required'', Array [String ''query'']),
      (''type'', String ''object'')]"

record tool =
  tool_name :: string
  tool_description :: string
  tool_input_schema :: json

definition tools_list :: "tool list" where
  "tools_list =
     [\<lparr> tool_name = ''describe_sources'',
        tool_description = ''What sensors are available, what they mean, and which are currently misbehaving. Returns merged Source+Kind descriptors plus a recent_errors digest per source.'',
        tool_input_schema = describe_sources_input_schema \<rparr>,
      \<lparr> tool_name = ''get_current_state'',
        tool_description = ''Latest event per (source, kind) from the hot ring. Each entry carries age_ms and a stale flag derived from the descriptor'' @ [CHR 0x27] @ ''s freshness_ttl_ms. Falls back to the cold store on a hot-ring miss; those rows are tagged from_cold = true.'',
        tool_input_schema = get_current_state_input_schema \<rparr>,
      \<lparr> tool_name = ''get_window'',
        tool_description = ''Time-range scan from the cold store. Paginated via an opaque cursor. Ordered by (ts_ms_utc, event_id) ascending. Per-call hard limit 10,000 events.'',
        tool_input_schema = get_window_input_schema \<rparr>,
      \<lparr> tool_name = ''search_events'',
        tool_description = ''Semantic search via the vector index, with optional time / source / kind filters. Returns the top-k hits with similarity scores and the matching events. Requires the embedder to be configured (see [storage].embed_default and per-kind / per-source `embed`).'',
        tool_input_schema = search_events_input_schema \<rparr>]"

section \<open>Handling a request\<close>

record mcp_state =
  mcp_token :: string
  mcp_registry :: descriptor_registry
  mcp_hot_rings :: hot_rings
  mcp_cold_store :: "cold_store option"
  mcp_vector_index :: "vector_index option"
  mcp_embedder :: "embedder option"
  mcp_retention_policies :: "retention_policy list"
  mcp_peers :: "peer_handle list"
  mcp_metrics :: metrics

record rpc_lib =
  rl_header_to_str :: "bytes \<Rightarrow> string option"
  rl_request :: "bytes \<Rightarrow> string + rpc_request"
  rl_call_params :: "json \<Rightarrow> string + call_params"
  rl_filter_args :: "json \<Rightarrow> string + filter_args"
  rl_window_args :: "json \<Rightarrow> string + get_window_args"
  rl_search_args :: "json \<Rightarrow> string + search_events_args"
  rl_describe_value :: "describe_sources_entry \<Rightarrow> json"
  rl_state_value :: "current_state_entry \<Rightarrow> json"
  rl_event_value :: "event \<Rightarrow> json"
  rl_hit_value :: "search_hit_out \<Rightarrow> json"
  rl_status_value :: "peer_status hash_map \<Rightarrow> json"
  rl_tool_error_text :: "tool_error \<Rightarrow> string"
  rl_json_text :: "json \<Rightarrow> string"
  rl_pkg_version :: string

text \<open>The libraries the tools call, the failures of the engine and the clock, as one call sees them.\<close>

record tool_env =
  te_glob :: glob_lib
  te_peers :: peer_lib
  te_codec :: codec
  te_cursor :: cursor_codec
  te_like :: "string \<Rightarrow> string \<Rightarrow> bool"
  te_db :: "sql_error option"
  te_now :: i64

text \<open>What a tool call returns, with serde's derived serialisation; a block is tagged with its lower-case constructor.\<close>

datatype content_block = Text string

record call_result =
  cr_content :: "content_block list"
  cr_structured_content :: "json option"
  cr_is_error :: bool

fun content_block_value :: "content_block \<Rightarrow> json" where
  "content_block_value (Text txt) = Object [(''text'', String txt), (''type'', String ''text'')]"

definition call_result_value :: "call_result \<Rightarrow> json" where
  "call_result_value r = Object
     ([(''content'', Array (map content_block_value (cr_content r))), (''isError'', Bool (cr_is_error r))]
      @ (case cr_structured_content r of None \<Rightarrow> [] | Some v \<Rightarrow> [(''structuredContent'', v)]))"

definition call_result_structured :: "rpc_lib \<Rightarrow> json \<Rightarrow> call_result" where
  "call_result_structured R v =
     \<lparr> cr_content = [Text (rl_json_text R v)], cr_structured_content = Some v, cr_is_error = False \<rparr>"

text \<open>The values the tools return: rows under a name, with the peers' statuses when there are any.\<close>

definition rows_value :: "rpc_lib \<Rightarrow> string \<Rightarrow> json list \<times> peer_status hash_map \<Rightarrow> json" where
  "rows_value R field = (\<lambda>(rows, m). Object
     ((if dom m = {} then [] else [(''peer_status'', rl_status_value R m)]) @ [(field, Array rows)]))"

definition window_value :: "rpc_lib \<Rightarrow> window_page \<Rightarrow> json" where
  "window_value R pg = Object
     [(''cursor'', case wp_cursor pg of None \<Rightarrow> Null | Some s \<Rightarrow> String s),
      (''events'', Array (map (rl_event_value R) (wp_events pg)))]"

definition hits_value :: "rpc_lib \<Rightarrow> search_hit_out list \<Rightarrow> json" where
  "hits_value R hits = Object [(''hits'', Array (map (rl_hit_value R) hits))]"

text \<open>The common tail of the four arms: arguments, tool, answer.\<close>

definition run_tool :: "rpc_lib \<Rightarrow> json option \<Rightarrow> string + 'a \<Rightarrow> ('a \<Rightarrow> (tool_error + 'b) option) \<Rightarrow> ('b \<Rightarrow> json)
    \<Rightarrow> rpc_response option" where
  "run_tool R i parsed invoke to_json = (case parsed of
     Inl e \<Rightarrow> Some (rpc_err i (invalid_params e))
   | Inr a \<Rightarrow> (case invoke a of
       None \<Rightarrow> None
     | Some (Inr v) \<Rightarrow> Some (rpc_ok i (call_result_value (call_result_structured R (to_json v))))
     | Some (Inl e) \<Rightarrow> Some (rpc_err i (invalid_params (rl_tool_error_text R e)))))"

definition dispatch_call :: "rpc_lib \<Rightarrow> tool_env \<Rightarrow> mcp_state \<Rightarrow> json option \<Rightarrow> json option \<Rightarrow> rpc_response option" where
  "dispatch_call R T s i params = (case params of
     None \<Rightarrow> Some (rpc_err i (invalid_params ''missing params''))
   | Some ps \<Rightarrow> (case rl_call_params R ps of
       Inl e \<Rightarrow> Some (rpc_err i (invalid_params e))
     | Inr call \<Rightarrow>
         let args = (case cp_arguments call of Some a \<Rightarrow> a | None \<Rightarrow> Object []) in
         if cp_name call = ''describe_sources'' then
           run_tool R i (rl_filter_args R args) (\<lambda>a. Some (describe_sources (te_glob T) (te_peers T) (rl_describe_value R)
             (mcp_registry s) (mcp_metrics s) (mcp_retention_policies s) (mcp_peers s) a)) (rows_value R ''sources'')
         else if cp_name call = ''get_current_state'' then
           run_tool R i (rl_filter_args R args) (get_current_state (te_glob T) (te_peers T) (rl_state_value R) (te_codec T) (te_db T)
             (te_now T) (mcp_registry s) (mcp_hot_rings s) (mcp_cold_store s) (mcp_peers s)) (rows_value R ''states'')
         else if cp_name call = ''get_window'' then
           run_tool R i (rl_window_args R args) (\<lambda>a. Some (get_window (te_codec T) (te_like T) (te_cursor T) (te_db T)
             (mcp_cold_store s) a)) (window_value R)
         else if cp_name call = ''search_events'' then
           run_tool R i (rl_search_args R args) (search_events (te_glob T) (te_codec T) (te_db T) (mcp_vector_index s)
             (mcp_embedder s) (mcp_cold_store s)) (hits_value R)
         else Some (rpc_err i (method_not_found (cp_name call)))))"

text \<open>The answer to \<open>initialize\<close>; the fields are serialised in camel case.\<close>

record tools_capability =
  tc_list_changed :: bool

record server_capabilities =
  scp_tools :: tools_capability

record server_info =
  si_name :: string
  si_version :: string

record initialize_result =
  ir_protocol_version :: string
  ir_capabilities :: server_capabilities
  ir_server_info :: server_info

definition initialize_result_value :: "initialize_result \<Rightarrow> json" where
  "initialize_result_value r = Object
     [(''capabilities'', Object [(''tools'', Object [(''listChanged'', Bool (tc_list_changed (scp_tools (ir_capabilities r))))])]),
      (''protocolVersion'', String (ir_protocol_version r)),
      (''serverInfo'', Object [(''name'', String (si_name (ir_server_info r))), (''version'', String (si_version (ir_server_info r)))])]"

definition initialize_value :: "rpc_lib \<Rightarrow> json" where
  "initialize_value R = initialize_result_value
     \<lparr> ir_protocol_version = PROTOCOL_VERSION,
       ir_capabilities = \<lparr> scp_tools = \<lparr> tc_list_changed = False \<rparr> \<rparr>,
       ir_server_info = \<lparr> si_name = ''percept'', si_version = rl_pkg_version R \<rparr> \<rparr>"

definition tool_value :: "tool \<Rightarrow> json" where
  "tool_value t = Object [(''description'', String (tool_description t)), (''inputSchema'', tool_input_schema t),
     (''name'', String (tool_name t))]"

record tools_list_result =
  tlr_tools :: "tool list"

definition tools_list_result_value :: "tools_list_result \<Rightarrow> json" where
  "tools_list_result_value r = Object [(''tools'', Array (map tool_value (tlr_tools r)))]"

definition dispatch :: "rpc_lib \<Rightarrow> tool_env \<Rightarrow> mcp_state \<Rightarrow> rpc_request \<Rightarrow> rpc_response option" where
  "dispatch R T s req = (let i = rq_id req; method = rq_method req in
     if method = ''initialize'' then Some (rpc_ok i (initialize_value R))
     else if method = ''tools/list'' then Some (rpc_ok i (tools_list_result_value \<lparr> tlr_tools = tools_list \<rparr>))
     else if method = ''tools/call'' then dispatch_call R T s i (rq_params req)
     else if method = ''notifications/initialized'' \<or> method = ''notifications/cancelled'' then Some (rpc_ok i Null)
     else if method = ''ping'' then Some (rpc_ok i (Object []))
     else Some (rpc_err i (method_not_found method)))"

datatype mcp_reply = Unauthorized string | JsonRpc rpc_response

definition mcp_authenticate :: "rpc_lib \<Rightarrow> string \<Rightarrow> bytes hash_map \<Rightarrow> string option" where
  \<comment> \<open>the text of the refusal, if any\<close>
  "mcp_authenticate R expected headers =
     (case Option.bind (Option.bind (headers ''authorization'') (rl_header_to_str R)) (strip_prefix ''Bearer '') of
        None \<Rightarrow> Some ''missing bearer token''
      | Some token \<Rightarrow> if token \<noteq> expected then Some ''unknown bearer token'' else None)"

definition record_metrics :: "string \<Rightarrow> u64 \<Rightarrow> metrics \<Rightarrow> metrics" where
  "record_metrics method elapsed_ms m = inc_mcp_call method elapsed_ms m"

definition mcp_handle :: "rpc_lib \<Rightarrow> tool_env \<Rightarrow> u64 \<Rightarrow> bytes hash_map \<Rightarrow> bytes \<Rightarrow> mcp_state
    \<Rightarrow> (mcp_state \<times> mcp_reply) option" where
  "mcp_handle R T elapsed_ms headers bdy s = (case mcp_authenticate R (mcp_token s) headers of
     Some msg \<Rightarrow> Some (s, Unauthorized msg)
   | None \<Rightarrow> (case rl_request R bdy of
       Inl e \<Rightarrow> Some (s, JsonRpc (rpc_err None (parse_error (''invalid JSON-RPC envelope: '' @ e))))
     | Inr req \<Rightarrow>
         if rq_jsonrpc req \<noteq> ''2.0''
         then Some (s, JsonRpc (rpc_err (rq_id req) (invalid_request ''jsonrpc must be \"2.0\"'')))
         else (case dispatch R T s req of
             None \<Rightarrow> None
           | Some resp \<Rightarrow>
               Some (s\<lparr> mcp_metrics := record_metrics (rq_method req) elapsed_ms (mcp_metrics s) \<rparr>, JsonRpc resp))))"

section \<open>Facts\<close>

lemmas rpc_defs = rpc_ok_def rpc_err_def parse_error_def invalid_request_def method_not_found_def invalid_params_def

text \<open>A response answers a request when it echoes the id; the codes of its errors are fixed.\<close>

definition answers :: "json option \<Rightarrow> bool \<Rightarrow> rpc_response \<Rightarrow> bool" where
  "answers i unknown r \<longleftrightarrow> rr_jsonrpc r = ''2.0'' \<and> rr_id r = i
     \<and> (case rr_payload r of
          RpcOk _ \<Rightarrow> \<not> unknown
        | RpcErr e \<Rightarrow> rpc_code e = (if unknown then -32601 else -32602))"

lemma run_tool_answers: "run_tool R i parsed invoke to_json = Some r \<Longrightarrow> answers i False r"
  by (auto simp: run_tool_def answers_def rpc_defs split: sum.split_asm option.split_asm)

definition known_tool :: "string \<Rightarrow> bool" where
  "known_tool n \<longleftrightarrow> n \<in> tool_name ` set tools_list"

lemma known_tool_iff:
  "known_tool n \<longleftrightarrow> n = ''describe_sources'' \<or> n = ''get_current_state'' \<or> n = ''get_window'' \<or> n = ''search_events''"
  by (auto simp: known_tool_def tools_list_def)

text \<open>The tool call a request carries, when its parameters can be read.\<close>

definition requested_tool :: "rpc_lib \<Rightarrow> json option \<Rightarrow> call_params option" where
  "requested_tool R params = (case params of None \<Rightarrow> None
     | Some ps \<Rightarrow> (case rl_call_params R ps of Inl _ \<Rightarrow> None | Inr call \<Rightarrow> Some call))"

definition unknown_tool :: "rpc_lib \<Rightarrow> json option \<Rightarrow> bool" where
  "unknown_tool R params = (case requested_tool R params of None \<Rightarrow> False | Some call \<Rightarrow> \<not> known_tool (cp_name call))"

lemma dispatch_call_answers:
  assumes "dispatch_call R T s i params = Some r"
  shows "answers i (unknown_tool R params) r"
proof (cases "requested_tool R params")
  case None
  then have "unknown_tool R params = False" by (simp add: unknown_tool_def)
  then show ?thesis using assms None
    by (auto simp: dispatch_call_def requested_tool_def answers_def rpc_defs split: option.split_asm sum.split_asm)
next
  case (Some call)
  then have unk: "unknown_tool R params \<longleftrightarrow> \<not> known_tool (cp_name call)" by (simp add: unknown_tool_def)
  obtain ps where ps: "params = Some ps" "rl_call_params R ps = Inr call"
    using Some by (auto simp: requested_tool_def split: option.split_asm sum.split_asm)
  show ?thesis
    using assms unfolding unk
    by (auto simp: dispatch_call_def ps known_tool_iff Let_def answers_def [of i True] rpc_defs
        intro: run_tool_answers split: if_split_asm)
qed

lemma dispatch_call_unreadable:
  assumes "requested_tool R params = None" and "dispatch_call R T s i params = Some r"
  shows "rr_payload r \<noteq> RpcOk v"
  using assms by (auto simp: dispatch_call_def requested_tool_def rpc_defs split: option.split_asm sum.split_asm)

section \<open>Properties\<close>

text \<open>
  C35. The endpoint is guarded and well-behaved: without the exact bearer token a request gets a 401 and changes nothing.
  With it every answer is a JSON-RPC 2.0 response that echoes the request's id (none for an unreadable envelope); only
  the call metrics of the method change, and only for a request of the right version; the error codes are
  those of the standard, \<open>-32601\<close> exactly for an unknown method or a tool that \<open>tools/list\<close> does not list; a result
  comes only from the known methods and, for a tool call, from a listed tool; and only a tool call can fail to answer.
\<close>

theorem mcp_handle_answers:
  "let tok = Option.bind (Option.bind (headers ''authorization'') (rl_header_to_str R)) (strip_prefix ''Bearer '');
       result = mcp_handle R T ms headers bdy s
   in if tok \<noteq> Some (mcp_token s) then \<exists>msg. result = Some (s, Unauthorized msg)
      else case rl_request R bdy of
        Inl e \<Rightarrow> result = Some (s, JsonRpc (rpc_err None (parse_error (''invalid JSON-RPC envelope: '' @ e))))
      | Inr req \<Rightarrow>
          if rq_jsonrpc req \<noteq> ''2.0''
          then \<exists>r e. result = Some (s, JsonRpc r) \<and> rr_id r = rq_id req \<and> rr_payload r = RpcErr e \<and> rpc_code e = -32600
          else case result of
            None \<Rightarrow> rq_method req = ''tools/call''
          | Some (s', reply) \<Rightarrow> \<exists>r. reply = JsonRpc r \<and> rr_jsonrpc r = ''2.0'' \<and> rr_id r = rq_id req
              \<and> s' = s\<lparr> mcp_metrics := inc_mcp_call (rq_method req) ms (mcp_metrics s) \<rparr>
              \<and> (case rr_payload r of
                   RpcOk _ \<Rightarrow>
                     (if rq_method req = ''tools/call''
                      then (case requested_tool R (rq_params req) of
                          None \<Rightarrow> False
                        | Some call \<Rightarrow> cp_name call \<in> tool_name ` set tools_list)
                      else rq_method req \<in> {''initialize'', ''tools/list'', ''notifications/initialized'',
                        ''notifications/cancelled'', ''ping''})
                 | RpcErr e \<Rightarrow> rpc_code e =
                     (if rq_method req = ''tools/call''
                      then (case requested_tool R (rq_params req) of
                          None \<Rightarrow> -32602
                        | Some call \<Rightarrow> if cp_name call \<in> tool_name ` set tools_list then -32602 else -32601)
                      else -32601))"
proof -
  let ?tok = "Option.bind (Option.bind (headers ''authorization'') (rl_header_to_str R)) (strip_prefix ''Bearer '')"
  show ?thesis
  proof (cases "?tok = Some (mcp_token s)")
    case False
    then show ?thesis by (auto simp: Let_def mcp_handle_def mcp_authenticate_def split: option.split)
  next
    case True
    then have auth: "mcp_authenticate R (mcp_token s) headers = None" by (simp add: mcp_authenticate_def)
    show ?thesis
    proof (cases "rl_request R bdy")
      case (Inl e)
      then show ?thesis using True by (simp add: Let_def mcp_handle_def auth)
    next
      case (Inr req)
      show ?thesis
      proof (cases "rq_jsonrpc req = ''2.0''")
        case False
        then show ?thesis using True Inr by (simp add: Let_def mcp_handle_def auth rpc_defs)
      next
        case version: True
        show ?thesis
        proof (cases "rq_method req = ''tools/call''")
          case call: True
          have "dispatch R T s req = dispatch_call R T s (rq_id req) (rq_params req)"
            by (simp add: dispatch_def Let_def call)
          then show ?thesis
            using dispatch_call_answers [of R T s "rq_id req" "rq_params req"]
              dispatch_call_unreadable [of R "rq_params req" T s "rq_id req"] True Inr version call
            by (auto simp: Let_def mcp_handle_def auth record_metrics_def answers_def unknown_tool_def known_tool_def
                split: option.split sum.split response_payload.split if_splits)
        next
          case False
          then show ?thesis
            using True Inr version
            by (auto simp: Let_def mcp_handle_def auth record_metrics_def dispatch_def rpc_defs)
        qed
      qed
    qed
  qed
qed

end
