(* ===== verification/Config.thy ===== *)
theory Config
  imports Retention_Policy Ingest_Auth
begin

text \<open>
  The configuration, \<open>crates/percept/src/config\<close>: the sections of \<open>percept.toml\<close> (\<open>schema.rs\<close>), the merge
  of \<open>conf.d\<close> overlays, the resolution of secret references (\<open>secrets.rs\<close>), the validation rules
  (\<open>validate.rs\<close>) and the builders of descriptors and retention policies (\<open>mod.rs\<close>). The TOML parser, the
  file system and the environment are parameters (record \<open>config_env\<close>); the texts of \<open>anyhow\<close>
  errors are constructors of \<open>config_error\<close>.
\<close>

section \<open>Sections of the file\<close>

record secret_ref =
  sr_token_env :: "string option"
  sr_token_file :: "string option"
  sr_resolved :: "string option"

record cfg_server =
  sv_data_dir :: string
  sv_profile :: string

record cfg_mcp =
  mc_listen :: string
  mc_transport :: "string option"
  mc_auth :: secret_ref

record cfg_storage =
  st_sweeper_interval :: "string option"
  st_embed_default :: "bool option"

record retention_match =
  rm_source_id :: "string option"
  rm_kind :: "string option"

record retention_entry =
  re_match :: retention_match
  re_max_age :: "string option"
  re_max_count :: "i64 option"
  re_max_bytes :: "i64 option"
  re_vector_max_age :: "string option"

record mqtt_credentials =
  cr_user :: "string option"
  cr_password_env :: "string option"
  cr_password_file :: "string option"
  cr_resolved_password :: "string option"

record mqtt_tls =
  tl_ca_file :: "string option"
  tl_insecure :: "bool option"

record mqtt_subscription =
  ms_topic :: string
  ms_source_id_template :: string
  ms_kind :: "string option"
  ms_kind_field :: "string option"
  ms_payload :: "string option"
  ms_qos :: "i64 option"

record mqtt_broker =
  mb_id :: string
  mb_url :: string
  mb_client_id :: "string option"
  mb_credentials :: "mqtt_credentials option"
  mb_tls :: "mqtt_tls option"
  mb_subscriptions :: "mqtt_subscription list"

record ble_gatt =
  bg_service_uuid :: string
  bg_char_uuid :: string
  bg_decoder :: "string option"

record ble_device =
  bd_mac :: string
  bd_source_id :: string
  bd_kind :: string
  bd_decoder :: "string option"
  bd_require_bond :: "bool option"
  bd_poll :: "string option"
  bd_gatt :: "ble_gatt list"

record ble_adapter =
  bl_adapter :: string
  bl_mode :: string
  bl_duplicates :: "bool option"
  bl_devices :: "ble_device list"

record http_token =
  ht_name :: string
  ht_token_env :: "string option"
  ht_token_file :: "string option"
  ht_allow_source_ids :: "string list"
  ht_allow_kinds :: "string list"
  ht_rate_limit :: "string option"
  ht_resolved_token :: "string option"

record ros2_subscription =
  rs_topic :: string
  rs_msg_type :: string
  rs_source_id_template :: string
  rs_kind :: "string option"

record ros2_bridge =
  rb_node_name :: string
  rb_domain_id :: "i64 option"
  rb_subscriptions :: "ros2_subscription list"

record forwarder_entry =
  fe_peer_id :: string
  fe_hub_url :: string
  fe_hub_token_env :: "string option"
  fe_hub_token_file :: "string option"
  fe_resolved_hub_token :: "string option"

record peer_entry =
  pe_id :: string
  pe_mcp_url :: string
  pe_token_env :: "string option"
  pe_token_file :: "string option"
  pe_timeout_ms :: "u64 option"
  pe_resolved_token :: "string option"

record source_entry =
  so_id :: string
  so_kinds :: "string list"
  so_description :: "string option"
  so_usage :: "string option"
  so_caveats :: "string option"
  so_semantic_schema :: "json option"
  so_units :: "string option"
  so_sampling_hint_ms :: "i64 option"
  so_freshness_ttl_ms :: "i64 option"
  so_location :: "string option"
  so_embed :: "bool option"

record kind_entry =
  ke_name :: string
  ke_version :: "string option"
  ke_description :: "string option"
  ke_usage :: "string option"
  ke_caveats :: "string option"
  ke_semantic_schema :: "json option"
  ke_units :: "string option"
  ke_embed :: "bool option"

record config =
  cf_server :: "cfg_server option"
  cf_mcp :: "cfg_mcp option"
  cf_storage :: "cfg_storage option"
  cf_retention :: "retention_entry list"
  cf_mqtt :: "mqtt_broker list"
  cf_ble :: "ble_adapter list"
  cf_http_tokens :: "http_token list"
  cf_ros2 :: "ros2_bridge list"
  cf_forwarders :: "forwarder_entry list"
  cf_peers :: "peer_entry list"
  cf_sources :: "source_entry list"
  cf_kinds :: "kind_entry list"

definition config_default :: config where
  "config_default = \<lparr> cf_server = None, cf_mcp = None, cf_storage = None, cf_retention = [], cf_mqtt = [],
     cf_ble = [], cf_http_tokens = [], cf_ros2 = [], cf_forwarders = [], cf_peers = [], cf_sources = [], cf_kinds = [] \<rparr>"

definition config_merge :: "config \<Rightarrow> config \<Rightarrow> config" where
  "config_merge cfg overlay =
     (let c1 = (if cf_server overlay \<noteq> None then cfg\<lparr> cf_server := cf_server overlay \<rparr> else cfg);
          c2 = (if cf_mcp overlay \<noteq> None then c1\<lparr> cf_mcp := cf_mcp overlay \<rparr> else c1);
          c3 = (if cf_storage overlay \<noteq> None then c2\<lparr> cf_storage := cf_storage overlay \<rparr> else c2)
      in c3\<lparr> cf_retention := cf_retention c3 @ cf_retention overlay, cf_mqtt := cf_mqtt c3 @ cf_mqtt overlay,
            cf_ble := cf_ble c3 @ cf_ble overlay, cf_http_tokens := cf_http_tokens c3 @ cf_http_tokens overlay,
            cf_ros2 := cf_ros2 c3 @ cf_ros2 overlay, cf_forwarders := cf_forwarders c3 @ cf_forwarders overlay,
            cf_peers := cf_peers c3 @ cf_peers overlay, cf_sources := cf_sources c3 @ cf_sources overlay,
            cf_kinds := cf_kinds c3 @ cf_kinds overlay \<rparr>)"

section \<open>Durations\<close>

datatype duration_error = MissingUnit | MissingNumber | InvalidNumber | DurationOverflow | UnknownUnit string

definition checked_mul :: "u64 \<Rightarrow> u64 \<Rightarrow> u64 option" where
  [rust_defs]: "checked_mul a b = (if a * b \<le> u64_max then Some (a * b) else None)"

text \<open>\<open>s.find(|c| !c.is_ascii_digit()).map(|i| s.split_at(i))\<close>.\<close>

definition split_digits :: "string \<Rightarrow> (string \<times> string) option" where
  [rust_defs]: "split_digits s = (if list_all is_ascii_digit s then None
     else Some (takeWhile is_ascii_digit s, dropWhile is_ascii_digit s))"

definition parse_duration :: "string \<Rightarrow> duration_error + duration" where
  "parse_duration text = (let s = trim text in
     case split_digits s of
       None \<Rightarrow> Inl MissingUnit
     | Some (num_str, unit) \<Rightarrow>
         if num_str = [] then Inl MissingNumber
         else (case parse_uint u64_max num_str of
             None \<Rightarrow> Inl InvalidNumber
           | Some n \<Rightarrow>
               (case (if unit = ''s'' then Inr (Some n)
                      else if unit = ''m'' then Inr (checked_mul n 60)
                      else if unit = ''h'' then Inr (checked_mul n 3600)
                      else if unit = ''d'' then Inr (checked_mul n 86400)
                      else Inl (UnknownUnit unit)) of
                  Inl e \<Rightarrow> Inl e
                | Inr None \<Rightarrow> Inl DurationOverflow
                | Inr (Some secs) \<Rightarrow> Inr (from_secs secs))))"

text \<open>The copy in \<open>config/mod.rs\<close>.\<close>

definition parse_duration_str :: "string \<Rightarrow> duration_error + duration" where
  "parse_duration_str text = (let s = trim text in
     case split_digits s of
       None \<Rightarrow> Inl MissingUnit
     | Some (num_str, unit) \<Rightarrow>
         if num_str = [] then Inl MissingNumber
         else (case parse_uint u64_max num_str of
             None \<Rightarrow> Inl InvalidNumber
           | Some n \<Rightarrow>
               (case (if unit = ''s'' then Inr (Some n)
                      else if unit = ''m'' then Inr (checked_mul n 60)
                      else if unit = ''h'' then Inr (checked_mul n 3600)
                      else if unit = ''d'' then Inr (checked_mul n 86400)
                      else Inl (UnknownUnit unit)) of
                  Inl e \<Rightarrow> Inl e
                | Inr None \<Rightarrow> Inl DurationOverflow
                | Inr (Some secs) \<Rightarrow> Inr (from_secs secs))))"

section \<open>Secrets and validation\<close>

datatype config_error =
    BothSet string string
  | NeitherSet string string
  | EnvNotSet string string
  | FileUnreadable string string
  | ReadToml string string
  | BadProfile string
  | DuplicateSource string
  | MatchEmpty nat
  | BadMaxAge nat duration_error
  | BadVectorMaxAge nat duration_error
  | VectorsOutlive nat string string
  | PolicyMaxAge string duration_error
  | PolicyVectorMaxAge string duration_error

record config_env =
  env_var :: "string \<Rightarrow> string option"
  read_file :: "string \<Rightarrow> string option"

definition trim_end_newlines :: "string \<Rightarrow> string" where
  \<comment> \<open>\<open>trim_end_matches(['\r', '\n'])\<close>\<close>
  "trim_end_newlines s = rev (dropWhile (\<lambda>c. c = char_of (13 :: nat) \<or> c = char_of (10 :: nat)) (rev s))"

definition read_one_of :: "config_env \<Rightarrow> string option \<Rightarrow> string option \<Rightarrow> string \<Rightarrow> string \<Rightarrow> config_error + string" where
  "read_one_of ce env file site knd = (case (env, file) of
     (Some _, Some _) \<Rightarrow> Inl (BothSet site knd)
   | (None, None) \<Rightarrow> Inl (NeitherSet site knd)
   | (Some var, None) \<Rightarrow> (case env_var ce var of None \<Rightarrow> Inl (EnvNotSet site var) | Some v \<Rightarrow> Inr v)
   | (None, Some path) \<Rightarrow> (case read_file ce path of
       None \<Rightarrow> Inl (FileUnreadable site path) | Some s \<Rightarrow> Inr (trim_end_newlines s)))"

definition resolve_secret :: "config_env \<Rightarrow> secret_ref \<Rightarrow> string \<Rightarrow> config_error + secret_ref" where
  "resolve_secret ce s site = map_sum id (\<lambda>v. s\<lparr> sr_resolved := Some v \<rparr>)
     (read_one_of ce (sr_token_env s) (sr_token_file s) site ''token'')"

definition resolve_mqtt_password :: "config_env \<Rightarrow> mqtt_credentials \<Rightarrow> string \<Rightarrow> config_error + mqtt_credentials" where
  "resolve_mqtt_password ce c broker_id = map_sum id (\<lambda>v. c\<lparr> cr_resolved_password := Some v \<rparr>)
     (read_one_of ce (cr_password_env c) (cr_password_file c)
       (''[mqtt.'' @ broker_id @ ''.credentials] password'') ''password'')"

definition resolve_http_token :: "config_env \<Rightarrow> http_token \<Rightarrow> config_error + http_token" where
  "resolve_http_token ce t = map_sum id (\<lambda>v. t\<lparr> ht_resolved_token := Some v \<rparr>)
     (read_one_of ce (ht_token_env t) (ht_token_file t)
       (''[http_token \"'' @ ht_name t @ ''\"] token'') ''token'')"

definition resolve_forwarder_token :: "config_env \<Rightarrow> forwarder_entry \<Rightarrow> config_error + forwarder_entry" where
  "resolve_forwarder_token ce fw = map_sum id (\<lambda>v. fw\<lparr> fe_resolved_hub_token := Some v \<rparr>)
     (read_one_of ce (fe_hub_token_env fw) (fe_hub_token_file fw)
       (''[forwarder \"'' @ fe_peer_id fw @ ''\"] hub_token'') ''hub_token'')"

definition resolve_peer_token :: "config_env \<Rightarrow> peer_entry \<Rightarrow> config_error + peer_entry" where
  "resolve_peer_token ce p = map_sum id (\<lambda>v. p\<lparr> pe_resolved_token := Some v \<rparr>)
     (read_one_of ce (pe_token_env p) (pe_token_file p) (''[peer \"'' @ pe_id p @ ''\"] token'') ''token'')"

definition resolve_broker :: "config_env \<Rightarrow> mqtt_broker \<Rightarrow> config_error + mqtt_broker" where
  "resolve_broker ce broker = (case mb_credentials broker of
     None \<Rightarrow> Inr broker
   | Some creds \<Rightarrow> map_sum id (\<lambda>c. broker\<lparr> mb_credentials := Some c \<rparr>)
       (resolve_mqtt_password ce creds (mb_id broker)))"

text \<open>The sites in the order of \<open>resolve\<close>; the first error ends it.\<close>

definition resolve_secrets :: "config_env \<Rightarrow> config \<Rightarrow> config_error + config" where
  "resolve_secrets ce cfg =
     (case (case cf_mcp cfg of
              None \<Rightarrow> Inr cfg
            | Some mcp \<Rightarrow> map_sum id (\<lambda>a. cfg\<lparr> cf_mcp := Some (mcp\<lparr> mc_auth := a \<rparr>) \<rparr>)
                (resolve_secret ce (mc_auth mcp) ''[mcp.auth] token'')) of
        Inl e \<Rightarrow> Inl e
      | Inr c1 \<Rightarrow> (case traverse (resolve_broker ce) (cf_mqtt c1) of
          Inl e \<Rightarrow> Inl e
        | Inr brokers \<Rightarrow> (case traverse (resolve_http_token ce) (cf_http_tokens c1) of
            Inl e \<Rightarrow> Inl e
          | Inr tokens \<Rightarrow> (case traverse (resolve_forwarder_token ce) (cf_forwarders c1) of
              Inl e \<Rightarrow> Inl e
            | Inr fws \<Rightarrow> (case traverse (resolve_peer_token ce) (cf_peers c1) of
                Inl e \<Rightarrow> Inl e
              | Inr ps \<Rightarrow> Inr (c1\<lparr> cf_mqtt := brokers, cf_http_tokens := tokens, cf_forwarders := fws, cf_peers := ps \<rparr>))))))"

fun check_sources :: "string set \<Rightarrow> source_entry list \<Rightarrow> config_error option" where
  "check_sources seen [] = None"
| "check_sources seen (s # ss) =
     (if so_id s \<in> seen then Some (DuplicateSource (so_id s)) else check_sources (insert (so_id s) seen) ss)"

definition check_retention_entry :: "nat \<Rightarrow> retention_entry \<Rightarrow> config_error option" where
  "check_retention_entry i r =
     (if rm_source_id (re_match r) = None \<and> rm_kind (re_match r) = None then Some (MatchEmpty i)
      else case (re_max_age r, re_vector_max_age r) of
        (Some max_age, Some vmax) \<Rightarrow> (case parse_duration max_age of
            Inl e \<Rightarrow> Some (BadMaxAge i e)
          | Inr raw \<Rightarrow> (case parse_duration vmax of
              Inl e \<Rightarrow> Some (BadVectorMaxAge i e)
            | Inr vec \<Rightarrow> if vec > raw then Some (VectorsOutlive i vmax max_age) else None))
      | _ \<Rightarrow> None)"

fun check_retention :: "nat \<Rightarrow> retention_entry list \<Rightarrow> config_error option" where
  "check_retention i [] = None"
| "check_retention i (r # rs) = (case check_retention_entry i r of
     Some e \<Rightarrow> Some e | None \<Rightarrow> check_retention (i + 1) rs)"

definition config_check :: "config \<Rightarrow> config_error option" where
  "config_check cfg =
     (case (case cf_server cfg of
              Some server \<Rightarrow> if sv_profile server \<noteq> ''edge'' then Some (BadProfile (sv_profile server)) else None
            | None \<Rightarrow> None) of
        Some e \<Rightarrow> Some e
      | None \<Rightarrow> (case check_sources {} (cf_sources cfg) of
          Some e \<Rightarrow> Some e
        | None \<Rightarrow> check_retention 0 (cf_retention cfg)))"

text \<open>\<open>load\<close>, given the parsed primary file and the parsed overlays in file-name order (or why reading one failed).\<close>

fun merge_all :: "config \<Rightarrow> (config_error + config) list \<Rightarrow> config_error + config" where
  "merge_all cfg [] = Inr cfg"
| "merge_all cfg (Inl e # os) = Inl e"
| "merge_all cfg (Inr overlay # os) = merge_all (config_merge cfg overlay) os"

definition config_load :: "config_env \<Rightarrow> config_error + config \<Rightarrow> (config_error + config) list \<Rightarrow> config_error + config" where
  "config_load ce primary overlays = (case primary of
     Inl e \<Rightarrow> Inl e
   | Inr cfg \<Rightarrow> (case merge_all cfg overlays of
       Inl e \<Rightarrow> Inl e
     | Inr merged \<Rightarrow> (case resolve_secrets ce merged of
         Inl e \<Rightarrow> Inl e
       | Inr cfg' \<Rightarrow> (case config_check cfg' of Some e \<Rightarrow> Inl e | None \<Rightarrow> Inr cfg'))))"

section \<open>Builders\<close>

definition opt_text :: "string option \<Rightarrow> string" where
  [rust_defs]: "opt_text x = (case x of Some s \<Rightarrow> s | None \<Rightarrow> [])"

definition source_descriptor_of :: "source_entry \<Rightarrow> source_descriptor" where
  "source_descriptor_of s = \<lparr> sd_source_id = so_id s, sd_kinds = so_kinds s, sd_description = opt_text (so_description s),
     sd_usage = opt_text (so_usage s), sd_caveats = opt_text (so_caveats s), sd_semantic_schema = so_semantic_schema s,
     sd_units = so_units s, sd_sampling_hint_ms = so_sampling_hint_ms s, sd_freshness_ttl_ms = so_freshness_ttl_ms s,
     sd_location = so_location s, sd_updated_ts_ms_utc = 0 \<rparr>"

definition kind_descriptor_of :: "kind_entry \<Rightarrow> kind_descriptor" where
  "kind_descriptor_of k = \<lparr> kd_kind = ke_name k,
     kd_version = (case ke_version k of Some v \<Rightarrow> v | None \<Rightarrow> ''v1''), kd_description = opt_text (ke_description k),
     kd_usage = opt_text (ke_usage k), kd_caveats = opt_text (ke_caveats k), kd_semantic_schema = ke_semantic_schema k,
     kd_units = ke_units k, kd_updated_ts_ms_utc = 0 \<rparr>"

definition synthetic_kind :: "string \<Rightarrow> kind_descriptor" where
  "synthetic_kind name = \<lparr> kd_kind = name, kd_version = ''v1'', kd_description = [], kd_usage = [], kd_caveats = [],
     kd_semantic_schema = None, kd_units = None, kd_updated_ts_ms_utc = 0 \<rparr>"

definition resolve_descriptors :: "config \<Rightarrow> resolved_descriptor list" where
  "resolve_descriptors cfg = concat (map (\<lambda>s.
     map (\<lambda>kind_name. resolve (source_descriptor_of s)
       (case find (\<lambda>k. ke_name k = kind_name) (cf_kinds cfg) of
          None \<Rightarrow> synthetic_kind kind_name | Some k \<Rightarrow> kind_descriptor_of k)) (so_kinds s)) (cf_sources cfg))"

definition build_source_descriptors :: "config \<Rightarrow> source_descriptor list" where
  "build_source_descriptors cfg = map source_descriptor_of (cf_sources cfg)"

definition build_kind_descriptors :: "config \<Rightarrow> kind_descriptor list" where
  "build_kind_descriptors cfg = map kind_descriptor_of (cf_kinds cfg)"

definition build_policy :: "retention_entry \<Rightarrow> config_error + retention_policy" where
  "build_policy r =
     (case (case re_max_age r of
              None \<Rightarrow> Inr None
            | Some s \<Rightarrow> (case parse_duration_str s of Inl e \<Rightarrow> Inl (PolicyMaxAge s e) | Inr d \<Rightarrow> Inr (Some d))) of
        Inl e \<Rightarrow> Inl e
      | Inr max_age \<Rightarrow>
          (case (case re_vector_max_age r of
                   None \<Rightarrow> Inr None
                 | Some s \<Rightarrow> (case parse_duration_str s of Inl e \<Rightarrow> Inl (PolicyVectorMaxAge s e) | Inr d \<Rightarrow> Inr (Some d))) of
             Inl e \<Rightarrow> Inl e
           | Inr vector_max_age \<Rightarrow>
               Inr \<lparr> match_source_id = rm_source_id (re_match r), match_kind = rm_kind (re_match r),
                 rp_max_age = max_age, rp_max_count = re_max_count r, rp_max_bytes = re_max_bytes r,
                 rp_vector_max_age = vector_max_age \<rparr>))"

definition build_retention_policies :: "config \<Rightarrow> config_error + retention_policy list" where
  "build_retention_policies cfg = traverse build_policy (cf_retention cfg)"

section \<open>Facts\<close>

lemma check_sources_iff:
  "check_sources seen ss = None \<longleftrightarrow> distinct (map so_id ss) \<and> set (map so_id ss) \<inter> seen = {}"
  by (induction ss arbitrary: seen) auto

definition retention_entry_ok :: "retention_entry \<Rightarrow> bool" where
  "retention_entry_ok r \<longleftrightarrow> (rm_source_id (re_match r) \<noteq> None \<or> rm_kind (re_match r) \<noteq> None)
     \<and> (case (re_max_age r, re_vector_max_age r) of
          (Some a, Some v) \<Rightarrow> (case (parse_duration a, parse_duration v) of
             (Inr raw, Inr vec) \<Rightarrow> vec \<le> raw | _ \<Rightarrow> False)
        | _ \<Rightarrow> True)"

lemma check_retention_entry_iff: "check_retention_entry i r = None \<longleftrightarrow> retention_entry_ok r"
  by (auto simp: check_retention_entry_def retention_entry_ok_def split: option.split sum.split)

lemma check_retention_iff: "check_retention i rs = None \<longleftrightarrow> list_all retention_entry_ok rs"
proof (induction rs arbitrary: i)
  case (Cons r rs)
  then show ?case using check_retention_entry_iff [of i r] by (cases "check_retention_entry i r") auto
qed simp

lemma map_sum_Inr: "map_sum id f x = Inr y \<longleftrightarrow> (\<exists>v. x = Inr v \<and> y = f v)"
  by (cases x) auto

lemmas resolve_defs = resolve_secret_def resolve_mqtt_password_def resolve_http_token_def
  resolve_forwarder_token_def resolve_peer_token_def

lemma traverse_all:
  assumes "traverse f xs = Inr ys" and "\<And>x y. f x = Inr y \<Longrightarrow> P y"
  shows "list_all P ys"
  using assms by (induction xs arbitrary: ys) (auto split: sum.split_asm)

text \<open>Every secret of a configuration has been looked up.\<close>

definition secrets_resolved :: "config \<Rightarrow> bool" where
  "secrets_resolved cfg \<longleftrightarrow> (case cf_mcp cfg of None \<Rightarrow> True | Some mcp \<Rightarrow> sr_resolved (mc_auth mcp) \<noteq> None)
     \<and> list_all (\<lambda>b. case mb_credentials b of None \<Rightarrow> True | Some c \<Rightarrow> cr_resolved_password c \<noteq> None) (cf_mqtt cfg)
     \<and> list_all (\<lambda>t. ht_resolved_token t \<noteq> None) (cf_http_tokens cfg)
     \<and> list_all (\<lambda>f. fe_resolved_hub_token f \<noteq> None) (cf_forwarders cfg)
     \<and> list_all (\<lambda>p. pe_resolved_token p \<noteq> None) (cf_peers cfg)"

lemma resolve_secrets_resolved:
  assumes "resolve_secrets ce cfg = Inr cfg'"
  shows "secrets_resolved cfg'"
proof -
  from assms obtain c1 brokers tokens fws ps where
    mcp: "(case cf_mcp cfg of
              None \<Rightarrow> Inr cfg
            | Some mcp \<Rightarrow> map_sum id (\<lambda>a. cfg\<lparr> cf_mcp := Some (mcp\<lparr> mc_auth := a \<rparr>) \<rparr>)
                (resolve_secret ce (mc_auth mcp) ''[mcp.auth] token'')) = Inr c1"
    and b: "traverse (resolve_broker ce) (cf_mqtt c1) = Inr brokers"
    and t: "traverse (resolve_http_token ce) (cf_http_tokens c1) = Inr tokens"
    and f: "traverse (resolve_forwarder_token ce) (cf_forwarders c1) = Inr fws"
    and p: "traverse (resolve_peer_token ce) (cf_peers c1) = Inr ps"
    and cfg': "cfg' = c1\<lparr> cf_mqtt := brokers, cf_http_tokens := tokens, cf_forwarders := fws, cf_peers := ps \<rparr>"
    unfolding resolve_secrets_def by (auto split: sum.split_asm)
  have "case cf_mcp c1 of None \<Rightarrow> True | Some m \<Rightarrow> sr_resolved (mc_auth m) \<noteq> None"
    using mcp by (auto simp: map_sum_Inr resolve_defs split: option.split_asm)
  moreover have "list_all (\<lambda>b. case mb_credentials b of None \<Rightarrow> True | Some c \<Rightarrow> cr_resolved_password c \<noteq> None) brokers"
    by (rule traverse_all [OF b]) (auto simp: resolve_broker_def map_sum_Inr resolve_defs split: option.split_asm)
  moreover have "list_all (\<lambda>t. ht_resolved_token t \<noteq> None) tokens"
    by (rule traverse_all [OF t]) (auto simp: map_sum_Inr resolve_defs)
  moreover have "list_all (\<lambda>f. fe_resolved_hub_token f \<noteq> None) fws"
    by (rule traverse_all [OF f]) (auto simp: map_sum_Inr resolve_defs)
  moreover have "list_all (\<lambda>p. pe_resolved_token p \<noteq> None) ps"
    by (rule traverse_all [OF p]) (auto simp: map_sum_Inr resolve_defs)
  ultimately show ?thesis by (simp add: secrets_resolved_def cfg')
qed

lemma config_load_Inr:
  assumes "config_load ce primary overlays = Inr cfg"
  shows "secrets_resolved cfg" "config_check cfg = None"
  using assms resolve_secrets_resolved
  by (auto simp: config_load_def split: sum.split_asm option.split_asm)

text \<open>Text that begins and ends with a visible ASCII character has no white space to trim.\<close>

definition visible :: "char \<Rightarrow> bool" where
  "visible c \<longleftrightarrow> 32 < (of_char c :: nat) \<and> (of_char c :: nat) < 127"

lemma find_prefix_None:
  assumes "\<forall>w \<in> set ws. w \<noteq> [] \<and> \<not> visible (hd w)" "s \<noteq> []" "visible (hd s)"
  shows "strip_all ws s = s"
proof -
  have "find (\<lambda>w. prefix w s) ws = None"
    using assms by (auto simp: find_None_iff prefix_def)
  then show ?thesis by (simp add: strip_all.simps strip_one_def)
qed

lemma white_space_invisible:
  "\<forall>w \<in> set white_space. w \<noteq> [] \<and> \<not> visible (hd w)"
  "\<forall>w \<in> set (map rev white_space). w \<noteq> [] \<and> \<not> visible (hd w)"
  by code_simp+

lemma trim_visible:
  assumes "s \<noteq> []" "visible (hd s)" "visible (last s)"
  shows "trim s = s"
  using find_prefix_None [OF white_space_invisible(1) assms(1,2)]
    find_prefix_None [OF white_space_invisible(2), of "rev s"] assms
  by (simp add: trim_def hd_rev)

section \<open>Properties\<close>

text \<open>
  What validation guarantees: a configuration passes exactly when the profile (if there is a server
  section) is \<open>edge\<close>, no two sources share an id, every retention entry names a source or a kind, and an entry
  that sets both ages has parseable ones with the vectors' no longer than the events'.
\<close>

lemma config_check_exact:
  "config_check cfg = None \<longleftrightarrow>
     (case cf_server cfg of None \<Rightarrow> True | Some sv \<Rightarrow> sv_profile sv = ''edge'')
     \<and> distinct (map so_id (cf_sources cfg))
     \<and> list_all (\<lambda>r. (rm_source_id (re_match r) \<noteq> None \<or> rm_kind (re_match r) \<noteq> None)
          \<and> (case (re_max_age r, re_vector_max_age r) of
               (Some a, Some v) \<Rightarrow> (case (parse_duration a, parse_duration v) of
                  (Inr raw, Inr vec) \<Rightarrow> vec \<le> raw | _ \<Rightarrow> False)
             | _ \<Rightarrow> True)) (cf_retention cfg)"
  unfolding retention_entry_ok_def [symmetric, abs_def]
  using check_sources_iff [of "{}" "cf_sources cfg"] check_retention_iff [of 0 "cf_retention cfg"]
  by (auto simp: config_check_def split: option.split)

text \<open>
  What it does not guarantee: a configuration can pass although its policies let the vectors of a
  pair outlive the events, because the ages are compared within one entry only and resolution takes each
  from the first entry that sets it.
\<close>

lemma vectors_can_outlive_events:
  "\<exists>cfg policies a v. config_check cfg = None \<and> build_retention_policies cfg = Inr policies
     \<and> er_max_age_ms (resolve_effective policies ''cam'' ''motion'') = Some a
     \<and> er_vector_max_age_ms (resolve_effective policies ''cam'' ''motion'') = Some v \<and> a < v"
proof -
  let ?m = "\<lparr> rm_source_id = Some ''cam'', rm_kind = None \<rparr>"
  let ?cfg = "config_default\<lparr> cf_retention :=
    [\<lparr> re_match = ?m, re_max_age = Some ''1h'', re_max_count = None, re_max_bytes = None, re_vector_max_age = None \<rparr>,
     \<lparr> re_match = ?m, re_max_age = None, re_max_count = None, re_max_bytes = None, re_vector_max_age = Some ''2h'' \<rparr>] \<rparr>"
  let ?ps = "[\<lparr> match_source_id = Some ''cam'', match_kind = None, rp_max_age = Some (from_secs 3600), rp_max_count = None,
        rp_max_bytes = None, rp_vector_max_age = None \<rparr>,
     \<lparr> match_source_id = Some ''cam'', match_kind = None, rp_max_age = None, rp_max_count = None,
        rp_max_bytes = None, rp_vector_max_age = Some (from_secs 7200) \<rparr>]"
  have "parse_duration_str ''1h'' = Inr (from_secs 3600)" "parse_duration_str ''2h'' = Inr (from_secs 7200)"
    by (simp_all add: parse_duration_str_def trim_visible visible_def parse_uint_def rust_defs)
  then have "build_retention_policies ?cfg = Inr ?ps"
    by (simp add: build_retention_policies_def build_policy_def)
  moreover have "config_check ?cfg = None"
    by (simp add: config_check_def config_default_def check_retention_entry_def)
  moreover have "er_max_age_ms (resolve_effective ?ps ''cam'' ''motion'') = Some 3600000"
      "er_vector_max_age_ms (resolve_effective ?ps ''cam'' ''motion'') = Some 7200000"
    by (simp_all add: resolve_effective_eq by_precedence_def policy_matches_def policy_tier_def
        duration_to_ms_def i64_try_from_def i64_max_def)
  ultimately show ?thesis by (intro exI [of _ ?cfg] exI [of _ ?ps]) simp
qed

text \<open>
  And a duration that is set alone is not parsed by validation, so building the policies of a
  validated configuration can still fail.
\<close>

lemma validated_config_may_not_build:
  "\<exists>cfg e. config_check cfg = None \<and> build_retention_policies cfg = Inl e"
proof -
  let ?cfg = "config_default\<lparr> cf_retention := [\<lparr> re_match = \<lparr> rm_source_id = Some ''cam'', rm_kind = None \<rparr>,
    re_max_age = Some ''soon'', re_max_count = None, re_max_bytes = None, re_vector_max_age = None \<rparr>] \<rparr>"
  have "parse_duration_str ''soon'' = Inl MissingNumber"
    by (simp add: parse_duration_str_def trim_visible visible_def rust_defs)
  then have "build_retention_policies ?cfg = Inl (PolicyMaxAge ''soon'' MissingNumber)"
    by (simp add: build_retention_policies_def build_policy_def)
  moreover have "config_check ?cfg = None"
    by (simp add: config_check_def config_default_def check_retention_entry_def)
  ultimately show ?thesis by blast
qed

end
