(* ===== verification/Hash_Embedder.thy ===== *)
theory Hash_Embedder
  imports Embedding
begin

text \<open>
  \<open>HashEmbedder\<close> of \<open>crates/store/src/vector/embedder.rs\<close>, the embedder the server runs with: each
  white-space separated token is hashed (BLAKE3, a parameter: the 32 bytes of a token's digest) into
  the vector, which is then divided by its Euclidean norm. Subtraction, division and square root are IEEE 754
  single precision with rounding to nearest even.
\<close>

section \<open>More single-precision arithmetic\<close>

definition f32_neg :: "f32 \<Rightarrow> f32" where
  "f32_neg b = (if b < 2 ^ 31 then b + 2 ^ 31 else b - 2 ^ 31)"

definition f32_sub :: "f32 \<Rightarrow> f32 \<Rightarrow> f32" where
  "f32_sub a b = f32_add a (f32_neg b)"

text \<open>\<open>f32::from(b: u8)\<close> is exact.\<close>

definition f32_from_u8 :: "nat \<Rightarrow> f32" where
  "f32_from_u8 n = f32_round 0 (n * 2 ^ 149)"

text \<open>
  The quotient and the root are computed to a few bits below the last place, with a last bit that says
  whether anything is left over, so that rounding decides ties as the exact value does.
\<close>

definition with_sticky :: "nat \<Rightarrow> bool \<Rightarrow> nat" where
  "with_sticky q inexact = 2 * q + of_bool inexact"

definition f32_div :: "f32 \<Rightarrow> f32 \<Rightarrow> f32" where
  "f32_div a b =
     (let neg = (f32_sign a \<noteq> f32_sign b) in
      if f32_is_nan a \<or> f32_is_nan b then f32_nan
      else if f32_is_inf a then (if f32_is_inf b then f32_nan else f32_pack neg (255 * 2 ^ 23))
      else if f32_is_inf b then f32_pack neg 0
      else if f32_mag b = 0 then (if f32_mag a = 0 then f32_nan else f32_pack neg (255 * 2 ^ 23))
      else let n = f32_mag a * 2 ^ 150
           in f32_pack neg (f32_round 2 (with_sticky (n div f32_mag b) (n mod f32_mag b \<noteq> 0))))"

fun isqrt :: "nat \<Rightarrow> nat" where
  "isqrt n = (if n = 0 then 0 else let r = 2 * isqrt (n div 4) in if (r + 1) * (r + 1) \<le> n then r + 1 else r)"

declare isqrt.simps [simp del]

definition f32_sqrt :: "f32 \<Rightarrow> f32" where
  "f32_sqrt a =
     (if f32_is_nan a then f32_nan
      else if f32_mag a = 0 then a
      else if f32_sign a then f32_nan
      else if f32_is_inf a then a
      else let n = f32_mag a * 2 ^ 151; r = isqrt n in f32_round 2 (with_sticky r (r * r \<noteq> n)))"

section \<open>The embedder\<close>

text \<open>\<open>str::split_whitespace\<close>.\<close>

fun take_token :: "string \<Rightarrow> string \<times> string" where
  "take_token [] = ([], [])"
| "take_token (c # cs) = (if strip_one white_space (c # cs) \<noteq> None then ([], c # cs)
     else case take_token cs of (tok, rest) \<Rightarrow> (c # tok, rest))"

lemma take_token_append: "fst (take_token s) @ snd (take_token s) = s"
  by (induction s) (auto split: prod.split)

lemma strip_all_length: "length (strip_all ws s) \<le> length s"
proof (induction ws s rule: strip_all.induct)
  case (1 ws s)
  show ?case
  proof (cases "strip_one ws s")
    case None
    then show ?thesis by (simp add: strip_all.simps)
  next
    case (Some s')
    then show ?thesis using 1 [OF Some] strip_one_shorter [OF Some] by (subst strip_all.simps) simp
  qed
qed

lemma strip_all_done: "strip_one ws (strip_all ws s) = None"
proof (induction ws s rule: strip_all.induct)
  case (1 ws s)
  then show ?case by (cases "strip_one ws s") (simp_all add: strip_all.simps)
qed

lemma take_token_shorter:
  assumes "strip_all white_space s \<noteq> []"
  shows "length (snd (take_token (strip_all white_space s))) < length s"
proof -
  obtain c cs where s: "strip_all white_space s = c # cs" using assms by (cases "strip_all white_space s") auto
  have "strip_one white_space (c # cs) = None" using strip_all_done [of white_space s] by (simp add: s)
  then have "snd (take_token (c # cs)) = snd (take_token cs)" by (simp split: prod.split)
  moreover have "length (snd (take_token cs)) \<le> length cs" by (metis take_token_append length_append le_add2)
  ultimately show ?thesis using strip_all_length [of white_space s] by (simp add: s)
qed

function split_whitespace :: "string \<Rightarrow> string list" where
  "split_whitespace s = (let s' = strip_all white_space s in
     if s' = [] then [] else fst (take_token s') # split_whitespace (snd (take_token s')))"
  by pat_completeness auto
termination
  by (relation "measure length") (auto dest: take_token_shorter)

declare split_whitespace.simps [simp del]

text \<open>The body of the inner loop, and the loop over the bytes of one digest.\<close>

definition add_byte :: "usize \<Rightarrow> string \<Rightarrow> nat \<times> nat \<Rightarrow> f32 list \<Rightarrow> f32 list" where
  "add_byte dim token = (\<lambda>(i, b) v.
     let idx = (i + length token) mod dim
     in v[idx := f32_add (v ! idx) (f32_div (f32_sub (f32_from_u8 b) 0x42FF0000) 0x42FF0000)])"

definition add_token :: "(bytes \<Rightarrow> bytes) \<Rightarrow> usize \<Rightarrow> string \<Rightarrow> f32 list \<Rightarrow> f32 list" where
  "add_token digest dim token v = fold (add_byte dim token) (List.enumerate 0 (map of_char (digest token))) v"

definition f32_epsilon :: f32 where
  "f32_epsilon = 0x34000000"

definition normalise :: "f32 list \<Rightarrow> f32 list" where
  "normalise v =
     (let norm = f32_sqrt (fold (\<lambda>x acc. f32_add acc (f32_mul x x)) v 0)
      in if f32_gt norm f32_epsilon then map (\<lambda>x. f32_div x norm) v else v)"

definition hash_embed :: "(bytes \<Rightarrow> bytes) \<Rightarrow> usize \<Rightarrow> string \<Rightarrow> f32 list" where
  "hash_embed digest dim txt = normalise (fold (add_token digest dim) (split_whitespace txt) (replicate dim 0))"

text \<open>\<open>HashEmbedder::new\<close> (a dimension of 0 would make the index computation panic).\<close>

definition hash_embedder :: "(bytes \<Rightarrow> bytes) \<Rightarrow> usize \<Rightarrow> embedder" where
  "hash_embedder digest dim = \<lparr> emb_embed = hash_embed digest dim, emb_dim = dim,
     emb_model_id = ''percept-hash-v1-d'' @ show_nat dim \<rparr>"

section \<open>Facts\<close>

lemma isqrt_correct: "isqrt n * isqrt n \<le> n \<and> n < (isqrt n + 1) * (isqrt n + 1)"
proof (induction n rule: isqrt.induct)
  case (1 n)
  show ?case
  proof (cases "n = 0")
    case False
    define r where "r = isqrt (n div 4)"
    have r: "r * r \<le> n div 4" "n div 4 < (r + 1) * (r + 1)" using 1 [OF False] by (simp_all add: r_def)
    have "4 * (r * r) \<le> n" using r(1) by linarith
    moreover have "n < 4 * ((r + 1) * (r + 1))" using r(2) by linarith
    ultimately show ?thesis using False by (subst (1 2 3 4) isqrt.simps) (auto simp: r_def [symmetric] Let_def algebra_simps)
  qed (simp add: isqrt.simps)
qed

text \<open>Known values: 1 / 3, 2 / 3 and -5 / 5 (of multiples of the least positive number), sqrt 2, sqrt 4, 255 and 0 - 127.5.\<close>

lemma isqrt_eqI: "r * r \<le> n \<Longrightarrow> n < (r + 1) * (r + 1) \<Longrightarrow> isqrt n = r"
proof -
  assume r: "r * r \<le> n" "n < (r + 1) * (r + 1)"
  have "\<not> isqrt n + 1 \<le> r" using isqrt_correct [of n] r(1) mult_le_mono [of "isqrt n + 1" r "isqrt n + 1" r] by linarith
  moreover have "\<not> r + 1 \<le> isqrt n" using isqrt_correct [of n] r(2) mult_le_mono [of "r + 1" "isqrt n" "r + 1" "isqrt n"] by linarith
  ultimately show ?thesis by simp
qed

lemma isqrt_examples:
  "isqrt 4074071952668972172536891376818756322102936787331872501272280898708762599526673412366794752 = 2018433043890475989582762664075985373539252144"
  "isqrt 8148143905337944345073782753637512644205873574663745002544561797417525199053346824733589504 = 2854495385411919762116571938898990272765493248"
  by (rule isqrt_eqI; simp)+

lemma f32_round_examples:
  "f32_round 2 951498461803973254038857312966330090921831083 = 0x3EAAAAAB"
  "f32_round 2 1902996923607946508077714625932660181843662165 = 0x3F2AAAAB"
  "f32_round 2 2854495385411919762116571938898990272765493248 = 0x3F800000"
  "f32_round 2 4036866087780951979165525328151970747078504289 = 0x3FB504F3"
  "f32_round 2 5708990770823839524233143877797980545530986496 = 0x40000000"
  by (simp_all add: f32_round_def Let_def)

lemma f32_div_sqrt_examples:
  "f32_div 1 3 = 0x3EAAAAAB" "f32_div 2 3 = 0x3F2AAAAB" "f32_div 0x80000005 5 = 0xBF800000"
  "f32_sqrt 0x40000000 = 0x3FB504F3" "f32_sqrt 0x40800000 = 0x40000000"
  by (simp_all add: f32_div_def f32_sqrt_def with_sticky_def f32_is_nan_def f32_is_inf_def f32_exp_def f32_man_def
      f32_sign_def f32_mag_def f32_pack_def isqrt_examples f32_round_examples)

lemma f32_byte_examples: "f32_from_u8 255 = 0x437F0000" "f32_sub (f32_from_u8 0) 0x42FF0000 = 0xC2FF0000"
  by (simp_all add: f32_from_u8_def f32_sub_def f32_neg_def f32_eval)

lemma f32_round_bound: "f32_round s n \<le> 255 * 2 ^ 23"
  by (simp add: f32_round_def Let_def)

lemma f32_pack_bound: "b \<le> 255 * 2 ^ 23 \<Longrightarrow> f32_pack neg b < 2 ^ 32"
  by (simp add: f32_pack_def)

lemma f32_ops_bound:
  "a < 2 ^ 32 \<Longrightarrow> b < 2 ^ 32 \<Longrightarrow> f32_add a b < 2 ^ 32" "f32_div a b < 2 ^ 32"
  using f32_round_bound f32_pack_bound
  by (simp_all add: f32_add_def f32_div_def f32_nan_def Let_def)

lemma add_token_ok:
  assumes "vec_ok v"
  shows "length (add_token digest dim token v) = length v \<and> vec_ok (add_token digest dim token v)"
proof -
  have one: "length (add_byte dim token p v) = length v \<and> vec_ok (add_byte dim token p v)" if "vec_ok v" for p v
  proof (cases "(fst p + length token) mod dim < length v")
    case True
    then have "f32_add (v ! ((fst p + length token) mod dim)) x < 2 ^ 32" if "x < 2 ^ 32" for x
      using that \<open>vec_ok v\<close> by (intro f32_ops_bound) (auto simp: vec_ok_def list_all_length)
    then show ?thesis using \<open>vec_ok v\<close> f32_ops_bound(2)
      by (auto simp: add_byte_def vec_ok_def Let_def list_all_iff split_beta dest!: subsetD [OF set_update_subset_insert])
  next
    case False
    then show ?thesis using \<open>vec_ok v\<close> by (simp add: add_byte_def Let_def split_beta list_update_beyond)
  qed
  have "length (fold (add_byte dim token) ps v) = length v \<and> vec_ok (fold (add_byte dim token) ps v)" for ps
    using assms by (induction ps arbitrary: v) (auto simp: one)
  then show ?thesis by (simp add: add_token_def)
qed

text \<open>The server's embedder meets the contract of the embedding path.\<close>

lemma hash_embedder_ok: "embedder_ok (hash_embedder digest dim)"
proof -
  have raw: "length (fold (add_token digest dim) ts v) = length v \<and> vec_ok (fold (add_token digest dim) ts v)"
    if "vec_ok v" for ts v
    using that by (induction ts arbitrary: v) (auto simp: add_token_ok)
  have zero: "vec_ok (replicate dim 0)" by (simp add: vec_ok_def list_all_iff)
  have norm: "length (normalise v) = length v \<and> (vec_ok v \<longrightarrow> vec_ok (normalise v))" for v
    using f32_ops_bound(2) by (simp add: normalise_def Let_def vec_ok_def list_all_iff)
  show ?thesis
    using raw [OF zero] norm by (simp add: embedder_ok_def hash_embedder_def hash_embed_def)
qed

end
