(* ===== verification/Store_Files.thy ===== *)
theory Store_Files
  imports Vector_Facts
begin

text \<open>
  Opening the two databases of a data directory: \<open>ColdStore::open\<close> of \<open>crates/store/src/cold/store.rs\<close> and
  \<open>VectorIndex::open\<close> of \<open>crates/store/src/vector/index.rs\<close>, with their pragmas and migrations. A database file is
  the tables it has (\<open>None\<close> before \<open>CREATE TABLE\<close>) and its journal mode, the one pragma that is stored in it. Every
  call may fail: the directory, the file, or the \<open>n\<close>-th statement.
\<close>

section \<open>Files\<close>

record cold_db =
  cd_events :: "event_row list option"
  cd_latest :: "(ring_key \<Rightarrow> stored_row option) option"
  cd_wal :: bool

record vector_db =
  vd_vectors :: "vector_row list option"
  vd_wal :: bool

record disk =
  dk_dirs :: "string set"
  dk_cold :: "cold_db hash_map" \<comment> \<open>by path\<close>
  dk_vectors :: "vector_db hash_map"

record open_faults =
  of_dir :: "string option"
  of_file :: "sql_error option"
  of_stmt :: "nat \<Rightarrow> sql_error option"

text \<open>\<open>Path::join\<close> with a relative file name.\<close>

definition path_join :: "string \<Rightarrow> string \<Rightarrow> string" where
  "path_join dir name = (if dir = [] then name else if last dir = CHR ''/'' then dir @ name else dir @ ''/'' @ name)"

text \<open>The statements of a loop, each with its effect on the file: the first that fails ends it.\<close>

fun run_stmts :: "(nat \<Rightarrow> sql_error option) \<Rightarrow> nat \<Rightarrow> ('d \<Rightarrow> 'd) list \<Rightarrow> 'd \<Rightarrow> 'd \<times> (sql_error + unit)" where
  "run_stmts faults i [] db = (db, Inr ())"
| "run_stmts faults i (f # fs) db = (case faults i of
     Some x \<Rightarrow> (db, Inl x)
   | None \<Rightarrow> run_stmts faults (i + 1) fs (f db))"

section \<open>The cold store\<close>

definition create_events :: "cold_db \<Rightarrow> cold_db" where
  "create_events db = (case cd_events db of None \<Rightarrow> db\<lparr> cd_events := Some [] \<rparr> | Some _ \<Rightarrow> db)"

definition create_latest :: "cold_db \<Rightarrow> cold_db" where
  "create_latest db = (case cd_latest db of None \<Rightarrow> db\<lparr> cd_latest := Some Map.empty \<rparr> | Some _ \<Rightarrow> db)"

text \<open>The two tables and, between them, the three indices.\<close>

definition cold_migrations :: "(cold_db \<Rightarrow> cold_db) list" where
  "cold_migrations = [create_events, id, id, id, create_latest]"

text \<open>\<open>synchronous\<close> and \<open>foreign_keys\<close> belong to the connection.\<close>

definition cold_configure :: "(nat \<Rightarrow> sql_error option) \<Rightarrow> cold_db \<Rightarrow> cold_db \<times> (sql_error + unit)" where
  "cold_configure faults db = run_stmts faults 0 [\<lambda>db. db\<lparr> cd_wal := True \<rparr>, id, id] db"

definition cold_migrate :: "(nat \<Rightarrow> sql_error option) \<Rightarrow> cold_db \<Rightarrow> cold_db \<times> (sql_error + unit)" where
  "cold_migrate faults db = run_stmts faults 3 cold_migrations db"

definition cold_path :: "string \<Rightarrow> string" where
  "cold_path data_dir = path_join data_dir ''cold.sqlite3''"

definition cold_of_db :: "cold_db \<Rightarrow> cold_store" where
  "cold_of_db db = \<lparr> events_tbl = (case cd_events db of None \<Rightarrow> [] | Some t \<Rightarrow> t),
     latest_tbl = (case cd_latest db of None \<Rightarrow> Map.empty | Some t \<Rightarrow> t) \<rparr>"

definition cold_store_open :: "open_faults \<Rightarrow> string \<Rightarrow> disk \<Rightarrow> disk \<times> (cold_error + cold_store)" where
  "cold_store_open F data_dir d = (case of_dir F of
     Some e \<Rightarrow> (d, Inl (Io e))
   | None \<Rightarrow>
       let d = d\<lparr> dk_dirs := insert data_dir (dk_dirs d) \<rparr>; path = cold_path data_dir
       in case of_file F of
            Some x \<Rightarrow> (d, Inl (Sqlite x))
          | None \<Rightarrow>
              let conn = (case dk_cold d path of Some db \<Rightarrow> db
                    | None \<Rightarrow> \<lparr> cd_events = None, cd_latest = None, cd_wal = False \<rparr>);
                  put = (\<lambda>db. d\<lparr> dk_cold := (dk_cold d)(path \<mapsto> db) \<rparr>)
              in case cold_configure (of_stmt F) conn of
                   (db, Inl x) \<Rightarrow> (put db, Inl (Sqlite x))
                 | (db, Inr _) \<Rightarrow> (case cold_migrate (of_stmt F) db of
                     (db', Inl x) \<Rightarrow> (put db', Inl (Sqlite x))
                   | (db', Inr _) \<Rightarrow> (put db', Inr (cold_of_db db'))))"

section \<open>The vector index\<close>

definition create_vectors :: "vector_db \<Rightarrow> vector_db" where
  "create_vectors db = (case vd_vectors db of None \<Rightarrow> db\<lparr> vd_vectors := Some [] \<rparr> | Some _ \<Rightarrow> db)"

definition vector_migrations :: "(vector_db \<Rightarrow> vector_db) list" where
  "vector_migrations = [create_vectors, id, id]"

definition vector_configure :: "(nat \<Rightarrow> sql_error option) \<Rightarrow> vector_db \<Rightarrow> vector_db \<times> (sql_error + unit)" where
  "vector_configure faults db = run_stmts faults 0 [\<lambda>db. db\<lparr> vd_wal := True \<rparr>, id] db"

definition vector_migrate :: "(nat \<Rightarrow> sql_error option) \<Rightarrow> vector_db \<Rightarrow> vector_db \<times> (sql_error + unit)" where
  "vector_migrate faults db = run_stmts faults 2 vector_migrations db"

definition vectors_path :: "string \<Rightarrow> string" where
  "vectors_path data_dir = path_join data_dir ''vectors.sqlite3''"

definition vectors_of_db :: "vector_db \<Rightarrow> vector_row list" where
  "vectors_of_db db = (case vd_vectors db of None \<Rightarrow> [] | Some t \<Rightarrow> t)"

text \<open>The query of \<open>load_rows\<close> is the statement after the migrations.\<close>

definition vector_index_open :: "open_faults \<Rightarrow> codec \<Rightarrow> string \<Rightarrow> string \<Rightarrow> usize \<Rightarrow> disk
    \<Rightarrow> disk \<times> (vector_error + vector_index)" where
  "vector_index_open F c data_dir expected_model_id expected_dim d = (case of_dir F of
     Some e \<Rightarrow> (d, Inl (VIo e))
   | None \<Rightarrow>
       let d = d\<lparr> dk_dirs := insert data_dir (dk_dirs d) \<rparr>; path = vectors_path data_dir
       in case of_file F of
            Some x \<Rightarrow> (d, Inl (VSqlite x))
          | None \<Rightarrow>
              let conn = (case dk_vectors d path of Some db \<Rightarrow> db | None \<Rightarrow> \<lparr> vd_vectors = None, vd_wal = False \<rparr>);
                  put = (\<lambda>db. d\<lparr> dk_vectors := (dk_vectors d)(path \<mapsto> db) \<rparr>)
              in case vector_configure (of_stmt F) conn of
                   (db, Inl x) \<Rightarrow> (put db, Inl (VSqlite x))
                 | (db, Inr _) \<Rightarrow> (case vector_migrate (of_stmt F) db of
                     (db', Inl x) \<Rightarrow> (put db', Inl (VSqlite x))
                   | (db', Inr _) \<Rightarrow> (put db', vector_from_connection c (of_stmt F 5) expected_model_id expected_dim
                       (vectors_of_db db'))))"

section \<open>Writing\<close>

text \<open>
  Every write of an open connection goes to its file: after the calls made on the stores of a data directory, the
  files of those that are open hold their tables.
\<close>

definition cold_written :: "string \<Rightarrow> cold_store \<Rightarrow> disk \<Rightarrow> disk" where
  "cold_written data_dir st d = d\<lparr> dk_cold := (dk_cold d)(cold_path data_dir \<mapsto>
     \<lparr> cd_events = Some (events_tbl st), cd_latest = Some (latest_tbl st), cd_wal = True \<rparr>) \<rparr>"

definition vectors_written :: "string \<Rightarrow> vector_index \<Rightarrow> disk \<Rightarrow> disk" where
  "vectors_written data_dir vi d = d\<lparr> dk_vectors := (dk_vectors d)(vectors_path data_dir \<mapsto>
     \<lparr> vd_vectors = Some (vectors_tbl vi), vd_wal = True \<rparr>) \<rparr>"

definition stores_written :: "string \<Rightarrow> cold_store option \<Rightarrow> vector_index option \<Rightarrow> disk \<Rightarrow> disk" where
  "stores_written data_dir cold vector d =
     (let d1 = (case cold of None \<Rightarrow> d | Some st \<Rightarrow> cold_written data_dir st d)
      in case vector of None \<Rightarrow> d1 | Some vi \<Rightarrow> vectors_written data_dir vi d1)"

section \<open>Facts\<close>

text \<open>What a reader finds in a file, when a missing file or table counts as empty.\<close>

definition stored_cold :: "disk \<Rightarrow> string \<Rightarrow> cold_store" where
  "stored_cold d path = (case dk_cold d path of None \<Rightarrow> cold_open_in_memory | Some db \<Rightarrow> cold_of_db db)"

definition stored_vectors :: "disk \<Rightarrow> string \<Rightarrow> vector_row list" where
  "stored_vectors d path = (case dk_vectors d path of None \<Rightarrow> [] | Some db \<Rightarrow> vectors_of_db db)"

lemma stored_cold_written:
  "stored_cold (stores_written dir cold vec d) p =
     (case cold of Some st \<Rightarrow> if p = cold_path dir then st else stored_cold d p | None \<Rightarrow> stored_cold d p)"
  by (simp add: stores_written_def cold_written_def vectors_written_def stored_cold_def cold_of_db_def Let_def
      split: option.split)

lemma stored_vectors_written:
  "stored_vectors (stores_written dir cold vec d) p =
     (case vec of Some vi \<Rightarrow> if p = vectors_path dir then vectors_tbl vi else stored_vectors d p | None \<Rightarrow> stored_vectors d p)"
  by (simp add: stores_written_def cold_written_def vectors_written_def stored_vectors_def vectors_of_db_def Let_def
      split: option.split)

text \<open>The statements fail exactly when one of them does, and keep what each of them keeps.\<close>

lemma run_stmts_ok: "is_ok (snd (run_stmts faults i fs db)) \<longleftrightarrow> (\<forall>j < length fs. faults (i + j) = None)"
proof (induction fs arbitrary: i db)
  case (Cons f fs)
  then show ?case by (cases "faults i") (auto simp: All_less_Suc2)
qed simp

lemma run_stmts_keeps:
  assumes "\<forall>f \<in> set fs. \<forall>db. g (f db) = g db"
  shows "g (fst (run_stmts faults i fs db)) = g db"
  using assms by (induction fs arbitrary: i db) (auto split: option.split)

definition no_fault :: "open_faults \<Rightarrow> nat \<Rightarrow> bool" where
  "no_fault F n \<longleftrightarrow> of_dir F = None \<and> of_file F = None \<and> (\<forall>i < n. of_stmt F i = None)"

text \<open>
  What both databases promise: the pragmas and the migrations are statements that keep what the file holds, and they
  succeed exactly when none of them fails.
\<close>

locale db_file =
  fixes configure migrate :: "(nat \<Rightarrow> sql_error option) \<Rightarrow> 'd \<Rightarrow> 'd \<times> (sql_error + unit)"
    and content :: "'d \<Rightarrow> 'c"
    and pragmas migrations :: nat
  assumes configure_keeps: "content (fst (configure faults db)) = content db"
    and migrate_keeps: "content (fst (migrate faults db)) = content db"
    and configure_ok: "is_ok (snd (configure faults db)) \<longleftrightarrow> (\<forall>i < pragmas. faults i = None)"
    and migrate_ok: "is_ok (snd (migrate faults db)) \<longleftrightarrow> (\<forall>i < migrations. faults (pragmas + i) = None)"
begin

definition opened :: "(nat \<Rightarrow> sql_error option) \<Rightarrow> 'd \<Rightarrow> 'd \<times> (sql_error + unit)" where
  "opened faults db = (case configure faults db of (db', Inl x) \<Rightarrow> (db', Inl x) | (db', Inr _) \<Rightarrow> migrate faults db')"

lemma opened_keeps: "content (fst (opened faults db)) = content db"
  using configure_keeps [of faults db] migrate_keeps by (auto simp: opened_def split: prod.split sum.split)

lemma opened_ok: "is_ok (snd (opened faults db)) \<longleftrightarrow> (\<forall>i < pragmas + migrations. faults i = None)"
  using configure_ok [of faults db] migrate_ok by (auto simp: opened_def all_less_add split: prod.split sum.split)

lemma opened_sequence:
  "(case configure faults db of (db1, Inl x) \<Rightarrow> f db1 x
     | (db1, Inr _) \<Rightarrow> (case migrate faults db1 of (db2, Inl x) \<Rightarrow> f db2 x | (db2, Inr _) \<Rightarrow> g db2))
   = (case opened faults db of (db2, Inl x) \<Rightarrow> f db2 x | (db2, Inr _) \<Rightarrow> g db2)"
  by (simp add: opened_def split: prod.split sum.split)

end

interpretation cold_file: db_file cold_configure cold_migrate cold_of_db 3 5
proof
  fix faults db
  show "cold_of_db (fst (cold_configure faults db)) = cold_of_db db" unfolding cold_configure_def
    by (rule run_stmts_keeps) (simp add: cold_of_db_def)
  show "cold_of_db (fst (cold_migrate faults db)) = cold_of_db db" unfolding cold_migrate_def
    by (rule run_stmts_keeps)
      (auto simp: cold_migrations_def cold_of_db_def create_events_def create_latest_def split: option.split)
  show "is_ok (snd (cold_configure faults db)) \<longleftrightarrow> (\<forall>i < 3. faults i = None)"
    unfolding cold_configure_def run_stmts_ok by (simp add: numeral_eq_Suc)
  show "is_ok (snd (cold_migrate faults db)) \<longleftrightarrow> (\<forall>i < 5. faults (3 + i) = None)"
    unfolding cold_migrate_def run_stmts_ok by (simp add: cold_migrations_def numeral_eq_Suc)
qed

interpretation vector_file: db_file vector_configure vector_migrate vectors_of_db 2 3
proof
  fix faults db
  show "vectors_of_db (fst (vector_configure faults db)) = vectors_of_db db" unfolding vector_configure_def
    by (rule run_stmts_keeps) (simp add: vectors_of_db_def)
  show "vectors_of_db (fst (vector_migrate faults db)) = vectors_of_db db" unfolding vector_migrate_def
    by (rule run_stmts_keeps) (auto simp: vector_migrations_def vectors_of_db_def create_vectors_def split: option.split)
  show "is_ok (snd (vector_configure faults db)) \<longleftrightarrow> (\<forall>i < 2. faults i = None)"
    unfolding vector_configure_def run_stmts_ok by (simp add: numeral_eq_Suc)
  show "is_ok (snd (vector_migrate faults db)) \<longleftrightarrow> (\<forall>i < 3. faults (2 + i) = None)"
    unfolding vector_migrate_def run_stmts_ok by (simp add: vector_migrations_def numeral_eq_Suc)
qed

lemma cold_store_open_cases:
  "(\<forall>p. stored_cold (fst (cold_store_open F dir d)) p = stored_cold d p)
   \<and> dk_vectors (fst (cold_store_open F dir d)) = dk_vectors d
   \<and> (if no_fault F 8 then snd (cold_store_open F dir d) = Inr (stored_cold d (cold_path dir))
      else \<not> is_ok (snd (cold_store_open F dir d)))"
proof (cases "of_dir F = None \<and> of_file F = None")
  case False
  then show ?thesis by (auto simp: cold_store_open_def no_fault_def stored_cold_def Let_def split: option.split)
next
  case True
  define conn where "conn = (case dk_cold d (cold_path dir) of Some db \<Rightarrow> db
    | None \<Rightarrow> \<lparr> cd_events = None, cd_latest = None, cd_wal = False \<rparr>)"
  have conn: "cold_of_db conn = stored_cold d (cold_path dir)"
    by (simp add: conn_def stored_cold_def cold_of_db_def cold_open_in_memory_def split: option.split)
  obtain db r where run: "cold_file.opened (of_stmt F) conn = (db, r)" by (cases "cold_file.opened (of_stmt F) conn")
  have "cold_of_db db = cold_of_db conn" "is_ok r \<longleftrightarrow> no_fault F 8"
    using cold_file.opened_keeps [of "of_stmt F" conn] cold_file.opened_ok [of "of_stmt F" conn] run True
    by (simp_all add: no_fault_def)
  then show ?thesis using run True conn unfolding cold_store_open_def
    by (cases r) (auto simp: Let_def conn_def [symmetric] cold_file.opened_sequence stored_cold_def)
qed

lemma vector_index_open_cases:
  "(\<forall>p. stored_vectors (fst (vector_index_open F c dir model dim d)) p = stored_vectors d p)
   \<and> dk_cold (fst (vector_index_open F c dir model dim d)) = dk_cold d
   \<and> (if no_fault F 5 then snd (vector_index_open F c dir model dim d)
        = vector_from_connection c (of_stmt F 5) model dim (stored_vectors d (vectors_path dir))
      else \<not> is_ok (snd (vector_index_open F c dir model dim d)))"
proof (cases "of_dir F = None \<and> of_file F = None")
  case False
  then show ?thesis by (auto simp: vector_index_open_def no_fault_def stored_vectors_def Let_def split: option.split)
next
  case True
  define conn where "conn = (case dk_vectors d (vectors_path dir) of Some db \<Rightarrow> db | None \<Rightarrow> \<lparr> vd_vectors = None, vd_wal = False \<rparr>)"
  have conn: "vectors_of_db conn = stored_vectors d (vectors_path dir)"
    by (simp add: conn_def stored_vectors_def vectors_of_db_def split: option.split)
  obtain db r where run: "vector_file.opened (of_stmt F) conn = (db, r)" by (cases "vector_file.opened (of_stmt F) conn")
  have "vectors_of_db db = vectors_of_db conn" "is_ok r \<longleftrightarrow> no_fault F 5"
    using vector_file.opened_keeps [of "of_stmt F" conn] vector_file.opened_ok [of "of_stmt F" conn] run True
    by (simp_all add: no_fault_def)
  then show ?thesis using run True conn unfolding vector_index_open_def
    by (cases r) (auto simp: Let_def conn_def [symmetric] vector_file.opened_sequence stored_vectors_def)
qed

section \<open>Properties\<close>

text \<open>
  C13. Opening never loses data: whatever was stored in any file of the disk is stored there afterwards, whichever call of
  the two openings fails and however far they get, and so a failed start can be repeated. Without a failure the cold store
  opens with exactly the tables on disk, empty in a new directory, and the vector index with exactly its table, which
  it then checks against the model.
\<close>

theorem opening_keeps_data:
  "case vector_index_open G c dir model dim (fst (cold_store_open F dir d)) of (d', vec) \<Rightarrow>
     (\<forall>p. stored_cold d' p = stored_cold d p \<and> stored_vectors d' p = stored_vectors d p)
     \<and> (if no_fault F 8 then snd (cold_store_open F dir d) = Inr (stored_cold d (cold_path dir))
        else \<not> is_ok (snd (cold_store_open F dir d)))
     \<and> (if no_fault G 5 then vec = vector_from_connection c (of_stmt G 5) model dim (stored_vectors d (vectors_path dir))
        else \<not> is_ok vec)"
proof -
  let ?d1 = "fst (cold_store_open F dir d)"
  have "stored_vectors ?d1 = stored_vectors d" using cold_store_open_cases [of F dir d] by (simp add: stored_vectors_def fun_eq_iff)
  moreover have "stored_cold (fst (vector_index_open G c dir model dim ?d1)) = stored_cold ?d1"
    using vector_index_open_cases [of G c dir model dim ?d1] by (simp add: stored_cold_def fun_eq_iff)
  ultimately show ?thesis
    using cold_store_open_cases [of F dir d] vector_index_open_cases [of G c dir model dim ?d1]
    by (simp add: split_beta)
qed

end
