(* ===== verification/Server.thy ===== *)
theory Server
  imports Pipeline Forwarder Retention_Sweep Mcp_Router Config Hash_Embedder Store_Files
begin

text \<open>
  \<open>crates/percept/src/server.rs\<close>: how a loaded configuration becomes the running server, and
  \<open>crates/percept/src/sweeper.rs\<close>, the retention task it spawns. \<open>server_start\<close> is \<open>run\<close> up to the bound listener: each of its
  early returns is a constructor of \<open>start_error\<close>. It opens both databases on the \<open>disk\<close> it is given and returns the disk
  as well. The socket-address parser, the failures of the two openings and the listener are parameters (record \<open>host\<close>).
\<close>

section \<open>Errors and parts\<close>

datatype start_error =
    NoMcpSection
  | BadListen string
  | BadTransport string
  | McpTokenUnresolved
  | HttpTokenUnresolved string
  | HttpTokenScope string auth_error
  | SchemaFailed schema_error
  | ColdOpenFailed cold_error
  | VectorOpenFailed vector_error
  | MultipleForwarders
  | HubTokenUnresolved string
  | RetentionFailed config_error
  | PeerTokenUnresolved string
  | BindFailed string

fun build_auth_loop :: "glob_lib \<Rightarrow> http_token list \<Rightarrow> auth \<Rightarrow> start_error + auth" where
  "build_auth_loop gl [] a = Inr a"
| "build_auth_loop gl (t # ts) a = (case ht_resolved_token t of
     None \<Rightarrow> Inl (HttpTokenUnresolved (ht_name t))
   | Some resolved \<Rightarrow>
       (case token_scope_build gl (ht_name t) (ht_allow_source_ids t) (ht_allow_kinds t) (ht_rate_limit t) of
          Inl e \<Rightarrow> Inl (HttpTokenScope (ht_name t) e)
        | Inr sc \<Rightarrow> build_auth_loop gl ts (auth_insert resolved sc a)))"

definition build_auth :: "glob_lib \<Rightarrow> http_token list \<Rightarrow> start_error + auth" where
  "build_auth gl tokens = build_auth_loop gl tokens auth_new"

definition parse_cadence_or_warn :: "string \<Rightarrow> duration option" where
  "parse_cadence_or_warn text = (let s = trim text in
     case split_digits s of
       None \<Rightarrow> None
     | Some (num_str, unit) \<Rightarrow> (case parse_uint u64_max num_str of
         None \<Rightarrow> None
       | Some n \<Rightarrow>
           map_option from_secs
             (if unit = ''s'' then Some n
              else if unit = ''m'' then checked_mul n 60
              else if unit = ''h'' then checked_mul n 3600
              else if unit = ''d'' then checked_mul n 86400
              else None)))"

definition current_embedder :: "(bytes \<Rightarrow> bytes) \<Rightarrow> embedder" where
  "current_embedder digest = hash_embedder digest 64"

definition cfg_embed_default :: "config \<Rightarrow> bool" where
  "cfg_embed_default cfg = (case Option.bind (cf_storage cfg) st_embed_default of Some b \<Rightarrow> b | None \<Rightarrow> False)"

definition set_kind_flag :: "kind_entry \<Rightarrow> embed_selector \<Rightarrow> embed_selector" where
  "set_kind_flag k sel = (case ke_embed k of Some v \<Rightarrow> set_kind (ke_name k) v sel | None \<Rightarrow> sel)"

definition set_source_flag :: "source_entry \<Rightarrow> embed_selector \<Rightarrow> embed_selector" where
  "set_source_flag s sel = (case so_embed s of Some v \<Rightarrow> set_source (so_id s) v sel | None \<Rightarrow> sel)"

definition build_selector :: "config \<Rightarrow> embed_selector" where
  "build_selector cfg = fold set_source_flag (cf_sources cfg)
     (fold set_kind_flag (cf_kinds cfg) (selector_new (cfg_embed_default cfg)))"

definition any_embed_enabled :: "config \<Rightarrow> bool" where
  "any_embed_enabled cfg \<longleftrightarrow> cfg_embed_default cfg \<or> list_ex (\<lambda>k. ke_embed k = Some True) (cf_kinds cfg)
     \<or> list_ex (\<lambda>s. so_embed s = Some True) (cf_sources cfg)"

record host =
  h_socket_addr :: "string \<Rightarrow> string option"
  h_open_cold :: open_faults
  h_open_vectors :: open_faults
  h_blake3 :: "bytes \<Rightarrow> bytes"
  h_bind :: "string \<Rightarrow> string option" \<comment> \<open>the error, if any\<close>

definition build_vector_subsystem :: "host \<Rightarrow> codec \<Rightarrow> config \<Rightarrow> disk \<Rightarrow> disk \<times> (vector_error + vector_subsystem option)" where
  "build_vector_subsystem h c cfg d = (case cf_server cfg of
     None \<Rightarrow> (d, Inr None)
   | Some sv \<Rightarrow>
       if \<not> any_embed_enabled cfg then (d, Inr None)
       else (let emb = current_embedder (h_blake3 h)
             in case vector_index_open (h_open_vectors h) c (sv_data_dir sv) (emb_model_id emb) (emb_dim emb) d of
                  (d', Inl e) \<Rightarrow> (d', Inl e)
                | (d', Inr idx) \<Rightarrow>
                    (d', Inr (Some \<lparr> vs_embedder = emb, vs_index = idx, vs_selector = build_selector cfg \<rparr>))))"

section \<open>MQTT brokers\<close>

datatype mqtt_build_error =
    NoScheme | MqttsUnsupported | UnknownScheme string | NoPort | InvalidPort string
  | UnknownPayload string string | KindMissing string | BadSubscription string compile_error

record broker_config =
  bc_id :: string
  bc_host :: string
  bc_port :: nat
  bc_client_id :: string
  bc_username :: "string option"
  bc_password :: "string option"
  bc_keep_alive :: duration

record mqtt_subscriber =
  su_broker :: broker_config
  su_subscriptions :: "compiled_subscription list"

text \<open>\<open>MqttSubscriber::new\<close>; the sender and the metrics are handed to the steps that use them.\<close>

definition mqtt_subscriber_new :: "broker_config \<Rightarrow> compiled_subscription list \<Rightarrow> mqtt_subscriber" where
  "mqtt_subscriber_new broker subs = \<lparr> su_broker = broker, su_subscriptions = subs \<rparr>"

text \<open>\<open>split_once\<close> with a string, and \<open>rsplit_once\<close> with a character.\<close>

fun split_once_str :: "string \<Rightarrow> string \<Rightarrow> (string \<times> string) option" where
  "split_once_str pat s = (if prefix pat s then Some ([], drop (length pat) s)
     else case s of [] \<Rightarrow> None | c # cs \<Rightarrow> map_option (\<lambda>(a, b). (c # a, b)) (split_once_str pat cs))"

declare split_once_str.simps [simp del]

definition rsplit_once :: "char \<Rightarrow> string \<Rightarrow> (string \<times> string) option" where
  "rsplit_once c s = map_option (\<lambda>(b, a). (rev a, rev b)) (split_once c (rev s))"

definition u16_max :: nat where
  "u16_max = 65535"

definition parse_mqtt_url :: "string \<Rightarrow> mqtt_build_error + string \<times> nat" where
  "parse_mqtt_url url = (case split_once_str ''://'' url of
     None \<Rightarrow> Inl NoScheme
   | Some (scheme, rest) \<Rightarrow>
       if scheme = ''mqtts'' then Inl MqttsUnsupported
       else if scheme \<noteq> ''mqtt'' then Inl (UnknownScheme scheme)
       else (case rsplit_once CHR '':'' rest of
           None \<Rightarrow> Inl NoPort
         | Some (host, port_str) \<Rightarrow> (case parse_uint u16_max port_str of
             None \<Rightarrow> Inl (InvalidPort port_str) | Some port \<Rightarrow> Inr (host, port))))"

definition build_subscription :: "mqtt_lib \<Rightarrow> mqtt_subscription \<Rightarrow> mqtt_build_error + compiled_subscription" where
  "build_subscription ml s =
     (let f = (case ms_payload s of Some p \<Rightarrow> p | None \<Rightarrow> ''json'')
      in case payload_format_parse f of
           None \<Rightarrow> Inl (UnknownPayload (ms_topic s) f)
         | Some payload \<Rightarrow>
             if ms_kind s = None \<and> ms_kind_field s = None then Inl (KindMissing (ms_topic s))
             else (case compile_subscription ml \<lparr> sb_topic_filter = ms_topic s, sb_source_id_template = ms_source_id_template s,
                   sb_kind = ms_kind s, sb_kind_field = ms_kind_field s, sb_payload = payload \<rparr> of
                 Inl e \<Rightarrow> Inl (BadSubscription (ms_topic s) e) | Inr cs \<Rightarrow> Inr cs))"

definition build_mqtt_subscriber :: "mqtt_lib \<Rightarrow> mqtt_broker \<Rightarrow> mqtt_build_error + mqtt_subscriber" where
  "build_mqtt_subscriber ml cfg = (case parse_mqtt_url (mb_url cfg) of
     Inl e \<Rightarrow> Inl e
   | Inr (host, port) \<Rightarrow>
       let broker = \<lparr> bc_id = mb_id cfg, bc_host = host, bc_port = port,
             bc_client_id = (case mb_client_id cfg of Some i \<Rightarrow> i | None \<Rightarrow> ''percept-'' @ mb_id cfg),
             bc_username = Option.bind (mb_credentials cfg) cr_user,
             bc_password = Option.bind (mb_credentials cfg) cr_resolved_password,
             bc_keep_alive = from_secs 30 \<rparr>
       in case traverse (build_subscription ml) (mb_subscriptions cfg) of
            Inl e \<Rightarrow> Inl e
          | Inr subs \<Rightarrow> Inr (mqtt_subscriber_new broker subs))"

section \<open>Forwarder and peers\<close>

definition build_forwarder :: "forwarder_entry \<Rightarrow> start_error + forwarder" where
  "build_forwarder cfg = (case fe_resolved_hub_token cfg of
     None \<Rightarrow> Inl (HubTokenUnresolved (fe_peer_id cfg))
   | Some token \<Rightarrow> Inr (forwarder_new (client_new (fe_hub_url cfg) token)
       (forwarder_config_default\<lparr> fc_peer_id := fe_peer_id cfg \<rparr>)))"

definition build_peer :: "peer_entry \<Rightarrow> start_error + peer_handle" where
  "build_peer p = (case pe_resolved_token p of
     None \<Rightarrow> Inl (PeerTokenUnresolved (pe_id p))
   | Some token \<Rightarrow> Inr \<lparr> ph_id = pe_id p, ph_mcp_url = pe_mcp_url p, ph_token = token,
       ph_timeout = from_millis (case pe_timeout_ms p of Some t \<Rightarrow> t | None \<Rightarrow> 1000) \<rparr>)"

definition build_peers :: "peer_entry list \<Rightarrow> start_error + peer_handle list" where
  "build_peers cfg = traverse build_peer cfg"

section \<open>The retention task\<close>

text \<open>
  \<open>Sweeper::run\<close> over the instants at which its ticker fired, each with the failures the sweep would
  meet; the first one is skipped. An error ends that sweep and is logged. \<open>tokio\<close>'s ticker panics on a
  period of zero, which ends the task: the result is then \<open>None\<close>.
\<close>

definition sweeper_tick :: "retention_policy list \<Rightarrow> faults \<times> i64 \<Rightarrow> cold_store \<times> vector_index option
    \<Rightarrow> cold_store \<times> vector_index option" where
  "sweeper_tick policies = (\<lambda>(dbs, now) st. fst (sweep dbs policies now False st))"

record sweeper_config =
  sc_cadence :: duration

definition sweeper_config_default :: sweeper_config where
  "sweeper_config_default = \<lparr> sc_cadence = from_secs 3600 \<rparr>"

text \<open>The two stores of the struct are the state that \<open>run\<close> works on.\<close>

record sweeper =
  sw_policies :: "retention_policy list"
  sw_cadence :: duration

definition sweeper_new :: "retention_policy list \<Rightarrow> sweeper_config \<Rightarrow> sweeper" where
  "sweeper_new policies cfg = \<lparr> sw_policies = policies, sw_cadence = sc_cadence cfg \<rparr>"

definition sweeper_run :: "sweeper \<Rightarrow> (faults \<times> i64) list
    \<Rightarrow> cold_store \<times> vector_index option \<Rightarrow> (cold_store \<times> vector_index option) option" where
  "sweeper_run sw ticks st =
     (if sw_policies sw = [] then Some st
      else if sw_cadence sw = 0 then None
      else Some (fold (sweeper_tick (sw_policies sw)) (drop 1 ticks) st))"

definition sweeper_cadence :: "config \<Rightarrow> duration" where
  "sweeper_cadence cfg = (case Option.bind (Option.bind (cf_storage cfg) st_sweeper_interval) parse_cadence_or_warn of
     Some d \<Rightarrow> d | None \<Rightarrow> from_secs 3600)"

section \<open>Start-up\<close>

record server_parts =
  srv_addr :: string
  srv_mcp :: mcp_state
  srv_pipeline :: pipeline
  srv_forwarder :: "forwarder option"
  srv_sweeper :: "sweeper option"
  srv_subscribers :: "mqtt_subscriber list"

definition build_mcp_state :: "host \<Rightarrow> string \<Rightarrow> config \<Rightarrow> pipeline \<Rightarrow> cold_store option \<Rightarrow> vector_subsystem option
    \<Rightarrow> retention_policy list \<Rightarrow> peer_handle list \<Rightarrow> mcp_state" where
  "build_mcp_state h token cfg p cold vec policies peers = \<lparr> mcp_token = token,
     mcp_registry = registry_new (resolve_descriptors cfg), mcp_hot_rings = nz_hot_rings (pl_normalizer p),
     mcp_cold_store = cold, mcp_vector_index = map_option vs_index vec,
     mcp_embedder = map_option (\<lambda>_. current_embedder (h_blake3 h)) vec, mcp_retention_policies = policies,
     mcp_peers = peers, mcp_metrics = nz_metrics (pl_normalizer p) \<rparr>"

text \<open>The operator \<open>?\<close>: the first error ends the function.\<close>

definition and_then :: "'e + 'a \<Rightarrow> ('a \<Rightarrow> 'e + 'b) \<Rightarrow> 'e + 'b" where
  [rust_defs]: "and_then x f = (case x of Inl e \<Rightarrow> Inl e | Inr y \<Rightarrow> f y)"

definition ok_or :: "'a option \<Rightarrow> 'e \<Rightarrow> 'e + 'a" where
  [rust_defs]: "ok_or x e = (case x of None \<Rightarrow> Inl e | Some y \<Rightarrow> Inr y)"

definition map_err :: "('e \<Rightarrow> 'f) \<Rightarrow> 'e + 'a \<Rightarrow> 'f + 'a" where
  [rust_defs]: "map_err f x = map_sum f id x"

definition ensure :: "bool \<Rightarrow> 'e \<Rightarrow> 'e + unit" where
  [rust_defs]: "ensure b e = (if b then Inr () else Inl e)"

definition open_cold :: "host \<Rightarrow> config \<Rightarrow> disk \<Rightarrow> disk \<times> (start_error + cold_store option)" where
  "open_cold h cfg d = (case cf_server cfg of
     None \<Rightarrow> (d, Inr None)
   | Some sv \<Rightarrow> (case cold_store_open (h_open_cold h) (sv_data_dir sv) d of
       (d', Inl e) \<Rightarrow> (d', Inl (ColdOpenFailed e)) | (d', Inr st) \<Rightarrow> (d', Inr (Some st))))"

definition first_forwarder :: "config \<Rightarrow> start_error + forwarder option" where
  "first_forwarder cfg = (case cf_forwarders cfg of
     [] \<Rightarrow> Inr None
   | f # _ \<Rightarrow> (case build_forwarder f of Inl e \<Rightarrow> Inl e | Inr fw \<Rightarrow> Inr (Some fw)))"

text \<open>A broker that cannot be set up is logged and skipped.\<close>

definition start_subscribers :: "mqtt_lib \<Rightarrow> mqtt_broker list \<Rightarrow> mqtt_subscriber list" where
  "start_subscribers ml brokers =
     List.map_filter (\<lambda>b. case build_mqtt_subscriber ml b of Inl _ \<Rightarrow> None | Inr s \<Rightarrow> Some s) brokers"

text \<open>\<open>run\<close> in three parts: what comes before the stores are opened, and what comes after.\<close>

definition start_checks :: "host \<Rightarrow> libs \<Rightarrow> config \<Rightarrow> start_error + string \<times> string \<times> auth \<times> schema_index" where
  "start_checks h L cfg =
     and_then (ok_or (cf_mcp cfg) NoMcpSection) (\<lambda>mcp.
     and_then (ok_or (h_socket_addr h (mc_listen mcp)) (BadListen (mc_listen mcp))) (\<lambda>addr.
     and_then (case mc_transport mcp of Some t \<Rightarrow> ensure (t = ''http-streamable'') (BadTransport t) | None \<Rightarrow> Inr ()) (\<lambda>_.
     and_then (ok_or (sr_resolved (mc_auth mcp)) McpTokenUnresolved) (\<lambda>mcp_token.
     and_then (build_auth (lib_glob L) (cf_http_tokens cfg)) (\<lambda>au.
     and_then (map_err SchemaFailed
        (schema_build (lib_schema L) (build_source_descriptors cfg) (build_kind_descriptors cfg))) (\<lambda>schemas.
     Inr (addr, mcp_token, au, schemas)))))))"

definition start_tasks :: "host \<Rightarrow> libs \<Rightarrow> config \<Rightarrow> string \<times> string \<times> auth \<times> schema_index \<Rightarrow> cold_store option
    \<Rightarrow> vector_subsystem option \<Rightarrow> start_error + server_parts" where
  "start_tasks h L cfg = (\<lambda>(addr, mcp_token, au, schemas) cold vec.
     and_then (ensure (length (cf_forwarders cfg) \<le> 1) MultipleForwarders) (\<lambda>_.
     and_then (first_forwarder cfg) (\<lambda>fw.
     and_then (map_err RetentionFailed (build_retention_policies cfg)) (\<lambda>policies.
     and_then (build_peers (cf_peers cfg)) (\<lambda>peers.
     and_then (case h_bind h addr of Some e \<Rightarrow> Inl (BindFailed e) | None \<Rightarrow> Inr ()) (\<lambda>_.
       let p = pipeline_spawn au schemas cold vec (cf_forwarders cfg \<noteq> []) pipeline_config_default
       in Inr \<lparr> srv_addr = addr, srv_mcp = build_mcp_state h mcp_token cfg p cold vec policies peers,
             srv_pipeline = p, srv_forwarder = fw, srv_sweeper = map_option (\<lambda>_. sweeper_new policies \<lparr> sc_cadence = sweeper_cadence cfg \<rparr>) cold,
             srv_subscribers = start_subscribers (lib_mqtt L) (cf_mqtt cfg) \<rparr>))))))"

definition server_start :: "host \<Rightarrow> libs \<Rightarrow> config \<Rightarrow> disk \<Rightarrow> disk \<times> (start_error + server_parts)" where
  "server_start h L cfg d = (case start_checks h L cfg of
     Inl e \<Rightarrow> (d, Inl e)
   | Inr checked \<Rightarrow> (case open_cold h cfg d of
       (d1, Inl e) \<Rightarrow> (d1, Inl e)
     | (d1, Inr cold) \<Rightarrow> (case build_vector_subsystem h (lib_codec L) cfg d1 of
         (d2, Inl e) \<Rightarrow> (d2, Inl (VectorOpenFailed e))
       | (d2, Inr vec) \<Rightarrow> (d2, start_tasks h L cfg checked cold vec))))"

section \<open>Facts\<close>

lemma and_then_Inr: "and_then x f = Inr y \<longleftrightarrow> (\<exists>z. x = Inr z \<and> f z = Inr y)"
  by (simp add: and_then_def split: sum.split)

lemma and_then_Inl: "and_then x f = Inl e \<longleftrightarrow> x = Inl e \<or> (\<exists>z. x = Inr z \<and> f z = Inl e)"
  by (auto simp: and_then_def split: sum.split)

lemma is_ok_iff: "is_ok x \<longleftrightarrow> (\<exists>y. x = Inr y)"
  by (cases x) simp_all

lemma is_ok_and_then: "is_ok (and_then x f) \<longleftrightarrow> (\<exists>y. x = Inr y \<and> is_ok (f y))"
  by (cases x) (simp_all add: and_then_def)

lemma map_err_Inr: "map_err f x = Inr y \<longleftrightarrow> x = Inr y"
  by (cases x) (simp_all add: map_err_def)

lemma ok_or_Inr: "ok_or x e = Inr y \<longleftrightarrow> x = Some y"
  by (cases x) (simp_all add: ok_or_def)

lemma ensure_Inr: "ensure b e = Inr y \<longleftrightarrow> b"
  by (simp add: ensure_def)

lemmas start_simps = is_ok_and_then map_err_Inr ok_or_Inr ensure_Inr

text \<open>Opening the two stores of the configuration, in terms of what the disk holds.\<close>

definition same_data :: "disk \<Rightarrow> disk \<Rightarrow> bool" where
  "same_data d d' \<longleftrightarrow> (\<forall>p. stored_cold d' p = stored_cold d p \<and> stored_vectors d' p = stored_vectors d p)"

lemma same_data_refl [simp]: "same_data d d"
  by (simp add: same_data_def)

lemma same_data_trans: "same_data d d' \<Longrightarrow> same_data d' d'' \<Longrightarrow> same_data d d''"
  by (simp add: same_data_def)

lemma open_cold_cases:
  "same_data d (fst (open_cold h cfg d))
   \<and> (case cf_server cfg of
        None \<Rightarrow> snd (open_cold h cfg d) = Inr None
      | Some sv \<Rightarrow>
          if no_fault (h_open_cold h) 8
          then snd (open_cold h cfg d) = Inr (Some (stored_cold d (cold_path (sv_data_dir sv))))
          else \<not> is_ok (snd (open_cold h cfg d)))"
proof (cases "cf_server cfg")
  case (Some sv)
  obtain d' r where open': "cold_store_open (h_open_cold h) (sv_data_dir sv) d = (d', r)"
    by (cases "cold_store_open (h_open_cold h) (sv_data_dir sv) d")
  have "same_data d d'" "if no_fault (h_open_cold h) 8 then r = Inr (stored_cold d (cold_path (sv_data_dir sv))) else \<not> is_ok r"
    using cold_store_open_cases [of "h_open_cold h" "sv_data_dir sv" d, unfolded open' fst_conv snd_conv]
    by (auto simp: same_data_def stored_vectors_def)
  then show ?thesis using Some open' by (cases r) (auto simp: open_cold_def is_ok_iff split: if_split_asm)
qed (simp add: open_cold_def)

lemma is_ok_map_sum: "is_ok (map_sum id f x) = is_ok x"
  by (cases x) simp_all

lemma build_vector_subsystem_cases:
  "same_data d (fst (build_vector_subsystem h c cfg d))
   \<and> (case cf_server cfg of
        None \<Rightarrow> snd (build_vector_subsystem h c cfg d) = Inr None
      | Some sv \<Rightarrow>
          if any_embed_enabled cfg
          then (let emb = current_embedder (h_blake3 h);
                    loaded = vector_from_connection c (of_stmt (h_open_vectors h) 5) (emb_model_id emb) (emb_dim emb)
                      (stored_vectors d (vectors_path (sv_data_dir sv)))
                in if no_fault (h_open_vectors h) 5
                   then snd (build_vector_subsystem h c cfg d) = map_sum id
                     (\<lambda>idx. Some \<lparr> vs_embedder = emb, vs_index = idx, vs_selector = build_selector cfg \<rparr>) loaded
                   else \<not> is_ok (snd (build_vector_subsystem h c cfg d)))
          else snd (build_vector_subsystem h c cfg d) = Inr None)"
proof (cases "cf_server cfg")
  case (Some sv)
  let ?emb = "current_embedder (h_blake3 h)"
  obtain d' r where open': "vector_index_open (h_open_vectors h) c (sv_data_dir sv) (emb_model_id ?emb) (emb_dim ?emb) d = (d', r)"
    by (cases "vector_index_open (h_open_vectors h) c (sv_data_dir sv) (emb_model_id ?emb) (emb_dim ?emb) d")
  have "same_data d d'" "if no_fault (h_open_vectors h) 5 then r = vector_from_connection c (of_stmt (h_open_vectors h) 5)
      (emb_model_id ?emb) (emb_dim ?emb) (stored_vectors d (vectors_path (sv_data_dir sv))) else \<not> is_ok r"
    using vector_index_open_cases [of "h_open_vectors h" c "sv_data_dir sv" "emb_model_id ?emb" "emb_dim ?emb" d,
        unfolded open' fst_conv snd_conv]
    by (auto simp: same_data_def stored_cold_def)
  moreover have "build_vector_subsystem h c cfg d = (d', map_sum id
      (\<lambda>idx. Some \<lparr> vs_embedder = ?emb, vs_index = idx, vs_selector = build_selector cfg \<rparr>) r)" if "any_embed_enabled cfg"
    using Some open' that by (cases r) (simp_all add: build_vector_subsystem_def Let_def)
  moreover have "build_vector_subsystem h c cfg d = (d, Inr None)" if "\<not> any_embed_enabled cfg"
    using Some that by (simp add: build_vector_subsystem_def)
  ultimately show ?thesis using Some by (auto simp: Let_def is_ok_map_sum)
qed (simp add: build_vector_subsystem_def)

text \<open>A start changes nothing that is stored, and finds what is.\<close>

lemma server_start_disk: "same_data d (fst (server_start h L cfg d))"
proof -
  obtain d1 cold where c: "open_cold h cfg d = (d1, cold)" by (cases "open_cold h cfg d")
  obtain d2 vec where v: "build_vector_subsystem h (lib_codec L) cfg d1 = (d2, vec)"
    by (cases "build_vector_subsystem h (lib_codec L) cfg d1")
  have d1: "same_data d d1" using open_cold_cases [of d h cfg, THEN conjunct1] by (simp only: c fst_conv)
  have "same_data d1 d2"
    using build_vector_subsystem_cases [of d1 h "lib_codec L" cfg, THEN conjunct1] by (simp only: v fst_conv)
  with d1 have "same_data d d2" by (rule same_data_trans)
  with d1 show ?thesis
    by (cases "start_checks h L cfg"; cases cold; cases vec) (simp_all add: server_start_def c v)
qed

lemma server_start_Inr:
  "snd (server_start h L cfg d) = Inr parts \<longleftrightarrow> (\<exists>checked cold vec. start_checks h L cfg = Inr checked
     \<and> snd (open_cold h cfg d) = Inr cold
     \<and> snd (build_vector_subsystem h (lib_codec L) cfg (fst (open_cold h cfg d))) = Inr vec
     \<and> start_tasks h L cfg checked cold vec = Inr parts)"
  by (auto simp: server_start_def split: sum.split prod.split)

text \<open>Token table: each entry overrides earlier entries with the same token.\<close>

definition scope_of :: "glob_lib \<Rightarrow> http_token \<Rightarrow> auth_error + token_scope" where
  "scope_of gl t = token_scope_build gl (ht_name t) (ht_allow_source_ids t) (ht_allow_kinds t) (ht_rate_limit t)"

lemma build_auth_loop_lookup:
  assumes "build_auth_loop gl ts a = Inr a'"
  shows "auth_lookup a' tok = (let ms = filter (\<lambda>t. ht_resolved_token t = Some tok) ts
    in if ms = [] then auth_lookup a tok else case scope_of gl (last ms) of Inl _ \<Rightarrow> None | Inr sc \<Rightarrow> Some sc)
    \<and> list_all (\<lambda>t. is_ok (scope_of gl t)) ts"
  using assms
proof (induction ts arbitrary: a)
  case (Cons t ts)
  obtain r sc where r: "ht_resolved_token t = Some r" "scope_of gl t = Inr sc"
      and rest: "build_auth_loop gl ts (auth_insert r sc a) = Inr a'"
    using Cons.prems by (auto simp: scope_of_def split: option.split_asm sum.split_asm)
  have one: "auth_lookup (auth_insert r sc a) tok = (if r = tok then Some sc else auth_lookup a tok)"
    by (auto simp: auth_lookup_def auth_insert_def)
  show ?case using Cons.IH [OF rest] r one by (auto simp: Let_def)
qed simp

lemma build_auth_loop_ok:
  "list_all (\<lambda>t. ht_resolved_token t \<noteq> None) ts \<Longrightarrow>
     is_ok (build_auth_loop gl ts a) \<longleftrightarrow> list_all (\<lambda>t. is_ok (scope_of gl t)) ts"
  by (induction ts arbitrary: a) (auto simp: scope_of_def split: option.split sum.split)

lemma traverse_ok: "is_ok (traverse f xs) \<longleftrightarrow> list_all (\<lambda>x. is_ok (f x)) xs"
  by (induction xs) (auto split: sum.split)

text \<open>The flag of the last entry with a name that sets one.\<close>

definition last_flag :: "('a \<Rightarrow> string) \<Rightarrow> ('a \<Rightarrow> bool option) \<Rightarrow> string \<Rightarrow> 'a list \<Rightarrow> bool option" where
  "last_flag nm flag n xs = (let fs = filter (\<lambda>x. nm x = n \<and> flag x \<noteq> None) xs in if fs = [] then None else flag (last fs))"

lemma last_flag_snoc:
  "last_flag nm flag n (xs @ [x]) = (if nm x = n \<and> flag x \<noteq> None then flag x else last_flag nm flag n xs)"
  by (simp add: last_flag_def Let_def)

lemma kind_flags:
  "by_kind (fold set_kind_flag ks sel) n = (case last_flag ke_name ke_embed n ks of Some v \<Rightarrow> Some v | None \<Rightarrow> by_kind sel n)
   \<and> by_source (fold set_kind_flag ks sel) = by_source sel \<and> embed_default (fold set_kind_flag ks sel) = embed_default sel"
proof (induction ks rule: rev_induct)
  case Nil
  then show ?case by (simp add: last_flag_def)
next
  case (snoc k ks)
  then show ?case by (auto simp: last_flag_snoc set_kind_flag_def set_kind_def split: option.split)
qed

lemma source_flags:
  "by_source (fold set_source_flag ss sel) n = (case last_flag so_id so_embed n ss of Some v \<Rightarrow> Some v | None \<Rightarrow> by_source sel n)
   \<and> by_kind (fold set_source_flag ss sel) = by_kind sel \<and> embed_default (fold set_source_flag ss sel) = embed_default sel"
proof (induction ss rule: rev_induct)
  case Nil
  then show ?case by (simp add: last_flag_def)
next
  case (snoc k ks)
  then show ?case by (auto simp: last_flag_snoc set_source_flag_def set_source_def split: option.split)
qed

lemma last_flag_member: "last_flag nm flag n xs = Some v \<Longrightarrow> \<exists>x \<in> set xs. nm x = n \<and> flag x = Some v"
  using last_in_set [of "filter (\<lambda>x. nm x = n \<and> flag x \<noteq> None) xs"]
  by (auto simp: last_flag_def Let_def split: if_splits)

text \<open>A broker URL is read back as it was put together, whatever the host looks like.\<close>

lemma parse_mqtt_url_roundtrip:
  assumes "port \<le> u16_max"
  shows "parse_mqtt_url (''mqtt://'' @ host @ '':'' @ show_nat port) = Inr (host, port)"
proof -
  have scheme: "split_once_str ''://'' (''mqtt://'' @ r) = Some (''mqtt'', r)" for r
    by (simp add: split_once_str.simps)
  have digits: "CHR '':'' \<notin> set (show_nat port)"
    using show_nat_digits [of port] by (auto simp: list_all_iff is_ascii_digit_def)
  have "split_once CHR '':'' (rev (host @ '':'' @ show_nat port)) = Some (rev (show_nat port), rev host)"
    using digits by (simp add: split_once_Some)
  then have "rsplit_once CHR '':'' (host @ '':'' @ show_nat port) = Some (host, show_nat port)"
    by (simp add: rsplit_once_def)
  then show ?thesis
    unfolding parse_mqtt_url_def scheme using parse_uint_show_nat [OF assms] by simp
qed

section \<open>Durations\<close>

lemma is_ascii_digit_visible: "is_ascii_digit c \<Longrightarrow> visible c"
  by (auto simp: is_ascii_digit_def visible_def)

lemma parse_duration_number:
  assumes "u \<in> {''s'', ''m'', ''h'', ''d''}"
  shows "trim (show_nat n @ u) = show_nat n @ u" "split_digits (show_nat n @ u) = Some (show_nat n, u)" "show_nat n \<noteq> []"
proof -
  have d: "show_nat n \<noteq> []" "\<forall>c \<in> set (show_nat n). is_ascii_digit c"
    using show_nat_digits [of n] by (simp_all add: list_all_iff)
  have letter: "u \<noteq> []" "visible (last u)" "\<not> is_ascii_digit (hd u)"
    using assms by (auto simp: visible_def is_ascii_digit_def)
  show "show_nat n \<noteq> []" by (rule d(1))
  have "visible (hd (show_nat n))" using d is_ascii_digit_visible by simp
  with d(1) letter show "trim (show_nat n @ u) = show_nat n @ u" by (intro trim_visible) simp_all
  obtain c cs where u: "u = c # cs" using letter(1) by (cases u) auto
  show "split_digits (show_nat n @ u) = Some (show_nat n, u)"
    using d(2) letter(3) by (simp add: split_digits_def u takeWhile_append2 dropWhile_append2 list_all_iff)
qed

lemma parse_uint_show_nat_big: "mx < n \<Longrightarrow> parse_uint mx (show_nat n) = None"
  using show_nat_digits [of n] by (cases "show_nat n") (auto simp: parse_uint_def Let_def)

section \<open>The retention task only deletes\<close>

definition shrinks :: "cold_store \<times> vector_index option \<Rightarrow> cold_store \<times> vector_index option \<Rightarrow> bool" where
  "shrinks st st' \<longleftrightarrow> subseq (events_tbl (fst st')) (events_tbl (fst st)) \<and> latest_tbl (fst st') = latest_tbl (fst st)
     \<and> (case (snd st, snd st') of
          (None, None) \<Rightarrow> True
        | (Some v, Some v') \<Rightarrow> subseq (vectors_tbl v') (vectors_tbl v) \<and> subseq (vi_rows v') (vi_rows v)
        | _ \<Rightarrow> False)"

lemma shrinks_refl [simp]: "shrinks st st"
  by (cases "snd st") (auto simp: shrinks_def)

lemma shrinks_trans: "shrinks a b \<Longrightarrow> shrinks b c \<Longrightarrow> shrinks a c"
  by (auto simp: shrinks_def intro: subseq_order.trans split: option.split_asm)

lemma shrinks_cold_ops:
  "shrinks (st, v) (fst (cold_sweep_max_age db s k n dry st), v)"
  "shrinks (st, v) (fst (cold_sweep_max_count db s k n dry st), v)"
  "shrinks (st, v) (fst (cold_sweep_max_bytes db s k n dry st), v)"
proof -
  have "shrinks (st, v) (fst (delete_where P st), v)" for P
    by (simp add: shrinks_def delete_where_def split: option.split)
  then show "shrinks (st, v) (fst (cold_sweep_max_age db s k n dry st), v)"
    "shrinks (st, v) (fst (cold_sweep_max_count db s k n dry st), v)"
    "shrinks (st, v) (fst (cold_sweep_max_bytes db s k n dry st), v)"
    by (simp_all add: cold_sweep_max_age_def cold_sweep_max_count_def cold_sweep_max_bytes_def Let_def split_beta
        split: option.split)
qed

lemma shrinks_steps:
  "shrinks (st, v) (fst (sweep_age_step dbs now dry s k eff st), v)"
  "shrinks (st, v) (fst (sweep_count_step dbs dry s k eff st), v)"
  "shrinks (st, v) (fst (sweep_bytes_step dbs dry s k eff st), v)"
  "shrinks (st, v) (st, fst (sweep_vector_step dbs now dry s k eff v))"
proof -
  show "shrinks (st, v) (fst (sweep_age_step dbs now dry s k eff st), v)"
    using shrinks_cold_ops(1) by (simp add: sweep_age_step_def split: option.split)
  have keep: "shrinks (st, v) (fst (case x of (c', Inl e) \<Rightarrow> (c', Inl e) | (c', Inr n) \<Rightarrow> (c', Inr (n, ws))), v)"
    if "shrinks (st, v) (fst x, v)" for x :: "cold_store \<times> (cold_error + u64)" and ws :: "sweep_warning list"
    using that by (cases x) (simp split: sum.split)
  show "shrinks (st, v) (fst (sweep_count_step dbs dry s k eff st), v)"
    using keep [OF shrinks_cold_ops(2)] by (simp add: sweep_count_step_def Let_def split: option.split sum.split)
  show "shrinks (st, v) (fst (sweep_bytes_step dbs dry s k eff st), v)"
    using keep [OF shrinks_cold_ops(3)] by (simp add: sweep_bytes_step_def Let_def split: option.split sum.split)
  show "shrinks (st, v) (st, fst (sweep_vector_step dbs now dry s k eff v))"
    by (simp add: sweep_vector_step_def shrinks_def vector_sweep_max_age_def Let_def split_beta split: option.split)
qed

lemma shrinks_pair: "shrinks st (fst (sweep_pair dbs now dry s k eff st))"
proof -
  obtain c v where st: "st = (c, v)" by (cases st)
  obtain c1 r1 where s1: "sweep_age_step dbs now dry s k eff c = (c1, r1)" by (cases "sweep_age_step dbs now dry s k eff c")
  obtain c2 r2 where s2: "sweep_count_step dbs dry s k eff c1 = (c2, r2)" by (cases "sweep_count_step dbs dry s k eff c1")
  obtain c3 r3 where s3: "sweep_bytes_step dbs dry s k eff c2 = (c3, r3)" by (cases "sweep_bytes_step dbs dry s k eff c2")
  obtain v' r4 where s4: "sweep_vector_step dbs now dry s k eff v = (v', r4)" by (cases "sweep_vector_step dbs now dry s k eff v")
  have 1: "shrinks (c, v) (c1, v)" using shrinks_steps(1) [of c v dbs now dry s k eff] s1 by simp
  have 2: "shrinks (c, v) (c2, v)" using shrinks_trans [OF 1] shrinks_steps(2) [of c1 v dbs dry s k eff] s2 by simp
  have 3: "shrinks (c, v) (c3, v)" using shrinks_trans [OF 2] shrinks_steps(3) [of c2 v dbs dry s k eff] s3 by simp
  have 4: "shrinks (c, v) (c3, v')" using shrinks_trans [OF 3] shrinks_steps(4) [of c3 v dbs now dry s k eff] s4 by simp
  show ?thesis using 1 2 3 4 by (simp add: st sweep_pair_def s1 s2 s3 s4 split: sum.split prod.split)
qed

lemma shrinks_sweep: "shrinks st (fst (sweep dbs policies now dry st))"
proof -
  have "shrinks st (fst (sweep_pairs dbs policies now dry keys st rep))" for keys rep
  proof (induction keys arbitrary: st rep)
    case (Cons key keys)
    obtain s k where key: "key = (s, k)" by (cases key)
    let ?r = "sweep_pair dbs now dry s k (resolve_effective policies s k) st"
    have "shrinks st (fst (sweep_pairs dbs policies now dry keys (fst ?r) rep'))" for rep'
      by (rule shrinks_trans [OF shrinks_pair Cons.IH])
    moreover have "shrinks st (fst ?r)" by (rule shrinks_pair)
    ultimately show ?case using Cons.IH [of st] by (simp add: key Let_def split_beta split: prod.split sum.split)
  qed simp
  then show ?thesis by (simp add: sweep_def split: sum.split)
qed

text \<open>
  The retention task never adds or changes a row, and never touches the latest table, whatever fails and
  however often it runs; without policies it does nothing, and it dies at once with a cadence of zero.
\<close>

lemma sweeper_only_deletes:
  "case sweeper_run sw ticks st of
     None \<Rightarrow> sw_policies sw \<noteq> [] \<and> sw_cadence sw = 0
   | Some st' \<Rightarrow> shrinks st st'"
proof -
  have "shrinks st (fold (sweeper_tick (sw_policies sw)) ts st)" for ts
  proof (induction ts arbitrary: st)
    case (Cons t ts)
    have "shrinks st (sweeper_tick (sw_policies sw) t st)" by (cases t) (simp add: sweeper_tick_def shrinks_sweep)
    from shrinks_trans [OF this Cons.IH] show ?case by simp
  qed simp
  then show ?thesis by (simp add: sweeper_run_def)
qed

text \<open>Whether a start succeeds, part by part.\<close>

lemma start_checks_Inr:
  assumes "\<And>mcp. cf_mcp cfg = Some mcp \<Longrightarrow> \<exists>tok. sr_resolved (mc_auth mcp) = Some tok"
  shows "(\<exists>tok au sch. start_checks h L cfg = Inr (addr, tok, au, sch)) \<longleftrightarrow>
    (\<exists>mcp. cf_mcp cfg = Some mcp \<and> h_socket_addr h (mc_listen mcp) = Some addr
      \<and> mc_transport mcp \<in> {None, Some ''http-streamable''})
    \<and> is_ok (build_auth (lib_glob L) (cf_http_tokens cfg))
    \<and> is_ok (schema_build (lib_schema L) (build_source_descriptors cfg) (build_kind_descriptors cfg))"
proof -
  have transport: "(case t of Some t \<Rightarrow> ensure (t = ''http-streamable'') (BadTransport t) | None \<Rightarrow> Inr ()) = Inr u
      \<longleftrightarrow> t \<in> {None, Some ''http-streamable''}" for t u
    by (auto simp: ensure_Inr split: option.split)
  show ?thesis
    using assms unfolding start_checks_def and_then_Inr ok_or_Inr map_err_Inr transport is_ok_iff by fastforce
qed

lemma start_tasks_ok:
  "is_ok (start_tasks h L cfg (addr, tok, au, sch) cold vec) \<longleftrightarrow> length (cf_forwarders cfg) \<le> 1 \<and> is_ok (first_forwarder cfg)
     \<and> is_ok (build_retention_policies cfg) \<and> is_ok (build_peers (cf_peers cfg)) \<and> h_bind h addr = None"
proof -
  have bind: "(case h_bind h addr of Some e \<Rightarrow> Inl (BindFailed e) | None \<Rightarrow> Inr ()) = Inr u \<longleftrightarrow> h_bind h addr = None" for u
    by (simp split: option.split)
  show ?thesis
    unfolding start_tasks_def prod.case start_simps bind is_ok_iff [of "first_forwarder _"]
      is_ok_iff [of "build_retention_policies _"] is_ok_iff [of "build_peers _"]
    by (simp only: is_ok.simps Let_def) blast
qed

definition stores_open :: "host \<Rightarrow> libs \<Rightarrow> config \<Rightarrow> disk \<Rightarrow> bool" where
  "stores_open h L cfg d \<longleftrightarrow> is_ok (snd (open_cold h cfg d))
     \<and> is_ok (snd (build_vector_subsystem h (lib_codec L) cfg (fst (open_cold h cfg d))))"

lemma stores_open_eq:
  "stores_open h L cfg d \<longleftrightarrow> (case cf_server cfg of
     None \<Rightarrow> True
   | Some sv \<Rightarrow> no_fault (h_open_cold h) 8
       \<and> (any_embed_enabled cfg \<longrightarrow> no_fault (h_open_vectors h) 5
           \<and> is_ok (vector_from_connection (lib_codec L) (of_stmt (h_open_vectors h) 5)
               (emb_model_id (current_embedder (h_blake3 h))) (emb_dim (current_embedder (h_blake3 h)))
               (stored_vectors d (vectors_path (sv_data_dir sv))))))"
proof -
  have keep: "stored_vectors (fst (open_cold h cfg d)) p = stored_vectors d p" for p
    using open_cold_cases [of d h cfg] by (simp add: same_data_def)
  show ?thesis
    using open_cold_cases [of d h cfg] build_vector_subsystem_cases [of "fst (open_cold h cfg d)" h "lib_codec L" cfg]
    by (auto simp: stores_open_def keep Let_def is_ok_map_sum split: option.split_asm option.split if_split_asm)
qed

lemma server_start_ok:
  assumes "\<And>mcp. cf_mcp cfg = Some mcp \<Longrightarrow> \<exists>tok. sr_resolved (mc_auth mcp) = Some tok"
    and "is_ok (first_forwarder cfg)" and "is_ok (build_peers (cf_peers cfg))"
  shows "is_ok (snd (server_start h L cfg d)) \<longleftrightarrow>
    (\<exists>mcp addr. cf_mcp cfg = Some mcp \<and> h_socket_addr h (mc_listen mcp) = Some addr
      \<and> mc_transport mcp \<in> {None, Some ''http-streamable''} \<and> h_bind h addr = None)
    \<and> is_ok (build_auth (lib_glob L) (cf_http_tokens cfg))
    \<and> is_ok (schema_build (lib_schema L) (build_source_descriptors cfg) (build_kind_descriptors cfg))
    \<and> stores_open h L cfg d \<and> length (cf_forwarders cfg) \<le> 1 \<and> is_ok (build_retention_policies cfg)"
proof -
  have "is_ok (snd (server_start h L cfg d)) \<longleftrightarrow> (\<exists>addr. (\<exists>tok au sch. start_checks h L cfg = Inr (addr, tok, au, sch)) \<and> h_bind h addr = None)
      \<and> stores_open h L cfg d \<and> length (cf_forwarders cfg) \<le> 1 \<and> is_ok (build_retention_policies cfg)"
    using start_tasks_ok [of h L cfg] assms(2,3)
    unfolding is_ok_iff [of "snd _"] server_start_Inr stores_open_def by (simp add: is_ok_iff) metis
  then show ?thesis using start_checks_Inr [of cfg h L, OF assms(1)] by auto
qed

section \<open>Properties\<close>

text \<open>
  C10. Only configured tokens open the ingest endpoint: in the table built from the configuration a token is known
  exactly when some entry resolved to it, and then it has the name of the last such entry and allows exactly
  the pairs whose source and kind match that entry's patterns.
\<close>

theorem build_auth_exact:
  "case build_auth gl tokens of
     Inl _ \<Rightarrow> True
   | Inr a \<Rightarrow> (\<forall>tok. let ms = filter (\<lambda>t. ht_resolved_token t = Some tok) tokens
        in case auth_lookup a tok of
             None \<Rightarrow> ms = []
           | Some sc \<Rightarrow> ms \<noteq> [] \<and> ts_name sc = ht_name (last ms)
               \<and> (\<forall>s k. scope_allows gl sc s k = ((\<exists>p \<in> set (ht_allow_source_ids (last ms)). glob_match gl p s)
                    \<and> (\<exists>q \<in> set (ht_allow_kinds (last ms)). glob_match gl q k))))"
proof (cases "build_auth gl tokens")
  case (Inr a)
  then have loop: "build_auth_loop gl tokens auth_new = Inr a" by (simp add: build_auth_def)
  show ?thesis
    unfolding Inr sum.case
  proof (intro allI)
    fix tok
    let ?ms = "filter (\<lambda>t. ht_resolved_token t = Some tok) tokens"
    note look = build_auth_loop_lookup [OF loop, of tok]
    show "let ms = ?ms in case auth_lookup a tok of None \<Rightarrow> ms = []
        | Some sc \<Rightarrow> ms \<noteq> [] \<and> ts_name sc = ht_name (last ms)
            \<and> (\<forall>s k. scope_allows gl sc s k = ((\<exists>p \<in> set (ht_allow_source_ids (last ms)). glob_match gl p s)
                 \<and> (\<exists>q \<in> set (ht_allow_kinds (last ms)). glob_match gl q k)))"
    proof (cases "?ms = []")
      case True
      then show ?thesis using look by (simp add: Let_def auth_lookup_def auth_new_def)
    next
      case False
      have "last ?ms \<in> set tokens" using last_in_set [OF False] by simp
      then have "is_ok (scope_of gl (last ?ms))" using look by (simp add: list_all_iff)
      then obtain sc where sc: "scope_of gl (last ?ms) = Inr sc" by (cases "scope_of gl (last ?ms)") auto
      have "auth_lookup a tok = Some sc" using look False sc by (simp add: Let_def)
      then show ?thesis
        using False token_scope_build_Inr [OF sc [unfolded scope_of_def]]
        by (simp add: Let_def scope_allows_def glob_set_is_match_def list_ex_iff)
    qed
  qed
qed simp

text \<open>
  C11. What can keep a loaded configuration from starting: the server starts exactly when there is an MCP section whose
  address parses and can be bound, with no transport other than the supported one, every token's scope builds, the
  schemas compile, the cold store of the data directory, if there is one, opens without a failure, and so does the vector index
  when something is to be embedded, with the vectors stored there fitting the server's embedder, there is at most one forwarder, and the
  durations of the retention entries parse. In particular it never fails on a secret: the loader has resolved
  them all. Whether it starts or fails, every file of the disk stores what it stored before.
\<close>

theorem server_start_exact:
  assumes "config_load ce primary overlays = Inr cfg"
  shows "(is_ok (snd (server_start h L cfg d)) \<longleftrightarrow>
    (case cf_mcp cfg of
       None \<Rightarrow> False
     | Some mcp \<Rightarrow> (case h_socket_addr h (mc_listen mcp) of None \<Rightarrow> False | Some addr \<Rightarrow> h_bind h addr = None)
         \<and> mc_transport mcp \<in> {None, Some ''http-streamable''})
    \<and> list_all (\<lambda>t. is_ok (token_scope_build (lib_glob L) (ht_name t) (ht_allow_source_ids t) (ht_allow_kinds t)
         (ht_rate_limit t))) (cf_http_tokens cfg)
    \<and> is_ok (schema_build (lib_schema L) (build_source_descriptors cfg) (build_kind_descriptors cfg))
    \<and> (case cf_server cfg of
         None \<Rightarrow> True
       | Some sv \<Rightarrow> no_fault (h_open_cold h) 8
           \<and> (any_embed_enabled cfg \<longrightarrow> no_fault (h_open_vectors h) 5
               \<and> is_ok (vector_from_connection (lib_codec L) (of_stmt (h_open_vectors h) 5)
                   (emb_model_id (current_embedder (h_blake3 h))) (emb_dim (current_embedder (h_blake3 h)))
                   (stored_vectors d (vectors_path (sv_data_dir sv))))))
    \<and> length (cf_forwarders cfg) \<le> 1 \<and> list_all (\<lambda>r. is_ok (build_policy r)) (cf_retention cfg))
    \<and> (\<forall>p. stored_cold (fst (server_start h L cfg d)) p = stored_cold d p
        \<and> stored_vectors (fst (server_start h L cfg d)) p = stored_vectors d p)"
proof -
  note res = config_load_Inr(1) [OF assms, unfolded secrets_resolved_def]
  have auth: "is_ok (build_auth (lib_glob L) (cf_http_tokens cfg)) \<longleftrightarrow>
      list_all (\<lambda>t. is_ok (scope_of (lib_glob L) t)) (cf_http_tokens cfg)"
    using res build_auth_loop_ok by (simp add: build_auth_def)
  have fw: "is_ok (first_forwarder cfg)"
    using res by (auto simp: first_forwarder_def build_forwarder_def split: list.split)
  have peers: "is_ok (build_peers (cf_peers cfg))"
    using res by (auto simp: build_peers_def traverse_ok build_peer_def list_all_iff)
  have pol: "is_ok (build_retention_policies cfg) \<longleftrightarrow> list_all (\<lambda>r. is_ok (build_policy r)) (cf_retention cfg)"
    by (simp add: build_retention_policies_def traverse_ok)
  have token: "\<exists>tok. sr_resolved (mc_auth mcp) = Some tok" if "cf_mcp cfg = Some mcp" for mcp
    using res that by auto
  have "is_ok (snd (server_start h L cfg d)) \<longleftrightarrow>
      (\<exists>mcp addr. cf_mcp cfg = Some mcp \<and> h_socket_addr h (mc_listen mcp) = Some addr
        \<and> mc_transport mcp \<in> {None, Some ''http-streamable''} \<and> h_bind h addr = None)
      \<and> is_ok (build_auth (lib_glob L) (cf_http_tokens cfg))
      \<and> is_ok (schema_build (lib_schema L) (build_source_descriptors cfg) (build_kind_descriptors cfg))
      \<and> stores_open h L cfg d \<and> length (cf_forwarders cfg) \<le> 1 \<and> is_ok (build_retention_policies cfg)"
    using server_start_ok [OF token fw peers] .
  then show ?thesis
    using server_start_disk [of d h L cfg] unfolding auth [unfolded scope_of_def] pol stores_open_eq same_data_def
    by (cases "cf_mcp cfg") (auto split: option.split)
qed

definition demo_config :: config where
  "demo_config = config_default\<lparr> cf_mcp := Some \<lparr> mc_listen = ''127.0.0.1:7878'', mc_transport = None,
     mc_auth = \<lparr> sr_token_env = Some ''TOKEN'', sr_token_file = None, sr_resolved = None \<rparr> \<rparr> \<rparr>"

definition demo_env :: config_env where
  "demo_env = \<lparr> env_var = (\<lambda>_. Some ''secret''), read_file = (\<lambda>_. None) \<rparr>"

definition no_faults :: open_faults where
  "no_faults = \<lparr> of_dir = None, of_file = None, of_stmt = (\<lambda>_. None) \<rparr>"

lemma no_faults [simp]: "no_fault no_faults n" "of_stmt no_faults n = None"
  by (simp_all add: no_fault_def no_faults_def)

definition empty_disk :: disk where
  "empty_disk = \<lparr> dk_dirs = {}, dk_cold = Map.empty, dk_vectors = Map.empty \<rparr>"

definition demo_host :: host where
  "demo_host = \<lparr> h_socket_addr = Some, h_open_cold = no_faults, h_open_vectors = no_faults, h_blake3 = id, h_bind = (\<lambda>_. None) \<rparr>"

theorem server_start_exact_witness:
  "\<exists>cfg. config_load demo_env (Inr demo_config) [] = Inr cfg \<and> is_ok (snd (server_start demo_host demo_libs cfg empty_disk))"
proof -
  let ?cfg = "demo_config\<lparr> cf_mcp := map_option (mc_auth_update (sr_resolved_update (\<lambda>_. Some ''secret''))) (cf_mcp demo_config) \<rparr>"
  have load: "config_load demo_env (Inr demo_config) [] = Inr ?cfg"
    by (simp add: config_load_def demo_config_def config_default_def resolve_secrets_def resolve_secret_def read_one_of_def
        demo_env_def config_check_def)
  have "is_ok (snd (server_start demo_host demo_libs ?cfg empty_disk))"
    using server_start_exact [OF load, of demo_host demo_libs empty_disk]
    by (simp add: demo_config_def config_default_def demo_host_def schema_build_def build_source_descriptors_def
        build_kind_descriptors_def)
  with load show ?thesis by blast
qed

text \<open>
  The three duration parsers agree: the retention builder's is the validator's, and the cadence parser accepts exactly
  what the validator accepts, with the same value. A number with a unit is read as that many seconds, minutes,
  hours or days, unless it or the product exceeds 64 bits, which is an error and never wraps.
\<close>

lemma durations_agree:
  "parse_duration_str text = parse_duration text
   \<and> parse_cadence_or_warn text = (case parse_duration text of Inl _ \<Rightarrow> None | Inr d \<Rightarrow> Some d)
   \<and> list_all (\<lambda>(u, m). parse_duration (show_nat n @ u) =
        (if n > u64_max then Inl InvalidNumber
         else if n * m > u64_max then Inl DurationOverflow
         else Inr (from_secs (n * m)))) [(''s'', 1), (''m'', 60), (''h'', 3600), (''d'', 86400)]"
proof -
  have empty: "parse_uint u64_max [] = None" by (simp add: parse_uint_def)
  have cadence: "parse_cadence_or_warn text = (case parse_duration text of Inl _ \<Rightarrow> None | Inr d \<Rightarrow> Some d)"
    using empty by (simp add: parse_cadence_or_warn_def parse_duration_def Let_def split: option.split prod.split)
  have units: "parse_duration (show_nat n @ u) = (if n > u64_max then Inl InvalidNumber
         else if n * m > u64_max then Inl DurationOverflow else Inr (from_secs (n * m)))"
    if "(u, m) \<in> {(''s'', 1), (''m'', 60), (''h'', 3600), (''d'', 86400)}" for u m
  proof -
    have u: "u \<in> {''s'', ''m'', ''h'', ''d''}" using that by auto
    show ?thesis
      using that parse_uint_show_nat [of n u64_max] parse_uint_show_nat_big [of u64_max n]
      by (cases "n > u64_max") (auto simp: parse_duration_def Let_def parse_duration_number [OF u] checked_mul_def)
  qed
  show ?thesis using cadence units by (simp add: parse_duration_str_def parse_duration_def)
qed

text \<open>
  Which events are embedded: the flag of the source decides when an entry of that source sets one (the last such
  entry), else the flag of the bare kind, else the default of the storage section; and when the start-up code
  finds nothing enabled and leaves the vector subsystem out, there is indeed no pair the selector would accept.
\<close>

lemma embed_flag_precedence:
  "should_embed (build_selector cfg) s k =
     (case last_flag so_id so_embed s (cf_sources cfg) of
        Some v \<Rightarrow> v
      | None \<Rightarrow> (case last_flag ke_name ke_embed (bare_kind k) (cf_kinds cfg) of
          Some v \<Rightarrow> v | None \<Rightarrow> cfg_embed_default cfg))
   \<and> \<not> (should_embed (build_selector cfg) s k \<and> \<not> any_embed_enabled cfg)"
proof -
  let ?sel = "fold set_kind_flag (cf_kinds cfg) (selector_new (cfg_embed_default cfg))"
  have new: "by_kind (selector_new d) = Map.empty" "by_source (selector_new d) = Map.empty" "embed_default (selector_new d) = d" for d
    by (simp_all add: selector_new_def)
  have flag: "should_embed (build_selector cfg) s k =
     (case last_flag so_id so_embed s (cf_sources cfg) of
        Some v \<Rightarrow> v
      | None \<Rightarrow> (case last_flag ke_name ke_embed (bare_kind k) (cf_kinds cfg) of
          Some v \<Rightarrow> v | None \<Rightarrow> cfg_embed_default cfg))"
    using source_flags [of "cf_sources cfg" ?sel s] kind_flags [of "cf_kinds cfg" "selector_new (cfg_embed_default cfg)" "bare_kind k"]
    by (simp add: should_embed_def build_selector_def new split: option.split)
  moreover have "any_embed_enabled cfg" if "should_embed (build_selector cfg) s k"
    using that last_flag_member [of so_id so_embed s "cf_sources cfg" True]
      last_flag_member [of ke_name ke_embed "bare_kind k" "cf_kinds cfg" True]
    unfolding flag by (auto simp: any_embed_enabled_def list_ex_iff split: option.split_asm)
  ultimately show ?thesis by blast
qed

end
