(* ===== verification/Mqtt_Connect.thy ===== *)
theory Mqtt_Connect
  imports Server
begin

text \<open>
  \<open>MqttSubscriber::run\<close> of \<open>crates/ingest/src/mqtt/subscriber.rs\<close>: the connection options, the subscriptions and
  the event loop. \<open>AsyncClient::subscribe\<close> puts a request on the client's bounded queue and waits while it is full; only
  \<open>EventLoop::poll\<close> takes requests off it. Whether the client refuses a filter is a parameter.
\<close>

section \<open>Connection\<close>

record mqtt_options =
  mo_client_id :: string
  mo_host :: string
  mo_port :: nat
  mo_keep_alive :: duration
  mo_credentials :: "(string \<times> string) option"

definition mqtt_options_of :: "broker_config \<Rightarrow> mqtt_options" where
  "mqtt_options_of b = \<lparr> mo_client_id = bc_client_id b, mo_host = bc_host b, mo_port = bc_port b,
     mo_keep_alive = bc_keep_alive b,
     mo_credentials = (case (bc_username b, bc_password b) of (Some u, Some p) \<Rightarrow> Some (u, p) | _ \<Rightarrow> None) \<rparr>"

datatype qos = AtMostOnce | AtLeastOnce | ExactlyOnce

type_synonym subscribe_request = "string \<times> qos"

text \<open>\<open>AsyncClient::new(options, 32)\<close>.\<close>

definition request_queue :: "subscribe_request channel" where
  "request_queue = \<lparr> ch_items = [], ch_capacity = 32, ch_closed = False \<rparr>"

text \<open>
  A waiting send while nobody receives: \<open>None\<close> is waiting for ever. The result carries the error of a refused filter.
\<close>

definition client_subscribe :: "(string \<Rightarrow> string option) \<Rightarrow> string \<Rightarrow> qos \<Rightarrow> subscribe_request channel
    \<Rightarrow> (subscribe_request channel \<times> (string + unit)) option" where
  "client_subscribe refuses topic q queue = (case refuses topic of
     Some e \<Rightarrow> Some (queue, Inl e)
   | None \<Rightarrow> (case try_send (topic, q) queue of
       (queue', SendOk) \<Rightarrow> Some (queue', Inr ())
     | (queue', SendFull) \<Rightarrow> None
     | (queue', SendClosed) \<Rightarrow> Some (queue', Inl ''closed'')))"

text \<open>The loop over the subscriptions; an error is logged and the loop goes on.\<close>

fun subscribe_all :: "(string \<Rightarrow> string option) \<Rightarrow> compiled_subscription list \<Rightarrow> subscribe_request channel
    \<Rightarrow> subscribe_request channel option" where
  "subscribe_all refuses [] queue = Some queue"
| "subscribe_all refuses (s # ss) queue = (case client_subscribe refuses (cs_topic_filter s) AtLeastOnce queue of
     None \<Rightarrow> None
   | Some (queue', _) \<Rightarrow> subscribe_all refuses ss queue')"

text \<open>
  \<open>run\<close>: the requests that the event loop finds when it is first polled, and what it does with the turns; \<open>None\<close> when
  it is never polled.
\<close>

definition subscriber_run :: "(string \<Rightarrow> string option) \<Rightarrow> mqtt_lib \<Rightarrow> mqtt_subscriber \<Rightarrow> mqtt_turn list \<Rightarrow> mqtt_state
    \<Rightarrow> (mqtt_options \<times> subscribe_request list \<times> mqtt_state) option" where
  "subscriber_run refuses ml su turns st = (case subscribe_all refuses (su_subscriptions su) request_queue of
     None \<Rightarrow> None
   | Some queue \<Rightarrow> Some (mqtt_options_of (su_broker su), ch_items queue,
       drive_event_loop ml (su_subscriptions su) (bc_id (su_broker su)) turns st))"

section \<open>Facts\<close>

lemma subscribe_all_queue:
  assumes "\<not> ch_closed q" and "length (ch_items q) \<le> ch_capacity q"
  shows "subscribe_all refuses ss q =
    (let accepted = filter (\<lambda>f. refuses f = None) (map cs_topic_filter ss)
     in if length (ch_items q) + length accepted \<le> ch_capacity q
        then Some (q\<lparr> ch_items := ch_items q @ map (\<lambda>f. (f, AtLeastOnce)) accepted \<rparr>) else None)"
  using assms
proof (induction ss arbitrary: q)
  case (Cons s ss)
  show ?case
  proof (cases "refuses (cs_topic_filter s) = None \<and> length (ch_items q) < ch_capacity q")
    case True
    then show ?thesis
      using Cons.IH [of "q\<lparr> ch_items := ch_items q @ [(cs_topic_filter s, AtLeastOnce)] \<rparr>"] Cons.prems
      by (simp add: client_subscribe_def try_send_def Let_def)
  next
    case False
    then show ?thesis using Cons.IH [of q] Cons.prems
      by (auto simp: client_subscribe_def try_send_def Let_def)
  qed
qed simp

section \<open>Properties\<close>

text \<open>
  C30. When a subscriber starts: it gets to its event loop exactly when the client accepts at most 32 of its topic filters, and
  then every accepted filter has been requested once, in the configured order. With more, the task waits for ever
  for room in a queue that only the event loop would empty: it never connects, and no message of that broker arrives.
\<close>

theorem subscriber_run_starts:
  "let accepted = filter (\<lambda>f. refuses f = None) (map cs_topic_filter (su_subscriptions su))
   in subscriber_run refuses ml su turns st =
     (if length accepted \<le> 32
      then Some (mqtt_options_of (su_broker su), map (\<lambda>f. (f, AtLeastOnce)) accepted,
        drive_event_loop ml (su_subscriptions su) (bc_id (su_broker su)) turns st)
      else None)"
  using subscribe_all_queue [of request_queue refuses "su_subscriptions su"]
  by (simp add: subscriber_run_def request_queue_def Let_def)

end
