(* ===== verification/Server_Run.thy ===== *)
theory Server_Run
  imports Mqtt_Connect
begin

text \<open>
  \<open>run\<close> of \<open>crates/percept/src/server.rs\<close> from the bound listener to its return: the tasks it spawned, as one transition
  system. Each rule of \<open>serves\<close> is one turn of one party: a request, an open WebSocket, a subscriber, the
  normalizer, a writer, the forwarder, the retention sweeper, an MCP call, and the end of \<open>axum::serve\<close>. The parties
  share the pipeline's state, so a path of the system is an interleaving that the scheduler may choose. The two ends
  of \<open>run\<close> are the error of \<open>axum::serve\<close> and the end of the normalizer, which \<open>tokio\<close> lets happen once every
  sender of its channel is gone.
\<close>

section \<open>State\<close>

text \<open>
  The third-party code around the server: the libraries, the wire format of the client, the JSON-RPC layer, and which
  topic filters the MQTT client refuses.
\<close>

record world =
  wd_libs :: libs
  wd_wire :: wire
  wd_rpc :: rpc_lib
  wd_refuses :: "string \<Rightarrow> string option"

text \<open>
  The running server. \<open>ru_sessions\<close> are the open WebSocket sessions by their scope; each holds a clone of the HTTP state, as
  each subscriber task does of the sender. While \<open>ru_serving\<close>, so do the router and \<open>run\<close> itself. \<open>ru_events\<close> is a
  history that no code reads: the canonical events so far.
\<close>

record running =
  ru_pipeline :: pipeline
  ru_mcp :: mcp_state
  ru_forwarder :: "forwarder option"
  ru_sweeper :: "sweeper option"
  ru_subscribers :: "mqtt_subscriber list"
  ru_sessions :: "token_scope list"
  ru_serving :: bool
  ru_returned :: "(string + unit) option"
  ru_events :: "event list"

definition server_running :: "server_parts \<Rightarrow> running" where
  "server_running parts = \<lparr> ru_pipeline = srv_pipeline parts, ru_mcp = srv_mcp parts, ru_forwarder = srv_forwarder parts,
     ru_sweeper = srv_sweeper parts, ru_subscribers = srv_subscribers parts, ru_sessions = [], ru_serving = True,
     ru_returned = None, ru_events = [] \<rparr>"

definition bus_senders :: "running \<Rightarrow> nat" where
  "bus_senders r = (if ru_serving r then 2 else 0) + length (ru_sessions r) + length (ru_subscribers r)"

section \<open>Turns\<close>

definition pipeline_turn :: "libs \<Rightarrow> pipeline_action \<Rightarrow> running \<Rightarrow> running" where
  "pipeline_turn L a r = (case pipeline_step L a (ru_pipeline r) of
     (p, es) \<Rightarrow> r\<lparr> ru_pipeline := p, ru_events := ru_events r @ es \<rparr>)"

text \<open>The actions of the tasks that \<open>Pipeline::spawn\<close> started.\<close>

fun task_action :: "pipeline_action \<Rightarrow> bool" where
  "task_action (Normalize _) \<longleftrightarrow> True"
| "task_action (ColdRecv _) \<longleftrightarrow> True"
| "task_action (ColdTick _) \<longleftrightarrow> True"
| "task_action (EmbedRecv _) \<longleftrightarrow> True"
| "task_action (EmbedTick _) \<longleftrightarrow> True"
| "task_action _ \<longleftrightarrow> False"

text \<open>A WebSocket message; a send to a closed channel would end the session.\<close>

definition session_turn :: "libs \<Rightarrow> token_scope \<Rightarrow> ws_turn \<Rightarrow> bytes \<Rightarrow> running \<Rightarrow> running" where
  "session_turn L sc t bs r =
     (let ends = snd (snd (ws_payload (lib_http L) (lib_glob L) sc t bs (pl_http (ru_pipeline r))))
      in (pipeline_turn L (WsMessage sc t bs) r)\<lparr> ru_sessions := (if ends then remove1 sc (ru_sessions r) else ru_sessions r) \<rparr>)"

text \<open>The forwarder takes the next event off its channel.\<close>

definition forward_turn :: "wire \<Rightarrow> server \<Rightarrow> running \<Rightarrow> running" where
  "forward_turn w srv r = (case (nz_forward_tx (pl_normalizer (ru_pipeline r)), ru_forwarder r) of
     (Some ch, Some f) \<Rightarrow> (case ch_items ch of
         [] \<Rightarrow> r
       | e # _ \<Rightarrow> r\<lparr> ru_pipeline := forward_recv (ru_pipeline r), ru_forwarder := Some (forwarder_step w srv (Recv e) f) \<rparr>)
   | _ \<Rightarrow> r)"

text \<open>
  The sweeper shares the cold store with the writer and the index with the embedder task. A pass is one turn here; in
  the program commits of other tasks may fall between its statements.
\<close>

definition sweep_turn :: "faults \<Rightarrow> i64 \<Rightarrow> sweeper \<Rightarrow> pipeline \<Rightarrow> pipeline" where
  "sweep_turn dbs now sw p = (case pl_cold_writer p of
     None \<Rightarrow> p
   | Some w \<Rightarrow> (case sweeper_tick (sw_policies sw) (dbs, now) (cw_store w, map_option et_index (pl_embedder p)) of
       (cold, vector) \<Rightarrow> p\<lparr> pl_cold_writer := Some (w\<lparr> cw_store := cold \<rparr>),
          pl_embedder := (case (pl_embedder p, vector) of
             (Some t, Some idx) \<Rightarrow> Some (t\<lparr> et_index := idx \<rparr>) | _ \<Rightarrow> pl_embedder p) \<rparr>))"

text \<open>What an MCP call sees: the handles of \<open>McpState\<close> are those of the tasks.\<close>

definition mcp_view :: "mcp_state \<Rightarrow> pipeline \<Rightarrow> mcp_state" where
  "mcp_view s p = s\<lparr> mcp_hot_rings := nz_hot_rings (pl_normalizer p), mcp_cold_store := map_option cw_store (pl_cold_writer p),
     mcp_vector_index := map_option et_index (pl_embedder p), mcp_metrics := hs_metrics (pl_http p) \<rparr>"

definition mcp_turn :: "mcp_state \<Rightarrow> pipeline \<Rightarrow> pipeline" where
  "mcp_turn s p = set_http ((pl_http p)\<lparr> hs_metrics := mcp_metrics s \<rparr>) p"

section \<open>The transition system\<close>

text \<open>
  \<open>interrupt\<close> is the moment \<open>axum::serve\<close> returns after the signal: the requests in flight have been answered, and the router
  and the local HTTP state are dropped. An upgraded WebSocket is a task of its own that \<open>axum\<close> does not wait for. Nothing
  drops the sender of a subscriber: its loop has no exit.
\<close>

inductive serves :: "world \<Rightarrow> running \<Rightarrow> running \<Rightarrow> bool" for W where
  request: "\<lbrakk> ru_returned r = None; ru_serving r \<rbrakk>
    \<Longrightarrow> serves W r (pipeline_turn (wd_libs W) (HttpRequest drains now verdict headers bdy) r)"
| open_session: "\<lbrakk> ru_returned r = None; ru_serving r; auth_lookup (hs_auth (pl_http (ru_pipeline r))) token = Some sc \<rbrakk>
    \<Longrightarrow> serves W r (r\<lparr> ru_sessions := sc # ru_sessions r \<rparr>)"
| message: "\<lbrakk> ru_returned r = None; sc \<in> set (ru_sessions r) \<rbrakk>
    \<Longrightarrow> serves W r (session_turn (wd_libs W) sc t bs r)"
| close_session: "\<lbrakk> ru_returned r = None; sc \<in> set (ru_sessions r) \<rbrakk>
    \<Longrightarrow> serves W r (r\<lparr> ru_sessions := remove1 sc (ru_sessions r) \<rparr>)"
| publish: "\<lbrakk> ru_returned r = None; su \<in> set (ru_subscribers r);
      subscribe_all (wd_refuses W) (su_subscriptions su) request_queue \<noteq> None \<rbrakk>
    \<Longrightarrow> serves W r (pipeline_turn (wd_libs W)
          (MqttPublish (su_subscriptions su) (bc_id (su_broker su)) now topic payload) r)"
| task: "\<lbrakk> ru_returned r = None; task_action a \<rbrakk> \<Longrightarrow> serves W r (pipeline_turn (wd_libs W) a r)"
| forward: "ru_returned r = None \<Longrightarrow> serves W r (forward_turn (wd_wire W) srv r)"
| forward_tick: "\<lbrakk> ru_returned r = None; ru_forwarder r = Some f \<rbrakk>
    \<Longrightarrow> serves W r (r\<lparr> ru_forwarder := Some (forwarder_step (wd_wire W) srv Tick f) \<rparr>)"
| sweep: "\<lbrakk> ru_returned r = None; ru_sweeper r = Some sw; sw_policies sw \<noteq> []; sw_cadence sw \<noteq> 0 \<rbrakk>
    \<Longrightarrow> serves W r (r\<lparr> ru_pipeline := sweep_turn dbs now sw (ru_pipeline r) \<rparr>)"
| mcp_call: "\<lbrakk> ru_returned r = None; ru_serving r;
      mcp_handle (wd_rpc W) T elapsed_ms headers bdy (mcp_view (ru_mcp r) (ru_pipeline r)) = Some (s, reply) \<rbrakk>
    \<Longrightarrow> serves W r (r\<lparr> ru_pipeline := mcp_turn s (ru_pipeline r) \<rparr>)"
| interrupt: "\<lbrakk> ru_returned r = None; ru_serving r \<rbrakk> \<Longrightarrow> serves W r (r\<lparr> ru_serving := False \<rparr>)"
| serve_error: "\<lbrakk> ru_returned r = None; ru_serving r \<rbrakk> \<Longrightarrow> serves W r (r\<lparr> ru_serving := False, ru_returned := Some (Inl e) \<rparr>)"
| normalizer_ends: "\<lbrakk> ru_returned r = None; bus_senders r = 0;
      pl_normalized (ru_pipeline r) = length (bus_log (hs_bus (pl_http (ru_pipeline r)))) \<rbrakk>
    \<Longrightarrow> serves W r (r\<lparr> ru_returned := Some (Inr ()) \<rparr>)"

text \<open>The states a run may be in, and the proof principle they give.\<close>

definition reaches :: "world \<Rightarrow> running \<Rightarrow> running \<Rightarrow> bool" where
  "reaches W = (serves W)\<^sup>*\<^sup>*"

lemma reaches_refl [simp]: "reaches W r r"
  by (simp add: reaches_def)

lemma reaches_step: "reaches W r s \<Longrightarrow> serves W s t \<Longrightarrow> reaches W r t"
  by (simp add: reaches_def)

lemma reaches_trans [trans]: "reaches W r s \<Longrightarrow> reaches W s t \<Longrightarrow> reaches W r t"
  by (simp add: reaches_def)

lemma reaches_induct [consumes 1, case_names start step]:
  assumes "reaches W r s" and "P r" and "\<And>s t. reaches W r s \<Longrightarrow> P s \<Longrightarrow> serves W s t \<Longrightarrow> P t"
  shows "P s"
  using assms unfolding reaches_def by (rule rtranclp_induct)

section \<open>Frames\<close>

lemma pipeline_turn_frame [simp]:
  "ru_mcp (pipeline_turn L a r) = ru_mcp r" "ru_forwarder (pipeline_turn L a r) = ru_forwarder r"
  "ru_sweeper (pipeline_turn L a r) = ru_sweeper r" "ru_subscribers (pipeline_turn L a r) = ru_subscribers r"
  "ru_sessions (pipeline_turn L a r) = ru_sessions r" "ru_serving (pipeline_turn L a r) = ru_serving r"
  "ru_returned (pipeline_turn L a r) = ru_returned r"
  "ru_pipeline (pipeline_turn L a r) = fst (pipeline_step L a (ru_pipeline r))"
  "ru_events (pipeline_turn L a r) = ru_events r @ snd (pipeline_step L a (ru_pipeline r))"
  by (simp_all add: pipeline_turn_def split_beta)

lemma session_turn_frame [simp]:
  "ru_mcp (session_turn L sc t bs r) = ru_mcp r" "ru_forwarder (session_turn L sc t bs r) = ru_forwarder r"
  "ru_sweeper (session_turn L sc t bs r) = ru_sweeper r" "ru_subscribers (session_turn L sc t bs r) = ru_subscribers r"
  "ru_serving (session_turn L sc t bs r) = ru_serving r" "ru_returned (session_turn L sc t bs r) = ru_returned r"
  "ru_pipeline (session_turn L sc t bs r) = fst (pipeline_step L (WsMessage sc t bs) (ru_pipeline r))"
  "ru_events (session_turn L sc t bs r) = ru_events r"
  by (simp_all add: session_turn_def Let_def)

lemma session_turn_sessions: "set (ru_sessions (session_turn L sc t bs r)) \<subseteq> set (ru_sessions r)"
  by (auto simp: session_turn_def Let_def dest: subsetD [OF set_remove1_subset])

lemma forward_turn_frame [simp]:
  "ru_mcp (forward_turn w srv r) = ru_mcp r" "ru_sweeper (forward_turn w srv r) = ru_sweeper r"
  "ru_subscribers (forward_turn w srv r) = ru_subscribers r" "ru_sessions (forward_turn w srv r) = ru_sessions r"
  "ru_serving (forward_turn w srv r) = ru_serving r" "ru_returned (forward_turn w srv r) = ru_returned r"
  "ru_events (forward_turn w srv r) = ru_events r"
  by (simp_all add: forward_turn_def split: option.split list.split)

lemma forward_turn_cases:
  "forward_turn w srv r = r \<or> (\<exists>e f. ru_forwarder r = Some f
     \<and> forward_turn w srv r = r\<lparr> ru_pipeline := forward_recv (ru_pipeline r), ru_forwarder := Some (forwarder_step w srv (Recv e) f) \<rparr>)"
  by (auto simp: forward_turn_def split: option.split list.split)

lemma serves_subscribers: "serves W r s \<Longrightarrow> ru_subscribers s = ru_subscribers r"
  by (induction rule: serves.induct) simp_all

lemma reaches_subscribers: "reaches W r s \<Longrightarrow> ru_subscribers s = ru_subscribers r"
  by (induction rule: reaches_induct) (simp_all add: serves_subscribers)

text \<open>Every turn on the pipeline is one of these; the others leave it alone.\<close>

lemma serves_pipeline:
  assumes "serves W r s"
  obtains (turn) a where "ru_pipeline s = fst (pipeline_step (wd_libs W) a (ru_pipeline r))"
      "ru_events s = ru_events r @ snd (pipeline_step (wd_libs W) a (ru_pipeline r))"
    | (swept) dbs now sw where "ru_pipeline s = sweep_turn dbs now sw (ru_pipeline r)" "ru_events s = ru_events r"
    | (called) m where "ru_pipeline s = mcp_turn m (ru_pipeline r)" "ru_events s = ru_events r"
        "consumer_drops (mcp_metrics m) = consumer_drops (hs_metrics (pl_http (ru_pipeline r)))"
    | (same) "ru_pipeline s = ru_pipeline r" "ru_events s = ru_events r"
  using assms
proof cases
  case (request drains now verdict headers bdy)
  then show ?thesis using turn [of "HttpRequest drains now verdict headers bdy"] by simp
next
  case (message sc t bs)
  then show ?thesis using turn [of "WsMessage sc t bs"] by simp
next
  case (publish su now topic payload)
  then show ?thesis using turn [of "MqttPublish (su_subscriptions su) (bc_id (su_broker su)) now topic payload"] by simp
next
  case (task a)
  then show ?thesis using turn [of a] by simp
next
  case (forward srv)
  then show ?thesis using forward_turn_cases [of "wd_wire W" srv r] turn [of ForwardRecv] same by auto
next
  case (sweep sw dbs now)
  then show ?thesis using swept [of dbs now sw] by simp
next
  case (mcp_call T elapsed_ms headers bdy m reply)
  have "consumer_drops (mcp_metrics m) = consumer_drops (hs_metrics (pl_http (ru_pipeline r)))"
    using mcp_call(4) by (auto simp: mcp_handle_def mcp_view_def record_metrics_def inc_mcp_call_def Let_def
        split: option.split_asm sum.split_asm if_split_asm)
  then show ?thesis using called [of m] mcp_call(1) by simp
qed (use same in simp_all)

text \<open>What a successful start leaves behind.\<close>

lemma server_start_parts:
  assumes "snd (server_start h L cfg d) = Inr parts"
  obtains au schemas cold vec where "build_auth (lib_glob L) (cf_http_tokens cfg) = Inr au"
    and "snd (open_cold h cfg d) = Inr cold"
    and "snd (build_vector_subsystem h (lib_codec L) cfg (fst (open_cold h cfg d))) = Inr vec"
    and "srv_pipeline parts = pipeline_spawn au schemas cold vec (cf_forwarders cfg \<noteq> []) pipeline_config_default"
    and "first_forwarder cfg = Inr (srv_forwarder parts)"
    and "srv_subscribers parts = start_subscribers (lib_mqtt L) (cf_mqtt cfg)"
  using assms by (auto simp: server_start_Inr start_checks_def start_tasks_def and_then_Inr map_err_Inr Let_def)

section \<open>A server\<close>

text \<open>
  A server with one token and a data directory, for the witnesses: its pipeline is the one of \<open>Pipeline\<close>, and
  it can be reached with two events on the bus.
\<close>

definition demo_served :: config where
  "demo_served = demo_config\<lparr> cf_mcp := map_option (mc_auth_update (sr_resolved_update (\<lambda>_. Some ''secret''))) (cf_mcp demo_config),
     cf_server := Some \<lparr> sv_data_dir = ''/data'', sv_profile = ''edge'' \<rparr>,
     cf_http_tokens := [\<lparr> ht_name = ''dev'', ht_token_env = None, ht_token_file = None, ht_allow_source_ids = [''*''],
       ht_allow_kinds = [''k''], ht_rate_limit = None, ht_resolved_token = Some ''tok'' \<rparr>] \<rparr>"

definition demo_parts :: server_parts where
  "demo_parts = projr (snd (server_start demo_host demo_libs demo_served empty_disk))"

definition demo_rpc :: rpc_lib where
  "demo_rpc = \<lparr> rl_header_to_str = Some, rl_request = (\<lambda>_. Inl ''eof''), rl_call_params = (\<lambda>_. Inl ''eof''),
     rl_filter_args = (\<lambda>_. Inl ''eof''), rl_window_args = (\<lambda>_. Inl ''eof''), rl_search_args = (\<lambda>_. Inl ''eof''),
     rl_describe_value = (\<lambda>_. Null), rl_state_value = (\<lambda>_. Null), rl_event_value = (\<lambda>_. Null), rl_hit_value = (\<lambda>_. Null),
     rl_status_value = (\<lambda>_. Null), rl_tool_error_text = (\<lambda>_. []), rl_json_text = (\<lambda>_. []), rl_pkg_version = ''0.1.0'' \<rparr>"

definition demo_world :: world where
  "demo_world = \<lparr> wd_libs = demo_libs, wd_wire = demo_wire, wd_rpc = demo_rpc, wd_refuses = (\<lambda>_. None) \<rparr>"

lemma demo_served_parts:
  "cf_mcp demo_served = Some \<lparr> mc_listen = ''127.0.0.1:7878'', mc_transport = None,
     mc_auth = \<lparr> sr_token_env = Some ''TOKEN'', sr_token_file = None, sr_resolved = Some ''secret'' \<rparr> \<rparr>"
  "build_auth demo_globs (cf_http_tokens demo_served) = Inr (auth_insert ''tok'' demo_scope auth_new)"
  "schema_build sl (build_source_descriptors demo_served) (build_kind_descriptors demo_served) = Inr schema_index_default"
  "snd (open_cold demo_host demo_served empty_disk) = Inr (Some cold_open_in_memory)"
  "build_vector_subsystem h c demo_served d = (d, Inr None)" "first_forwarder demo_served = Inr None" "cf_forwarders demo_served = []"
  "build_retention_policies demo_served = Inr []" "build_peers (cf_peers demo_served) = Inr []"
  "start_subscribers ml (cf_mqtt demo_served) = []"
proof -
  have sv: "cf_server demo_served = Some \<lparr> sv_data_dir = ''/data'', sv_profile = ''edge'' \<rparr>" by (simp add: demo_served_def)
  have "no_fault (h_open_cold demo_host) 8" by (simp add: demo_host_def)
  then show "snd (open_cold demo_host demo_served empty_disk) = Inr (Some cold_open_in_memory)"
    using open_cold_cases [of empty_disk demo_host demo_served] by (simp add: sv stored_cold_def empty_disk_def)
qed (simp_all add: demo_served_def demo_config_def config_default_def build_auth_def
  token_scope_build_def auth_build_globs_def schema_build_def build_source_descriptors_def build_kind_descriptors_def
  build_vector_subsystem_def any_embed_enabled_def cfg_embed_default_def first_forwarder_def build_retention_policies_def
  build_peers_def start_subscribers_def demo_scope_def List.map_filter_def)

lemma demo_starts:
  "snd (server_start demo_host demo_libs demo_served empty_disk) = Inr demo_parts"
  "srv_pipeline demo_parts = demo_pipeline" "srv_subscribers demo_parts = []"
proof -
  have host: "lib_glob demo_libs = demo_globs" "h_socket_addr demo_host = Some" "h_bind demo_host a = None" for a
    by (simp_all add: demo_libs_def demo_host_def)
  let ?checked = "(''127.0.0.1:7878'', ''secret'', auth_insert ''tok'' demo_scope auth_new, schema_index_default)"
  have "start_checks demo_host demo_libs demo_served = Inr ?checked"
    unfolding start_checks_def demo_served_parts host and_then_def ok_or_def map_err_def by simp
  moreover have "\<exists>parts. start_tasks demo_host demo_libs demo_served ?checked (Some cold_open_in_memory) None = Inr parts
      \<and> srv_pipeline parts = demo_pipeline \<and> srv_subscribers parts = []"
    unfolding start_tasks_def demo_served_parts host and_then_def ensure_def map_err_def prod.case
    by (simp add: demo_pipeline_def Let_def)
  ultimately obtain parts where parts: "snd (server_start demo_host demo_libs demo_served empty_disk) = Inr parts"
      "srv_pipeline parts = demo_pipeline" "srv_subscribers parts = []"
    unfolding server_start_Inr demo_served_parts by auto
  then have "demo_parts = parts" by (simp add: demo_parts_def)
  then show "snd (server_start demo_host demo_libs demo_served empty_disk) = Inr demo_parts" "srv_pipeline demo_parts = demo_pipeline"
    "srv_subscribers demo_parts = []" using parts by simp_all
qed

definition demo_running :: running where
  "demo_running = (server_running demo_parts)\<lparr> ru_pipeline := demo_admitted \<rparr>"

lemma demo_reached: "reaches demo_world (server_running demo_parts) demo_running"
proof -
  define a where "a = HttpRequest (\<lambda>_. 0) 0 None [''authorization'' \<mapsto> ''Bearer tok''] []"
  have "pipeline_step demo_libs a demo_pipeline = (demo_admitted, [])"
    using demo_acts_run unfolding demo_acts_def a_def [symmetric] by (simp add: Let_def split_beta prod_eq_iff)
  then have "pipeline_turn (wd_libs demo_world) a (server_running demo_parts) = demo_running"
    by (simp add: pipeline_turn_def demo_running_def server_running_def demo_starts(2) demo_world_def)
  moreover have "serves demo_world (server_running demo_parts) (pipeline_turn (wd_libs demo_world) a (server_running demo_parts))"
    unfolding a_def by (rule request) (simp_all add: server_running_def)
  ultimately show ?thesis using reaches_step [OF reaches_refl] by simp
qed

end
