(* ===== verification/Run_Bounds.thy ===== *)
theory Run_Bounds
  imports Server_Run
begin

text \<open>
  Memory of the running server: every channel stays within its capacity, every hot ring within its count, and every batch
  buffer below its batch size, whatever producers, agents, the engine and the hub do.
\<close>

section \<open>Channels\<close>

definition channel_at :: "usize \<Rightarrow> 'a channel \<Rightarrow> bool" where
  "channel_at n ch \<longleftrightarrow> channel_ok ch \<and> ch_capacity ch = n"

lemma channel_at_try_send: "channel_at n ch \<Longrightarrow> channel_at n (fst (try_send x ch))"
  by (auto simp: channel_at_def channel_ok_def try_send_def)

lemma channel_at_offer: "channel_at n ch \<Longrightarrow> channel_at n (fst (offer consumer e ch m))"
  using channel_at_try_send [of n ch e] by (auto simp: offer_def split: prod.split send_result.split)

lemma channel_at_recv: "channel_at n ch \<Longrightarrow> length xs \<le> length (ch_items ch) \<Longrightarrow> channel_at n (ch\<lparr> ch_items := xs \<rparr>)"
  by (simp add: channel_at_def channel_ok_def)

lemma channel_at_head: "channel_at n ch \<Longrightarrow> ch_items ch = x # xs \<Longrightarrow> channel_at n (ch\<lparr> ch_items := xs \<rparr>)"
  by (simp add: channel_at_recv)

lemma channel_at_new: "channel_at n (new_channel n)"
  by (simp add: channel_at_def channel_ok_def new_channel_def)

section \<open>The normalizer\<close>

definition nz_bounded :: "pipeline_config \<Rightarrow> normalizer \<Rightarrow> bool" where
  "nz_bounded cfg nz \<longleftrightarrow> pred_option (channel_at (pc_bus_depth cfg)) (nz_cold_tx nz)
     \<and> pred_option (channel_at (pc_bus_depth cfg) \<circ> es_tx) (nz_embed_sink nz)
     \<and> pred_option (channel_at (pc_bus_depth cfg)) (nz_forward_tx nz)
     \<and> hot_inv (nz_hot_rings nz) \<and> config (nz_hot_rings nz) = pc_hot_ring cfg"

lemma nz_bounded_offers:
  assumes "nz_bounded cfg nz"
  shows "nz_bounded cfg (offer_cold e nz)" "nz_bounded cfg (offer_embed e nz)" "nz_bounded cfg (offer_forward e nz)"
  using assms channel_at_offer
  by (auto simp: nz_bounded_def offer_cold_def offer_embed_def offer_forward_def split_beta split: option.split)

lemma nz_bounded_metrics [simp]:
  "nz_bounded cfg (nz\<lparr> nz_metrics := m \<rparr>) = nz_bounded cfg nz"
  "nz_bounded cfg (nz\<lparr> nz_seq_by_source := sq \<rparr>) = nz_bounded cfg nz"
  by (simp_all add: nz_bounded_def)

lemma nz_bounded_step:
  assumes "nz_bounded cfg nz"
  shows "nz_bounded cfg (fst (normalizer_step sl t envl nz))"
proof -
  have "nz_bounded cfg (fst (normalize sl t e nz))" for e
    using assms by (simp add: normalize_def Let_def)
  moreover have "nz_bounded cfg (nz'\<lparr> nz_hot_rings := fst (hot_push now e (nz_hot_rings nz')) \<rparr>)" if "nz_bounded cfg nz'" for nz' now e
    using that hot_inv_push by (simp add: nz_bounded_def)
  ultimately show ?thesis
    by (simp add: normalizer_step_def Let_def split_beta nz_bounded_offers)
qed

section \<open>The pipeline\<close>

lemma cold_writer_step_config: "cw_config (cold_writer_step c db i w) = cw_config w"
  by (cases i) (simp_all add: cold_writer_push_def cold_writer_flush_def Let_def split_beta)

lemma embedder_step_config: "et_config (embedder_step c db i t) = et_config t"
  by (cases i) (simp_all add: embedder_push_def embedder_flush_def Let_def split_beta)

text \<open>The two writers, each with its part of the loop contract.\<close>

definition writer_bounded :: "pipeline_config \<Rightarrow> cold_writer \<Rightarrow> bool" where
  "writer_bounded cfg w \<longleftrightarrow> cw_config w = pc_cold_writer cfg \<and> length (cw_buf w) < max 1 (cw_batch_size (cw_config w))"

definition embedder_bounded :: "pipeline_config \<Rightarrow> embedder_task \<Rightarrow> bool" where
  "embedder_bounded cfg t \<longleftrightarrow> et_config t = pc_embedder cfg \<and> length (et_buf t) < max 1 (ec_batch_size (et_config t))"

lemma writer_bounded_step: "writer_bounded cfg w \<Longrightarrow> writer_bounded cfg (cold_writer_step c db i w)"
  using cw.step_bounded [of w c db i] cold_writer_step_config [of c db i w] by (auto simp: writer_bounded_def)

lemma embedder_bounded_step: "embedder_bounded cfg t \<Longrightarrow> embedder_bounded cfg (embedder_step c db i t)"
  using et.step_bounded [of t c db i] embedder_step_config [of c db i t] by (auto simp: embedder_bounded_def)

definition pl_bounded :: "pipeline_config \<Rightarrow> pipeline \<Rightarrow> bool" where
  "pl_bounded cfg p \<longleftrightarrow> channel_at (pc_bus_depth cfg) (bus_tx (hs_bus (pl_http p))) \<and> nz_bounded cfg (pl_normalizer p)
     \<and> pred_option (writer_bounded cfg) (pl_cold_writer p) \<and> pred_option (embedder_bounded cfg) (pl_embedder p)"

lemma pl_bounded_spawn: "pl_bounded cfg (pipeline_spawn au sch cold vec fwd cfg)"
proof -
  have "hot_inv (hot_rings_new (pc_hot_ring cfg))" "config (hot_rings_new (pc_hot_ring cfg)) = pc_hot_ring cfg"
    by (simp_all add: hot_inv_new) (simp add: hot_rings_new_def)
  then show ?thesis
    by (auto simp: pl_bounded_def nz_bounded_def pipeline_spawn_def normalizer_new_def cold_writer_new_def
        embedder_task_new_def writer_bounded_def embedder_bounded_def channel_at_new Let_def split: option.split)
qed

lemma pl_bounded_produced: "pl_bounded cfg p \<Longrightarrow> produced (pl_http p) s \<Longrightarrow> pl_bounded cfg (set_http s p)"
  by (auto simp: pl_bounded_def produced_def set_http_def channel_at_def)

lemma pl_bounded_normalize:
  assumes "pl_bounded cfg p"
  shows "pl_bounded cfg (fst (pipeline_normalize sl t p))"
proof -
  have "channel_at n (bus_tx (bus_recv 1 b))" if "channel_at n (bus_tx b)" for n b
    using channel_at_recv [OF that, of "drop 1 (ch_items (bus_tx b))"] by (simp add: bus_recv_def)
  then show ?thesis
    using assms nz_bounded_step
    by (auto simp: pipeline_normalize_def pl_bounded_def set_normalizer_def Let_def split_beta)
qed

lemma pl_bounded_recv:
  assumes "pl_bounded cfg p"
  shows "pl_bounded cfg (cold_recv c db p)" "pl_bounded cfg (embed_recv c db' p)" "pl_bounded cfg (forward_recv p)"
  using assms channel_at_head writer_bounded_step embedder_bounded_step
  by (auto simp: pl_bounded_def nz_bounded_def cold_recv_def embed_recv_def forward_recv_def channel_at_recv
      simp del: cold_writer_step.simps embedder_step.simps split: option.split list.split)

lemma pl_bounded_tick:
  assumes "pl_bounded cfg p"
  shows "pl_bounded cfg (p\<lparr> pl_cold_writer := map_option (cold_writer_step c db i) (pl_cold_writer p) \<rparr>)"
    "pl_bounded cfg (p\<lparr> pl_embedder := map_option (embedder_step c db' i) (pl_embedder p) \<rparr>)"
  using assms writer_bounded_step embedder_bounded_step
  by (auto simp: pl_bounded_def map_option_case split: option.split)

lemma pl_bounded_step:
  assumes "pl_bounded cfg p"
  shows "pl_bounded cfg (fst (pipeline_step L a p))"
  by (cases a) (simp_all add: assms pl_bounded_produced produced_http produced_ws produced_mqtt pl_bounded_normalize
      pl_bounded_recv pl_bounded_tick)

lemma pl_bounded_sweep: "pl_bounded cfg p \<Longrightarrow> pl_bounded cfg (sweep_turn dbs now sw p)"
  by (auto simp: pl_bounded_def sweep_turn_def writer_bounded_def embedder_bounded_def split: option.split prod.split)

lemma pl_bounded_mcp: "pl_bounded cfg (mcp_turn m p) = pl_bounded cfg p"
  by (simp add: pl_bounded_def mcp_turn_def set_http_def)

section \<open>The server\<close>

definition forwarder_bounded :: "forwarder \<Rightarrow> bool" where
  "forwarder_bounded f \<longleftrightarrow> fc_batch_size (fw_config f) = 64 \<and> length (fw_buf f) < 64"

lemma forwarder_bounded_step: "forwarder_bounded f \<Longrightarrow> forwarder_bounded (forwarder_step w srv i f)"
  using fw.step_bounded [where s = f and w = w and f = srv and i = i and peer = "fc_peer_id (fw_config f)"] forwarder_step_peer [of w srv i f]
  by (cases i) (auto simp: forwarder_bounded_def fw_view_id)

definition ru_bounded :: "pipeline_config \<Rightarrow> running \<Rightarrow> bool" where
  "ru_bounded cfg r \<longleftrightarrow> pl_bounded cfg (ru_pipeline r) \<and> pred_option forwarder_bounded (ru_forwarder r)"

lemma ru_bounded_step:
  assumes "ru_bounded cfg r" and "serves W r s"
  shows "ru_bounded cfg s"
proof -
  have "pl_bounded cfg (ru_pipeline s)"
    using assms(2) by (cases rule: serves_pipeline) 
      (use assms(1) in \<open>simp_all add: ru_bounded_def pl_bounded_step pl_bounded_sweep pl_bounded_mcp\<close>)
  moreover have "pred_option forwarder_bounded (ru_forwarder s)"
    using assms(2)
  proof cases
    case (forward srv)
    then show ?thesis using forward_turn_cases [of "wd_wire W" srv r] assms(1) forwarder_bounded_step
      by (auto simp: ru_bounded_def simp del: forwarder_step.simps)
  qed (use assms(1) forwarder_bounded_step in \<open>simp_all add: ru_bounded_def session_turn_def Let_def del: forwarder_step.simps\<close>)
  ultimately show ?thesis by (simp add: ru_bounded_def)
qed

lemma server_start_bounded:
  assumes "snd (server_start h L cfg d) = Inr parts"
  shows "ru_bounded pipeline_config_default (server_running parts)"
  using assms
proof (rule server_start_parts)
  fix au schemas cold vec
  assume p: "srv_pipeline parts = pipeline_spawn au schemas cold vec (cf_forwarders cfg \<noteq> []) pipeline_config_default"
    and f: "first_forwarder cfg = Inr (srv_forwarder parts)"
  have "pred_option forwarder_bounded (srv_forwarder parts)"
    using f by (cases "srv_forwarder parts") (auto simp: first_forwarder_def build_forwarder_def forwarder_new_def
        forwarder_bounded_def forwarder_config_default_def split: list.split_asm option.split_asm sum.split_asm)
  then show ?thesis by (simp add: ru_bounded_def server_running_def p pl_bounded_spawn)
qed

lemma reaches_bounded:
  assumes "snd (server_start h L cfg d) = Inr parts" and "reaches W (server_running parts) r"
  shows "ru_bounded pipeline_config_default r"
  using assms(2) by (induction rule: reaches_induct) (simp_all add: server_start_bounded [OF assms(1)] ru_bounded_step)

section \<open>Properties\<close>

text \<open>
  C23. The server's queues are bounded: from a successful start on, whatever arrives, however the tasks
  interleave, and even when the engine fails or the hub is away, no channel ever holds more than 4096 items, no hot ring more than 256 events, and no buffer
  a full batch: fewer than 256 events wait for the cold store, 64 for the embedder and 64 for the hub.
\<close>

theorem running_queues_bounded:
  assumes "snd (server_start h L cfg d) = Inr parts" and "reaches W (server_running parts) r"
  shows "let p = ru_pipeline r; nz = pl_normalizer p in
    length (ch_items (bus_tx (hs_bus (pl_http p)))) \<le> 4096
    \<and> pred_option (\<lambda>ch. length (ch_items ch) \<le> 4096) (nz_cold_tx nz)
    \<and> pred_option (\<lambda>sink. length (ch_items (es_tx sink)) \<le> 4096) (nz_embed_sink nz)
    \<and> pred_option (\<lambda>ch. length (ch_items ch) \<le> 4096) (nz_forward_tx nz)
    \<and> (\<forall>s k. length (hot_snapshot (nz_hot_rings nz) s k) \<le> 256)
    \<and> pred_option (\<lambda>w. length (cw_buf w) < 256) (pl_cold_writer p)
    \<and> pred_option (\<lambda>t. length (et_buf t) < 64) (pl_embedder p)
    \<and> pred_option (\<lambda>f. length (fw_buf f) < 64) (ru_forwarder r)"
proof -
  have "pc_bus_depth pipeline_config_default = 4096" "max_events (pc_hot_ring pipeline_config_default) = 256"
    "cw_batch_size (pc_cold_writer pipeline_config_default) = 256" "ec_batch_size (pc_embedder pipeline_config_default) = 64"
    by (simp_all add: pipeline_config_default_def hot_ring_config_default_def cold_writer_config_default_def embedder_config_default_def)
  then show ?thesis
    using reaches_bounded [OF assms]
    by (auto simp: ru_bounded_def pl_bounded_def nz_bounded_def channel_at_def channel_ok_def hot_inv_def writer_bounded_def
        embedder_bounded_def forwarder_bounded_def Let_def elim!: option.pred_mono_strong)
qed

theorem running_queues_bounded_witness:
  "length (ch_items (bus_tx (hs_bus (pl_http (ru_pipeline demo_running))))) \<le> 4096"
  using running_queues_bounded [OF demo_starts(1) demo_reached] by (simp add: Let_def)

end
