(* ===== verification/Run_Origin.thy ===== *)
theory Run_Origin
  imports Server_Run
begin

text \<open>
  Where the data of a running server come from. Everything that the tools of the MCP endpoint read, the hot rings, the two
  tables of the cold store and the vector index, was there at the start or is the canonical form of an envelope that some
  producer was entitled to put on the bus.
\<close>

section \<open>The bus and the canonical events\<close>

abbreviation plog :: "pipeline \<Rightarrow> ingest_envelope list" where
  "plog p \<equiv> bus_log (hs_bus (pl_http p))"

definition canon_inv :: "pipeline \<Rightarrow> event list \<Rightarrow> bool" where
  "canon_inv p es \<longleftrightarrow> pl_normalized p \<le> length (plog p) \<and> list_all2 canonical_of (take (pl_normalized p) (plog p)) es"

lemma canon_inv_length: "canon_inv p es \<Longrightarrow> length es = pl_normalized p"
  by (auto simp: canon_inv_def dest: list_all2_lengthD)

lemma canon_inv_normalize:
  assumes "canon_inv p es"
  shows "canon_inv (fst (pipeline_normalize sl t p)) (es @ snd (pipeline_normalize sl t p))"
proof (cases "pl_normalized p < length (plog p)")
  case True
  let ?x = "plog p ! pl_normalized p"
  obtain nz e where ns: "normalizer_step sl t ?x (pl_normalizer p) = (nz, e)" by (cases "normalizer_step sl t ?x (pl_normalizer p)")
  have "canonical_of ?x e" using normalizer_step_canonical [of ?x sl t "pl_normalizer p"] by (simp add: ns)
  then have "list_all2 canonical_of (take (Suc (pl_normalized p)) (plog p)) (es @ [e])"
    using assms True by (auto simp: canon_inv_def take_Suc_conv_app_nth intro: list_all2_appendI)
  then show ?thesis
    using True by (simp add: pipeline_normalize_def Let_def ns canon_inv_def set_normalizer_def Suc_le_eq)
next
  case False
  then show ?thesis using assms by (simp add: pipeline_normalize_def Let_def)
qed

lemma canon_inv_produced: "canon_inv p es \<Longrightarrow> produced (pl_http p) s \<Longrightarrow> canon_inv (set_http s p) es"
  by (auto simp: canon_inv_def produced_def set_http_def prefix_def)

lemma recv_frame [simp]:
  "pl_http (cold_recv c db p) = pl_http p" "pl_http (embed_recv c db' p) = pl_http p" "pl_http (forward_recv p) = pl_http p"
  "pl_normalized (cold_recv c db p) = pl_normalized p" "pl_normalized (embed_recv c db' p) = pl_normalized p"
  "pl_normalized (forward_recv p) = pl_normalized p"
  "nz_hot_rings (pl_normalizer (cold_recv c db p)) = nz_hot_rings (pl_normalizer p)"
  "nz_hot_rings (pl_normalizer (embed_recv c db' p)) = nz_hot_rings (pl_normalizer p)"
  "nz_hot_rings (pl_normalizer (forward_recv p)) = nz_hot_rings (pl_normalizer p)"
  by (auto simp: cold_recv_def embed_recv_def forward_recv_def split: option.split list.split)

lemma canon_inv_step:
  assumes "canon_inv p es"
  shows "canon_inv (fst (pipeline_step L a p)) (es @ snd (pipeline_step L a p))"
proof (cases a)
  case (Normalize t)
  then show ?thesis using canon_inv_normalize [OF assms] by simp
qed (use assms canon_inv_produced [OF assms] produced_http produced_ws produced_mqtt in \<open>simp_all add: canon_inv_def\<close>)

lemma turn_frame [simp]:
  "pl_http (sweep_turn dbs now sw p) = pl_http p" "pl_normalizer (sweep_turn dbs now sw p) = pl_normalizer p"
  "pl_normalized (sweep_turn dbs now sw p) = pl_normalized p" "pl_normalized (mcp_turn m p) = pl_normalized p"
  "plog (mcp_turn m p) = plog p" "pl_cold_writer (mcp_turn m p) = pl_cold_writer p"
  "pl_embedder (mcp_turn m p) = pl_embedder p"
  by (auto simp: sweep_turn_def mcp_turn_def set_http_def split: option.split prod.split)

lemma canon_inv_turns: "canon_inv (sweep_turn dbs now sw p) es = canon_inv p es" "canon_inv (mcp_turn m p) es = canon_inv p es"
  by (simp_all add: canon_inv_def)

lemma canon_inv_serves:
  assumes "canon_inv (ru_pipeline r) (ru_events r)" and "serves W r s"
  shows "canon_inv (ru_pipeline s) (ru_events s)"
  using assms(2) by (cases rule: serves_pipeline) (use assms(1) in \<open>simp_all add: canon_inv_step canon_inv_turns\<close>)

section \<open>Admission\<close>

text \<open>An envelope that the scope of a token lets in, and one that a subscription makes of a message.\<close>

definition scope_admits :: "libs \<Rightarrow> http_state \<Rightarrow> token_scope \<Rightarrow> ingest_envelope \<Rightarrow> bool" where
  "scope_admits L s sc x \<longleftrightarrow> env_token_name x = Some (ts_name sc)
     \<and> scope_allows (lib_glob L) sc (ie_source_id (env_event x)) (ie_kind (env_event x))
     \<and> approx_semantic_size (ie_semantic (env_event x)) \<le> hs_hard_cap_bytes s"

definition routes :: "libs \<Rightarrow> compiled_subscription list \<Rightarrow> string \<Rightarrow> ingest_envelope \<Rightarrow> bool" where
  "routes L subs broker x \<longleftrightarrow> env_token_name x = Some (''mqtt:'' @ broker)
     \<and> (\<exists>topic payload now. route (lib_mqtt L) subs topic payload now (Some broker) = Inr (env_event x))"

lemma scope_admits_envelope: "scope_admits L s sc (envelope_of sc e) \<longleftrightarrow> admissible (lib_glob L) sc s e"
  by (simp add: scope_admits_def envelope_of_def admissible_def)

lemma checked_batch:
  assumes "http_check_events (lib_glob L) sc now es s = (s1, None)"
  shows "list_all (scope_admits L s sc) (map (envelope_of sc) (take n es))"
  using http_check_events_verdict [of "lib_glob L" sc now es s] assms
  by (auto simp: find_None_iff list_all_iff scope_admits_envelope dest: in_set_takeD split: option.split_asm)

text \<open>What a producer's turn adds to the bus.\<close>

lemma http_log:
  obtains sc new where "bus_log (hs_bus (fst (http_ingest (lib_http L) (lib_glob L) drains now verdict headers bdy s)))
      = bus_log (hs_bus s) @ new" "list_all (scope_admits L s sc) new"
    "new \<noteq> [] \<Longrightarrow> \<exists>tok. auth_lookup (hs_auth s) tok = Some sc"
proof -
  let ?r = "http_ingest (lib_http L) (lib_glob L) drains now verdict headers bdy s"
  show thesis
  proof (cases "\<exists>sc payload s1. http_authenticate (lib_http L) (hs_auth s) headers = Inr sc
      \<and> payload_from_slice (lib_http L) bdy = Inr payload \<and> into_events payload \<noteq> []
      \<and> http_check_events (lib_glob L) sc now (into_events payload) s = (s1, None) \<and> check_rate sc verdict = None")
    case True
    then obtain sc payload s1 where ok: "http_authenticate (lib_http L) (hs_auth s) headers = Inr sc"
      "payload_from_slice (lib_http L) bdy = Inr payload" "into_events payload \<noteq> []"
      "http_check_events (lib_glob L) sc now (into_events payload) s = (s1, None)" "check_rate sc verdict = None"
      by blast
    have "\<exists>tok. auth_lookup (hs_auth s) tok = Some sc"
      using ok(1) by (auto simp: http_authenticate_def split: option.split_asm)
    moreover obtain s' resp where send: "http_send_events drains sc now (into_events payload) 0 s1 = (s', resp)"
      by (cases "http_send_events drains sc now (into_events payload) 0 s1")
    moreover have "?r = (s', resp)" using ok send by (simp add: http_ingest_def Let_def)
    moreover have "hs_bus s1 = hs_bus s" using http_check_events_state [OF ok(4)] by simp
    moreover obtain n where "bus_log (hs_bus s') = bus_log (hs_bus s1) @ map (envelope_of sc) (take n (into_events payload))"
      by (rule http_send_events_prefix [OF send])
    ultimately show thesis
      using that [of "map (envelope_of sc) (take n (into_events payload))" sc] checked_batch [OF ok(4), of n] by auto
  next
    case False
    then have "hs_bus (fst ?r) = hs_bus s"
      using http_check_events_state
      by (auto simp: http_ingest_def Let_def split: sum.split option.split prod.split)
    then show thesis using that [of "[]"] by simp
  qed
qed

lemma ws_log:
  obtains new where "bus_log (hs_bus (fst (ws_payload (lib_http L) (lib_glob L) sc t bs s))) = bus_log (hs_bus s) @ new"
    "list_all (scope_admits L s sc) new"
proof -
  let ?r = "ws_payload (lib_http L) (lib_glob L) sc t bs s"
  have checks: "hs_bus w = hs_bus s" if "ws_check_events (lib_glob L) sc now es s = (w, v)" for now es w v
  proof -
    obtain h v' where h: "http_check_events (lib_glob L) sc now es s = (h, v')"
      by (cases "http_check_events (lib_glob L) sc now es s")
    show ?thesis using checks_agree [OF soft_eq_refl h that] http_check_events_state [OF h] by (simp add: soft_eq_iff)
  qed
  show thesis
  proof (cases "\<exists>payload w. payload_from_slice (lib_http L) bs = Inr payload \<and> into_events payload \<noteq> []
      \<and> ws_check_events (lib_glob L) sc (wt_now t) (into_events payload) s = (w, None) \<and> check_rate sc (wt_verdict t) = None")
    case True
    then obtain payload w where ok: "payload_from_slice (lib_http L) bs = Inr payload" "into_events payload \<noteq> []"
      "ws_check_events (lib_glob L) sc (wt_now t) (into_events payload) s = (w, None)" "check_rate sc (wt_verdict t) = None"
      by blast
    let ?es = "into_events payload"
    obtain h v where h: "http_check_events (lib_glob L) sc (wt_now t) ?es s = (h, v)"
      by (cases "http_check_events (lib_glob L) sc (wt_now t) ?es s")
    have agree: "soft_eq h w" "v = None" using checks_agree [OF soft_eq_refl h ok(3)] by simp_all
    obtain h2 resp where h2: "http_send_events (wt_drains t) sc (wt_now t) ?es 0 h = (h2, resp)"
      by (cases "http_send_events (wt_drains t) sc (wt_now t) ?es 0 h")
    obtain w2 outs m ends where w2: "ws_send_events (wt_drains t) sc (wt_now t) ?es 0 w = (w2, outs, m, ends)"
      by (cases "ws_send_events (wt_drains t) sc (wt_now t) ?es 0 w")
    have bus: "hs_bus w2 = hs_bus h2" "hs_bus h = hs_bus s"
      using sends_agree [OF agree(1) h2 w2] http_check_events_state [OF h] by (simp_all add: soft_eq_iff)
    obtain n where n: "bus_log (hs_bus h2) = bus_log (hs_bus h) @ map (envelope_of sc) (take n ?es)"
      by (rule http_send_events_prefix [OF h2])
    have "hs_bus (fst ?r) = hs_bus w2" using ok w2 by (cases ends) (simp_all add: ws_payload_def Let_def)
    then show thesis
      using that [of "map (envelope_of sc) (take n ?es)"] checked_batch [OF h [unfolded agree(2)], of n] n bus by simp
  next
    case False
    then have "hs_bus (fst ?r) = hs_bus s"
      using checks by (auto simp: ws_payload_def Let_def split: sum.split option.split prod.split)
    then show thesis using that [of "[]"] by simp
  qed
qed

lemma mqtt_log:
  obtains new where "bus_log (hs_bus (mqtt_publish (lib_mqtt L) subs broker now topic payload s)) = bus_log (hs_bus s) @ new"
    "list_all (routes L subs broker) new"
proof (cases "route (lib_mqtt L) subs topic payload now (Some broker)")
  case (Inl e)
  then show thesis using that [of "[]"]
    by (auto simp: mqtt_publish_def handle_publish_def Let_def bus_log_def split: route_error.split)
next
  case (Inr e)
  let ?x = "\<lparr> env_event = e, env_token_name = Some (''mqtt:'' @ broker) \<rparr>"
  have x: "routes L subs broker ?x" using Inr by (auto simp: routes_def)
  have "bus_log (hs_bus (mqtt_publish (lib_mqtt L) subs broker now topic payload s)) \<in> {bus_log (hs_bus s), bus_log (hs_bus s) @ [?x]}"
    using Inr by (simp add: mqtt_publish_def handle_publish_def Let_def bus_log_def try_send_def)
  then show thesis using that [of "[]"] that [of "[?x]"] x by auto
qed

text \<open>The envelopes a producer is entitled to, given the state the server started with and its subscribers.\<close>

definition admitted :: "libs \<Rightarrow> http_state \<Rightarrow> mqtt_subscriber list \<Rightarrow> ingest_envelope \<Rightarrow> bool" where
  "admitted L s subs x \<longleftrightarrow> (\<exists>tok sc. auth_lookup (hs_auth s) tok = Some sc \<and> scope_admits L s sc x)
     \<or> (\<exists>su \<in> set subs. routes L (su_subscriptions su) (bc_id (su_broker su)) x)"

definition entry_inv :: "world \<Rightarrow> http_state \<Rightarrow> mqtt_subscriber list \<Rightarrow> running \<Rightarrow> bool" where
  "entry_inv W s0 subs r \<longleftrightarrow> ru_subscribers r = subs \<and> hs_auth (pl_http (ru_pipeline r)) = hs_auth s0
     \<and> hs_hard_cap_bytes (pl_http (ru_pipeline r)) = hs_hard_cap_bytes s0
     \<and> (\<forall>sc \<in> set (ru_sessions r). \<exists>tok. auth_lookup (hs_auth s0) tok = Some sc)
     \<and> list_all (admitted (wd_libs W) s0 subs) (plog (ru_pipeline r))"

lemma scope_admits_cong: "hs_hard_cap_bytes s = hs_hard_cap_bytes s' \<Longrightarrow> scope_admits L s sc x = scope_admits L s' sc x"
  by (simp add: scope_admits_def)

lemma set_http_frame [simp]:
  "pl_http (set_http s p) = s" "pl_normalized (set_http s p) = pl_normalized p" "pl_cold_writer (set_http s p) = pl_cold_writer p"
  "pl_embedder (set_http s p) = pl_embedder p" "nz_hot_rings (pl_normalizer (set_http s p)) = nz_hot_rings (pl_normalizer p)"
  by (simp_all add: set_http_def)

lemma task_http:
  assumes "task_action a \<or> a = ForwardRecv"
  shows "plog (fst (pipeline_step L a p)) = plog p" "hs_auth (pl_http (fst (pipeline_step L a p))) = hs_auth (pl_http p)"
    "hs_hard_cap_bytes (pl_http (fst (pipeline_step L a p))) = hs_hard_cap_bytes (pl_http p)"
  using assms by (cases a; auto simp: pipeline_normalize_def set_normalizer_def Let_def split: prod.split)+

text \<open>A producer's turn keeps the invariant when what it adds is admitted.\<close>

lemma entry_inv_produced:
  assumes "entry_inv W s0 subs r" and "produced (pl_http (ru_pipeline r)) s" and "bus_log (hs_bus s) = plog (ru_pipeline r) @ new"
    and "list_all (admitted (wd_libs W) s0 subs) new" and "ru_pipeline r' = set_http s (ru_pipeline r)"
    and "ru_subscribers r' = ru_subscribers r" and "set (ru_sessions r') \<subseteq> set (ru_sessions r)"
  shows "entry_inv W s0 subs r'"
  using assms by (auto simp: entry_inv_def produced_def)

lemma entry_inv_request:
  assumes inv: "entry_inv W s0 subs r"
  shows "entry_inv W s0 subs (pipeline_turn (wd_libs W) (HttpRequest drains now verdict headers bdy) r)"
proof -
  let ?s = "pl_http (ru_pipeline r)" and ?L = "wd_libs W"
  obtain sc new where new: "bus_log (hs_bus (fst (http_ingest (lib_http ?L) (lib_glob ?L) drains now verdict headers bdy ?s)))
      = bus_log (hs_bus ?s) @ new" "list_all (scope_admits ?L ?s sc) new"
    "new \<noteq> [] \<Longrightarrow> \<exists>tok. auth_lookup (hs_auth ?s) tok = Some sc"
    by (rule http_log [where L = ?L and drains = drains and now = now and verdict = verdict and headers = headers and bdy = bdy
        and s = ?s]) blast
  have eq: "scope_admits ?L ?s sc x = scope_admits ?L s0 sc x" for x
    using inv by (intro scope_admits_cong) (simp add: entry_inv_def)
  have "list_all (admitted ?L s0 subs) new"
    using new(2,3) inv by (cases "new = []") (auto simp: list_all_iff admitted_def eq entry_inv_def)
  from entry_inv_produced [OF inv produced_http new(1) this] show ?thesis by simp
qed

lemma entry_inv_message:
  assumes inv: "entry_inv W s0 subs r" and sc: "sc \<in> set (ru_sessions r)"
  shows "entry_inv W s0 subs (session_turn (wd_libs W) sc t bs r)"
proof -
  let ?s = "pl_http (ru_pipeline r)" and ?L = "wd_libs W"
  obtain new where new: "bus_log (hs_bus (fst (ws_payload (lib_http ?L) (lib_glob ?L) sc t bs ?s))) = bus_log (hs_bus ?s) @ new"
    "list_all (scope_admits ?L ?s sc) new" by (rule ws_log)
  have eq: "scope_admits ?L ?s sc x = scope_admits ?L s0 sc x" for x
    using inv by (intro scope_admits_cong) (simp add: entry_inv_def)
  obtain tok where "auth_lookup (hs_auth s0) tok = Some sc" using inv sc by (auto simp: entry_inv_def)
  then have "list_all (admitted ?L s0 subs) new" using new(2) by (auto simp: list_all_iff admitted_def eq)
  from entry_inv_produced [OF inv produced_ws new(1) this] session_turn_sessions show ?thesis by simp
qed

lemma entry_inv_publish:
  assumes inv: "entry_inv W s0 subs r" and su: "su \<in> set (ru_subscribers r)"
  shows "entry_inv W s0 subs (pipeline_turn (wd_libs W)
    (MqttPublish (su_subscriptions su) (bc_id (su_broker su)) now topic payload) r)"
proof -
  let ?s = "pl_http (ru_pipeline r)" and ?L = "wd_libs W"
  obtain new where new: "bus_log (hs_bus (mqtt_publish (lib_mqtt ?L) (su_subscriptions su) (bc_id (su_broker su)) now topic payload ?s))
      = bus_log (hs_bus ?s) @ new" "list_all (routes ?L (su_subscriptions su) (bc_id (su_broker su))) new" by (rule mqtt_log)
  have "list_all (admitted ?L s0 subs) new"
    using new(2) inv su by (auto simp: list_all_iff admitted_def entry_inv_def)
  from entry_inv_produced [OF inv produced_mqtt new(1) this] show ?thesis by simp
qed

lemma entry_inv_serves:
  assumes inv: "entry_inv W s0 subs r" and "serves W r s"
  shows "entry_inv W s0 subs s"
  using assms(2)
proof cases
  case (request drains now verdict headers bdy)
  then show ?thesis using entry_inv_request [OF inv] by simp
next
  case (message sc t bs)
  then show ?thesis using entry_inv_message [OF inv] by simp
next
  case (publish su now topic payload)
  then show ?thesis using entry_inv_publish [OF inv] by simp
next
  case (task a)
  then show ?thesis using inv task_http by (simp add: entry_inv_def)
next
  case (forward srv)
  then show ?thesis using inv forward_turn_cases [of "wd_wire W" srv r] by (auto simp: entry_inv_def)
next
  case (close_session sc)
  then show ?thesis using inv by (auto simp: entry_inv_def dest: subsetD [OF set_remove1_subset])
qed (use inv in \<open>auto simp: entry_inv_def mcp_turn_def\<close>)

section \<open>What the stores hold\<close>

text \<open>A batch task keeps what it was given: a predicate on items and one on the sink that deliveries respect.\<close>

context batch_task
begin

lemma step_keeps:
  assumes "set (bufr s) \<subseteq> B" and "P (sink s)" and "set (map conv (received [i])) \<subseteq> B"
    and deliver: "\<And>b w. set b \<subseteq> B \<Longrightarrow> P w \<Longrightarrow> P (deliver f b w)"
  shows "set (bufr (step f i s)) \<subseteq> B \<and> P (sink (step f i s))"
  using assms by (cases i) (auto simp: step_recv step_tick step_closed push_buf push_sink flush_buf flush_sink intro!: deliver)

end

definition made_from :: "(event \<Rightarrow> 'r \<Rightarrow> bool) \<Rightarrow> event set \<Rightarrow> 'r set \<Rightarrow> 'r set \<Rightarrow> bool" where
  "made_from mk E R0 R \<longleftrightarrow> (\<forall>x \<in> R. x \<in> R0 \<or> (\<exists>e \<in> E. mk e x))"

lemma made_from_mono: "made_from mk E R0 R \<Longrightarrow> E \<subseteq> E' \<Longrightarrow> R' \<subseteq> R \<Longrightarrow> made_from mk E' R0 R'"
  unfolding made_from_def by blast

lemma made_from_refl: "made_from mk E R R"
  by (simp add: made_from_def)

definition cold_from :: "codec \<Rightarrow> cold_store \<Rightarrow> event set \<Rightarrow> cold_store \<Rightarrow> bool" where
  "cold_from c st0 E st \<longleftrightarrow> made_from (\<lambda>e row. event_row_of c e = Inr row) E (set (events_tbl st0)) (set (events_tbl st))
     \<and> made_from (\<lambda>e row. stored_row_of c e = Inr row) E (ran (latest_tbl st0)) (ran (latest_tbl st))"

definition vectors_from :: "codec \<Rightarrow> embedder \<Rightarrow> vector_index \<Rightarrow> event set \<Rightarrow> vector_index \<Rightarrow> bool" where
  "vectors_from c emb v0 E v \<longleftrightarrow>
     made_from (\<lambda>e m. \<exists>rec b. build_record c emb e = Some (rec, b) \<and> m = mem_row_of rec) E (set (vi_rows v0)) (set (vi_rows v))"

lemma ran_map_upd_subset: "ran (m(k \<mapsto> x)) \<subseteq> insert x (ran m)"
  by (auto simp: ran_def)

lemma cold_append_from:
  assumes "cold_from c st0 E st" and "set es \<subseteq> E"
  shows "cold_from c st0 E (fst (cold_append c f es st))"
proof (rule cold_append_keeps [where P = "cold_from c st0 E", OF assms(1)])
  fix e row st
  assume "e \<in> set es" "event_row_of c e = Inr row" "cold_from c st0 E st"
  then show "cold_from c st0 E (st\<lparr> events_tbl := insert_or_ignore row (events_tbl st) \<rparr>)"
    using assms(2) by (auto simp: cold_from_def made_from_def insert_or_ignore_def)
next
  fix e row st
  assume e: "e \<in> set es" "stored_row_of c e = Inr row" "cold_from c st0 E st"
  have "ran (upsert_latest row tbl) \<subseteq> insert row (ran tbl)" for tbl
    using ran_map_upd_subset [of tbl "row_key row" row] by (auto simp: upsert_latest_def split: option.split)
  then have "x = row \<or> x \<in> ran (latest_tbl st)" if "x \<in> ran (upsert_latest row (latest_tbl st))" for x using that by blast
  then show "cold_from c st0 E (st\<lparr> latest_tbl := upsert_latest row (latest_tbl st) \<rparr>)"
    using e assms(2) unfolding cold_from_def made_from_def by fastforce
qed

lemma commit_batch_from: "cold_from c st0 E (fst s) \<Longrightarrow> set b \<subseteq> E \<Longrightarrow> cold_from c st0 E (fst (commit_batch c db b s))"
  using cold_append_from [of c st0 E "fst s" b db]
  by (cases s) (auto simp: commit_batch_def Let_def split: prod.split sum.split)

lemma vector_append_from:
  assumes "vectors_from c emb v0 E v" and "\<forall>r \<in> set recs. \<exists>e \<in> E. \<exists>b. build_record c emb e = Some (r, b)"
  shows "vectors_from c emb v0 E (fst (vector_append c db recs v))"
  using fold_mirror_put_subset [of recs "vi_rows v"] assms
  unfolding vectors_from_def made_from_def vector_append_def by (auto split: option.split) blast+

lemma embed_batch_from:
  assumes "vectors_from c emb v0 E (fst s)" and "set b \<subseteq> E"
  shows "vectors_from c emb v0 E (fst (embed_batch c emb db b s))"
proof -
  have "\<forall>r \<in> set (map fst (build_records c emb b)). \<exists>e \<in> E. \<exists>t. build_record c emb e = Some (r, t)"
    using assms(2) by (fastforce simp: build_records_def List.map_filter_def)
  from vector_append_from [OF assms(1) this, of db] show ?thesis
    by (cases s) (auto simp: embed_batch_def Let_def split: prod.split sum.split)
qed

text \<open>The whole pipeline: everything in flight or at rest comes from the events \<open>E\<close> or was there before.\<close>

definition nz_from :: "event set \<Rightarrow> normalizer \<Rightarrow> bool" where
  "nz_from E nz \<longleftrightarrow> (\<forall>s k. set (hot_snapshot (nz_hot_rings nz) s k) \<subseteq> E)
     \<and> pred_option (\<lambda>ch. set (ch_items ch) \<subseteq> E) (nz_cold_tx nz)
     \<and> pred_option (\<lambda>sink. set (ch_items (es_tx sink)) \<subseteq> E) (nz_embed_sink nz)"

definition writer_from :: "codec \<Rightarrow> cold_store \<Rightarrow> event set \<Rightarrow> cold_writer \<Rightarrow> bool" where
  "writer_from c st0 E w \<longleftrightarrow> set (cw_buf w) \<subseteq> E \<and> cold_from c st0 E (cw_store w)"

definition embedder_from :: "codec \<Rightarrow> embedder \<Rightarrow> vector_index \<Rightarrow> event set \<Rightarrow> embedder_task \<Rightarrow> bool" where
  "embedder_from c emb v0 E t \<longleftrightarrow> et_embedder t = emb \<and> set (et_buf t) \<subseteq> E \<and> vectors_from c emb v0 E (et_index t)"

definition data_inv :: "codec \<Rightarrow> cold_store \<Rightarrow> embedder \<Rightarrow> vector_index \<Rightarrow> event set \<Rightarrow> pipeline \<Rightarrow> bool" where
  "data_inv c st0 emb v0 E p \<longleftrightarrow> nz_from E (pl_normalizer p) \<and> pred_option (writer_from c st0 E) (pl_cold_writer p)
     \<and> pred_option (embedder_from c emb v0 E) (pl_embedder p)"

lemma nz_from_mono: "nz_from E nz \<Longrightarrow> E \<subseteq> E' \<Longrightarrow> nz_from E' nz"
  unfolding nz_from_def by (auto elim!: option.pred_mono_strong)

lemma data_inv_mono:
  assumes "data_inv c st0 emb v0 E p" and "E \<subseteq> E'"
  shows "data_inv c st0 emb v0 E' p"
proof -
  have "writer_from c st0 E' w" if "writer_from c st0 E w" for w
    using that assms(2) by (auto simp: writer_from_def cold_from_def intro: made_from_mono [OF _ assms(2) subset_refl])
  moreover have "embedder_from c emb v0 E' t" if "embedder_from c emb v0 E t" for t
    using that assms(2) by (auto simp: embedder_from_def vectors_from_def intro: made_from_mono [OF _ assms(2) subset_refl])
  ultimately show ?thesis
    using assms nz_from_mono by (auto simp: data_inv_def elim!: option.pred_mono_strong)
qed

lemma writer_from_step:
  assumes "writer_from c st0 E w" and "set (received [i]) \<subseteq> E"
  shows "writer_from c st0 E (cold_writer_step c db i w)"
  using cw.step_keeps [of w E "\<lambda>s. cold_from c st0 E (fst s)" i c db] assms commit_batch_from
  by (simp add: writer_from_def cw_sink_def)

lemma embedder_from_step:
  assumes "embedder_from c emb v0 E t" and "set (received [i]) \<subseteq> E"
  shows "embedder_from c emb v0 E (embedder_step c db i t)"
  using et.step_keeps [of t E "\<lambda>s. fst s = emb \<and> vectors_from c emb v0 E (fst (snd s))" i c db] assms embed_batch_from
  by (auto simp: embedder_from_def et_sink_def et_deliver_def)

lemma nz_from_offers:
  assumes "nz_from E nz" and "e \<in> E"
  shows "nz_from E (offer_cold e nz)" "nz_from E (offer_embed e nz)" "nz_from E (offer_forward e nz)"
proof -
  have "set (ch_items (fst (offer x e ch m))) \<subseteq> E" if "set (ch_items ch) \<subseteq> E" for x ch m
    using that assms(2) by (auto simp: offer_def try_send_def)
  note offer = this [THEN subsetD]
  show "nz_from E (offer_cold e nz)"
    using assms by (cases "nz_cold_tx nz") (auto simp: nz_from_def offer_cold_def split_beta dest: offer [rotated])
  show "nz_from E (offer_embed e nz)"
    using assms by (cases "nz_embed_sink nz") (auto simp: nz_from_def offer_embed_def split_beta dest: offer [rotated])
  show "nz_from E (offer_forward e nz)"
    using assms by (cases "nz_forward_tx nz") (simp_all add: nz_from_def offer_forward_def split_beta)
qed

lemma normalize_frame [simp]:
  "nz_hot_rings (fst (normalize sl t e nz)) = nz_hot_rings nz" "nz_cold_tx (fst (normalize sl t e nz)) = nz_cold_tx nz"
  "nz_embed_sink (fst (normalize sl t e nz)) = nz_embed_sink nz"
  by (simp_all add: normalize_def Let_def)

lemma nz_from_step:
  assumes "nz_from E nz" and "snd (normalizer_step sl t envl nz) \<in> E"
  shows "nz_from E (fst (normalizer_step sl t envl nz))"
proof -
  obtain nz1 e where n: "normalize sl t (env_event envl) nz = (nz1, e)" by (cases "normalize sl t (env_event envl) nz")
  let ?nz2 = "nz1\<lparr> nz_hot_rings := fst (hot_push (st_push_ts t) e (nz_hot_rings nz1)) \<rparr>"
  have e: "e \<in> E" using assms(2) by (simp add: normalizer_step_event n)
  have push: "set (pushed cfg now xs e) \<subseteq> E" if "set xs \<subseteq> E" for cfg now xs
    using set_mono_suffix [OF pushed_suffix [of cfg now xs e]] that e by auto
  have "nz1 = fst (normalize sl t (env_event envl) nz)" by (simp add: n)
  then have "nz_from E nz1" using assms(1) by (simp add: nz_from_def)
  then have "nz_from E ?nz2" using push by (simp add: nz_from_def hot_snapshot_push)
  with e have "nz_from E (offer_forward e (offer_embed e (offer_cold e ?nz2)))" by (simp add: nz_from_offers)
  then show ?thesis by (simp add: normalizer_step_def n Let_def nz_from_def)
qed

lemma data_inv_set_http: "data_inv c st0 emb v0 E (set_http s p) = data_inv c st0 emb v0 E p"
  by (simp add: data_inv_def nz_from_def set_http_def)

lemma data_inv_mcp: "data_inv c st0 emb v0 E (mcp_turn m p) = data_inv c st0 emb v0 E p"
  by (simp add: mcp_turn_def data_inv_set_http)

lemma data_inv_normalize:
  assumes "data_inv c st0 emb v0 (E \<union> set (snd (pipeline_normalize sl t p))) p"
  shows "data_inv c st0 emb v0 (E \<union> set (snd (pipeline_normalize sl t p))) (fst (pipeline_normalize sl t p))"
proof (cases "pl_normalized p < length (plog p)")
  case True
  let ?x = "plog p ! pl_normalized p"
  obtain nz e where ns: "normalizer_step sl t ?x (pl_normalizer p) = (nz, e)" by (cases "normalizer_step sl t ?x (pl_normalizer p)")
  have "snd (pipeline_normalize sl t p) = [e]" using True by (simp add: pipeline_normalize_def Let_def ns)
  moreover from this have "nz_from (insert e E) nz"
    using nz_from_step [of "insert e E" "pl_normalizer p" sl t ?x] assms by (simp add: ns data_inv_def)
  ultimately show ?thesis
    using assms True by (simp add: pipeline_normalize_def Let_def ns data_inv_def set_normalizer_def)
next
  case False
  then show ?thesis using assms by (simp add: pipeline_normalize_def Let_def)
qed

lemma data_inv_recv:
  assumes "data_inv c st0 emb v0 E p"
  shows "data_inv c st0 emb v0 E (cold_recv c db p)" "data_inv c st0 emb v0 E (embed_recv c db' p)"
    "data_inv c st0 emb v0 E (forward_recv p)"
proof -
  show "data_inv c st0 emb v0 E (cold_recv c db p)"
    using assms writer_from_step [of c st0 E _ "Recv e" db for e]
    by (auto simp: data_inv_def nz_from_def cold_recv_def simp del: cold_writer_step.simps split: option.split list.split)
  show "data_inv c st0 emb v0 E (embed_recv c db' p)"
    using assms embedder_from_step [of c emb v0 E _ "Recv e" db' for e]
    by (auto simp: data_inv_def nz_from_def embed_recv_def simp del: embedder_step.simps split: option.split list.split)
  show "data_inv c st0 emb v0 E (forward_recv p)"
    using assms by (simp add: data_inv_def nz_from_def forward_recv_def split: option.split)
qed

lemma data_inv_tick:
  assumes "data_inv c st0 emb v0 E p"
  shows "data_inv c st0 emb v0 E (p\<lparr> pl_cold_writer := map_option (cold_writer_step c db Tick) (pl_cold_writer p) \<rparr>)"
    "data_inv c st0 emb v0 E (p\<lparr> pl_embedder := map_option (embedder_step c db' Tick) (pl_embedder p) \<rparr>)"
  using assms writer_from_step [of c st0 E _ Tick db] embedder_from_step [of c emb v0 E _ Tick db']
  by (auto simp: data_inv_def map_option_case simp del: cold_writer_step.simps embedder_step.simps split: option.split)

lemma data_inv_step:
  assumes "data_inv (lib_codec L) st0 emb v0 E p"
  shows "data_inv (lib_codec L) st0 emb v0 (E \<union> set (snd (pipeline_step L a p))) (fst (pipeline_step L a p))"
proof (cases a)
  case (Normalize t)
  then show ?thesis using data_inv_normalize [OF data_inv_mono [OF assms Un_upper1]] by simp
qed (simp_all add: assms data_inv_set_http data_inv_recv data_inv_tick)

lemma subseq_subset: "subseq xs ys \<Longrightarrow> set xs \<subseteq> set ys"
  by (auto dest: list_emb_set)

text \<open>A sweep only deletes (\<open>shrinks_sweep\<close>).\<close>

lemma data_inv_sweep:
  assumes "data_inv c st0 emb v0 E p"
  shows "data_inv c st0 emb v0 E (sweep_turn dbs now sw p)"
proof (cases "pl_cold_writer p")
  case None
  then show ?thesis using assms by (simp add: sweep_turn_def)
next
  case (Some w)
  obtain cold vector where s: "sweeper_tick (sw_policies sw) (dbs, now) (cw_store w, map_option et_index (pl_embedder p)) = (cold, vector)"
    by (cases "sweeper_tick (sw_policies sw) (dbs, now) (cw_store w, map_option et_index (pl_embedder p))")
  have sh: "shrinks (cw_store w, map_option et_index (pl_embedder p)) (cold, vector)"
    using shrinks_sweep [of "(cw_store w, map_option et_index (pl_embedder p))" dbs "sw_policies sw" now False] s
    by (simp add: sweeper_tick_def)
  have "cold_from c st0 E cold" if "cold_from c st0 E (cw_store w)"
    using that sh by (auto simp: cold_from_def shrinks_def intro: made_from_mono [OF _ subset_refl subseq_subset])
  moreover have "vectors_from c emb v0 E idx" if "vectors_from c emb v0 E (et_index t)" "pl_embedder p = Some t" "vector = Some idx" for t idx
    using that sh by (auto simp: vectors_from_def shrinks_def intro: made_from_mono [OF _ subset_refl subseq_subset])
  ultimately show ?thesis
    using assms Some by (auto simp: sweep_turn_def s data_inv_def writer_from_def embedder_from_def split: option.split)
qed

lemma data_inv_serves:
  assumes "data_inv (lib_codec (wd_libs W)) st0 emb v0 (set (ru_events r)) (ru_pipeline r)" and "serves W r s"
  shows "data_inv (lib_codec (wd_libs W)) st0 emb v0 (set (ru_events s)) (ru_pipeline s)"
  using assms(2)
  by (cases rule: serves_pipeline) (use assms(1) data_inv_step in \<open>simp_all add: data_inv_sweep data_inv_mcp\<close>)

section \<open>A run from the start\<close>

lemma stores_stay:
  assumes "serves W r s"
  shows "pl_cold_writer (ru_pipeline s) = None \<longleftrightarrow> pl_cold_writer (ru_pipeline r) = None"
    "pl_embedder (ru_pipeline s) = None \<longleftrightarrow> pl_embedder (ru_pipeline r) = None"
proof -
  have step: "(pl_cold_writer (fst (pipeline_step L a p)) = None \<longleftrightarrow> pl_cold_writer p = None)
      \<and> (pl_embedder (fst (pipeline_step L a p)) = None \<longleftrightarrow> pl_embedder p = None)" for L a p
    by (cases a) (auto simp: pipeline_normalize_def set_normalizer_def cold_recv_def embed_recv_def forward_recv_def Let_def
        split: option.split list.split prod.split)
  have "(pl_cold_writer (sweep_turn dbs now sw p) = None \<longleftrightarrow> pl_cold_writer p = None)
      \<and> (pl_embedder (sweep_turn dbs now sw p) = None \<longleftrightarrow> pl_embedder p = None)" for dbs now sw p
    by (auto simp: sweep_turn_def split: option.split prod.split)
  with assms show "pl_cold_writer (ru_pipeline s) = None \<longleftrightarrow> pl_cold_writer (ru_pipeline r) = None"
    "pl_embedder (ru_pipeline s) = None \<longleftrightarrow> pl_embedder (ru_pipeline r) = None"
    by (cases rule: serves_pipeline; simp add: step)+
qed

text \<open>The data a run may hold: what was opened, and what was admitted.\<close>

definition allowed_events :: "libs \<Rightarrow> server_parts \<Rightarrow> event set" where
  "allowed_events L parts = {e. \<exists>x. admitted L (pl_http (srv_pipeline parts)) (srv_subscribers parts) x \<and> canonical_of x e}"

lemma events_allowed:
  assumes "canon_inv p es" and "list_all (admitted L (pl_http (srv_pipeline parts)) (srv_subscribers parts)) (plog p)"
  shows "set es \<subseteq> allowed_events L parts"
proof
  fix e assume "e \<in> set es"
  then obtain x where "x \<in> set (take (pl_normalized p) (plog p))" "canonical_of x e"
    using assms(1) unfolding canon_inv_def by (metis list_all2_conv_all_nth in_set_conv_nth)
  then show "e \<in> allowed_events L parts"
    using assms(2) by (auto simp: allowed_events_def list_all_iff dest: in_set_takeD)
qed

lemma running_inv:
  assumes "snd (server_start h (wd_libs W) cfg d) = Inr parts" and "reaches W (server_running parts) r"
    and cold: "snd (open_cold h cfg d) = Inr cold"
    and vec: "snd (build_vector_subsystem h (lib_codec (wd_libs W)) cfg (fst (open_cold h cfg d))) = Inr vec"
  shows "canon_inv (ru_pipeline r) (ru_events r)
    \<and> entry_inv W (pl_http (srv_pipeline parts)) (srv_subscribers parts) r
    \<and> data_inv (lib_codec (wd_libs W)) (case cold of Some st \<Rightarrow> st | None \<Rightarrow> cold_open_in_memory)
        (case vec of Some vs \<Rightarrow> vs_embedder vs | None \<Rightarrow> emb) (case vec of Some vs \<Rightarrow> vs_index vs | None \<Rightarrow> vector_open_in_memory)
        (set (ru_events r)) (ru_pipeline r)
    \<and> (pl_cold_writer (ru_pipeline r) = None \<longleftrightarrow> cold = None) \<and> (pl_embedder (ru_pipeline r) = None \<longleftrightarrow> vec = None)"
  using assms(2)
proof (induction rule: reaches_induct)
  case start
  obtain au schemas where p: "srv_pipeline parts
      = pipeline_spawn au schemas cold vec (cf_forwarders cfg \<noteq> []) pipeline_config_default"
    by (rule server_start_parts [OF assms(1)]) (use cold vec in simp)
  show ?case
    by (auto simp: server_running_def p canon_inv_def entry_inv_def data_inv_def nz_from_def writer_from_def embedder_from_def
        cold_from_def vectors_from_def made_from_refl pipeline_spawn_def normalizer_new_def cold_writer_new_def
        embedder_task_new_def new_channel_def hot_rings_new_def hot_snapshot_def bus_log_def Let_def split: option.split)
next
  case (step s t)
  then show ?case
    using canon_inv_serves [of s W t] entry_inv_serves [of W _ _ s t] data_inv_serves [of W _ _ _ s t] stores_stay [of W s t]
    by simp
qed

text \<open>What the opened stores hold is what the disk held.\<close>

lemma opened_from_disk:
  assumes "snd (open_cold h cfg d) = Inr cold" and "snd (build_vector_subsystem h c cfg (fst (open_cold h cfg d))) = Inr vec"
  shows "cold = map_option (\<lambda>sv. stored_cold d (cold_path (sv_data_dir sv))) (cf_server cfg)"
    and "vec = Some vs \<Longrightarrow> \<exists>sv. cf_server cfg = Some sv \<and> vs_embedder vs = current_embedder (h_blake3 h)
      \<and> vector_from_connection c None (emb_model_id (vs_embedder vs)) (emb_dim (vs_embedder vs))
          (stored_vectors d (vectors_path (sv_data_dir sv))) = Inr (vs_index vs)"
proof -
  show "cold = map_option (\<lambda>sv. stored_cold d (cold_path (sv_data_dir sv))) (cf_server cfg)"
    using open_cold_cases [of d h cfg] assms(1) by (cases "cf_server cfg") (auto split: if_split_asm)
  have loaded: "vector_from_connection c db m n tbl = Inr i \<Longrightarrow> vector_from_connection c None m n tbl = Inr i" for db m n tbl i
    by (cases db) (simp_all add: vector_from_connection_def)
  assume vec: "vec = Some vs"
  have keep: "stored_vectors (fst (open_cold h cfg d)) p = stored_vectors d p" for p
    using open_cold_cases [of d h cfg] by (simp add: same_data_def)
  obtain sv where sv: "cf_server cfg = Some sv" "any_embed_enabled cfg" "no_fault (h_open_vectors h) 5"
    using build_vector_subsystem_cases [of "fst (open_cold h cfg d)" h c cfg] assms(2) vec
    by (auto simp: Let_def split: option.split_asm if_split_asm)
  let ?emb = "current_embedder (h_blake3 h)"
  obtain idx where "vector_from_connection c (of_stmt (h_open_vectors h) 5) (emb_model_id ?emb) (emb_dim ?emb)
      (stored_vectors d (vectors_path (sv_data_dir sv))) = Inr idx" "vs_embedder vs = ?emb" "vs_index vs = idx"
    using build_vector_subsystem_cases [of "fst (open_cold h cfg d)" h c cfg] assms(2) vec sv
    by (cases "vector_from_connection c (of_stmt (h_open_vectors h) 5) (emb_model_id ?emb) (emb_dim ?emb)
      (stored_vectors d (vectors_path (sv_data_dir sv)))") (auto simp: keep Let_def)
  then show "\<exists>sv. cf_server cfg = Some sv \<and> vs_embedder vs = ?emb
      \<and> vector_from_connection c None (emb_model_id (vs_embedder vs)) (emb_dim (vs_embedder vs))
          (stored_vectors d (vectors_path (sv_data_dir sv))) = Inr (vs_index vs)"
    using sv(1) loaded by auto
qed

section \<open>Properties\<close>

text \<open>
  C2. Nothing is served that was not admitted: from a successful start on, in every state the server can reach, each event of a
  hot ring, each row of the two tables of the cold store and each row of the vector index, which is all that the tools of the MCP
  endpoint read, was on the disk when the server started or is made from the canonical form of an envelope that carries the name
  of a configured token whose scope allows its source and kind, within the hard cap, or that a started subscription
  produced from a message of its broker.
\<close>

theorem served_data_admitted:
  assumes "snd (server_start h (wd_libs W) cfg d) = Inr parts" and "reaches W (server_running parts) r"
  shows "let c = lib_codec (wd_libs W); allowed = allowed_events (wd_libs W) parts; view = mcp_view (ru_mcp r) (ru_pipeline r);
      emb = current_embedder (h_blake3 h)
    in (\<forall>s k. set (hot_snapshot (mcp_hot_rings view) s k) \<subseteq> allowed)
      \<and> (\<forall>st. mcp_cold_store view = Some st \<longrightarrow> (\<exists>sv. cf_server cfg = Some sv
            \<and> cold_from c (stored_cold d (cold_path (sv_data_dir sv))) allowed st))
      \<and> (\<forall>v. mcp_vector_index view = Some v \<longrightarrow> (\<exists>sv v0. cf_server cfg = Some sv
            \<and> vector_from_connection c None (emb_model_id emb) (emb_dim emb)
                (stored_vectors d (vectors_path (sv_data_dir sv))) = Inr v0
            \<and> vectors_from c emb v0 allowed v))"
proof -
  obtain cold vec where cold: "snd (open_cold h cfg d) = Inr cold"
    and vec: "snd (build_vector_subsystem h (lib_codec (wd_libs W)) cfg (fst (open_cold h cfg d))) = Inr vec"
    by (rule server_start_parts [OF assms(1)])
  note inv = running_inv [OF assms cold vec, where emb = undefined] and disk = opened_from_disk [OF cold vec]
  have "set (ru_events r) \<subseteq> allowed_events (wd_libs W) parts"
    by (rule events_allowed [of "ru_pipeline r"]) (use inv in \<open>simp_all add: entry_inv_def\<close>)
  then have data: "data_inv (lib_codec (wd_libs W)) (case cold of Some st \<Rightarrow> st | None \<Rightarrow> cold_open_in_memory)
      (case vec of Some vs \<Rightarrow> vs_embedder vs | None \<Rightarrow> undefined) (case vec of Some vs \<Rightarrow> vs_index vs | None \<Rightarrow> vector_open_in_memory)
      (allowed_events (wd_libs W) parts) (ru_pipeline r)"
    using inv data_inv_mono by blast
  have present: "pl_cold_writer (ru_pipeline r) = None \<longleftrightarrow> cold = None" "pl_embedder (ru_pipeline r) = None \<longleftrightarrow> vec = None"
    using inv by blast+
  have "\<exists>sv. cf_server cfg = Some sv \<and> cold_from (lib_codec (wd_libs W)) (stored_cold d (cold_path (sv_data_dir sv)))
      (allowed_events (wd_libs W) parts) (cw_store w)" if "pl_cold_writer (ru_pipeline r) = Some w" for w
    using data present(1) disk(1) that by (cases "cf_server cfg") (auto simp: data_inv_def writer_from_def)
  moreover have "\<exists>sv v0. cf_server cfg = Some sv \<and> vector_from_connection (lib_codec (wd_libs W)) None
        (emb_model_id (current_embedder (h_blake3 h))) (emb_dim (current_embedder (h_blake3 h)))
        (stored_vectors d (vectors_path (sv_data_dir sv))) = Inr v0
      \<and> vectors_from (lib_codec (wd_libs W)) (current_embedder (h_blake3 h)) v0 (allowed_events (wd_libs W) parts) (et_index t)"
    if t: "pl_embedder (ru_pipeline r) = Some t" for t
  proof -
    obtain vs where vs: "vec = Some vs" using present(2) t by (cases vec) auto
    then show ?thesis using data disk(2) [OF vs] t by (auto simp: data_inv_def embedder_from_def)
  qed
  ultimately show ?thesis using data by (auto simp: mcp_view_def data_inv_def nz_from_def Let_def)
qed

theorem served_data_admitted_witness:
  "\<forall>s k. set (hot_snapshot (mcp_hot_rings (mcp_view (ru_mcp demo_running) (ru_pipeline demo_running))) s k)
     \<subseteq> allowed_events demo_libs demo_parts"
proof -
  have "wd_libs demo_world = demo_libs" by (simp add: demo_world_def)
  then show ?thesis
    using served_data_admitted [of demo_host demo_world demo_served empty_disk demo_parts demo_running] demo_starts(1) demo_reached
    by (simp add: Let_def)
qed

end
