(* ===== verification/Run_Shutdown.thy ===== *)
theory Run_Shutdown
  imports Run_Origin
begin

text \<open>
  The end of \<open>run\<close> in \<open>crates/percept/src/server.rs\<close>: after \<open>axum::serve\<close> it drops its own sender and waits for the
  normalizer, which ends when every sender is gone and the channel is empty.
\<close>

section \<open>Waiting for the senders\<close>

text \<open>Once \<open>run\<close> has returned without an error, nobody can send any more, and everything sent has been normalized.\<close>

definition end_inv :: "running \<Rightarrow> bool" where
  "end_inv r \<longleftrightarrow> ru_returned r = Some (Inr ()) \<longrightarrow> bus_senders r = 0 \<and> pl_normalized (ru_pipeline r) = length (plog (ru_pipeline r))"

lemma serves_alive: "serves W r s \<Longrightarrow> ru_returned r = None"
  by (induction rule: serves.induct) simp_all

lemma end_inv_serves: "serves W r s \<Longrightarrow> end_inv s"
  by (cases rule: serves.cases) (auto simp: end_inv_def bus_senders_def)

lemma reaches_end_inv:
  assumes "reaches W (server_running parts) r"
  shows "end_inv r"
  using assms
proof (induction rule: reaches_induct)
  case start
  show ?case by (simp add: end_inv_def server_running_def)
qed (simp add: end_inv_serves)

section \<open>Winding down\<close>

text \<open>What a wind-down that only closes sessions and normalizes leaves alone.\<close>

definition undisturbed :: "running \<Rightarrow> running \<Rightarrow> bool" where
  "undisturbed r s \<longleftrightarrow> plog (ru_pipeline s) = plog (ru_pipeline r)
     \<and> pl_cold_writer (ru_pipeline s) = pl_cold_writer (ru_pipeline r) \<and> pl_embedder (ru_pipeline s) = pl_embedder (ru_pipeline r)
     \<and> ru_subscribers s = ru_subscribers r"

lemma undisturbed_trans: "undisturbed r s \<Longrightarrow> undisturbed s t \<Longrightarrow> undisturbed r t"
  by (simp add: undisturbed_def)

text \<open>The sessions close one by one.\<close>

lemma close_sessions:
  assumes "ru_returned r = None"
  shows "reaches W r (r\<lparr> ru_sessions := [] \<rparr>)"
  using assms
proof (induction "ru_sessions r" arbitrary: r)
  case Nil
  then have "r\<lparr> ru_sessions := [] \<rparr> = r" by (cases r) simp
  then show ?case by simp
next
  case (Cons sc scs)
  let ?s = "r\<lparr> ru_sessions := scs \<rparr>"
  have "serves W r (r\<lparr> ru_sessions := remove1 sc (ru_sessions r) \<rparr>)"
    by (rule close_session) (simp_all add: Cons.prems Cons.hyps(2) [symmetric])
  then have "serves W r ?s" by (simp add: Cons.hyps(2) [symmetric])
  moreover have "reaches W ?s (?s\<lparr> ru_sessions := [] \<rparr>)" by (rule Cons.hyps(1)) (simp_all add: Cons.prems)
  ultimately show ?case using reaches_trans [OF reaches_step [OF reaches_refl]] by simp
qed

text \<open>The normalizer handles what is left on the bus.\<close>

lemma normalize_turn:
  assumes "pl_normalized (ru_pipeline r) < length (plog (ru_pipeline r))"
  shows "undisturbed r (pipeline_turn L (Normalize t) r)"
    "pl_normalized (ru_pipeline (pipeline_turn L (Normalize t) r)) = pl_normalized (ru_pipeline r) + 1"
  using assms by (auto simp: undisturbed_def pipeline_normalize_def set_normalizer_def Let_def split: prod.split)

lemma normalize_rest:
  assumes "ru_returned r = None" and "pl_normalized (ru_pipeline r) \<le> length (plog (ru_pipeline r))"
  shows "\<exists>s. reaches W r s \<and> undisturbed r s \<and> ru_returned s = None \<and> ru_serving s = ru_serving r
    \<and> ru_sessions s = ru_sessions r \<and> pl_normalized (ru_pipeline s) = length (plog (ru_pipeline s))"
  using assms
proof (induction "length (plog (ru_pipeline r)) - pl_normalized (ru_pipeline r)" arbitrary: r)
  case 0
  then show ?case by (intro exI [of _ r]) (simp add: undisturbed_def)
next
  case (Suc n)
  then have more: "pl_normalized (ru_pipeline r) < length (plog (ru_pipeline r))" by simp
  define s where "s = pipeline_turn (wd_libs W) (Normalize (demo_stamp 0)) r"
  have "serves W r s" unfolding s_def by (rule task) (simp_all add: Suc.prems)
  note s = normalize_turn [OF more, of "wd_libs W" "demo_stamp 0", folded s_def]
  have len: "plog (ru_pipeline s) = plog (ru_pipeline r)" using s(1) by (simp add: undisturbed_def)
  have "\<exists>u. reaches W s u \<and> undisturbed s u \<and> ru_returned u = None \<and> ru_serving u = ru_serving s
    \<and> ru_sessions u = ru_sessions s \<and> pl_normalized (ru_pipeline u) = length (plog (ru_pipeline u))"
    by (rule Suc.hyps(1)) (use Suc.hyps(2) Suc.prems s(2) more len in \<open>simp_all add: s_def\<close>)
  moreover have "ru_serving s = ru_serving r" "ru_sessions s = ru_sessions r" by (simp_all add: s_def)
  ultimately show ?case
    using reaches_trans [OF reaches_step [OF reaches_refl \<open>serves W r s\<close>]] undisturbed_trans [OF s(1)] by metis
qed

lemma wind_down:
  assumes "canon_inv (ru_pipeline r) (ru_events r)" and "ru_returned r = None" and "ru_subscribers r = []"
  shows "\<exists>s. reaches W r s \<and> undisturbed r s \<and> ru_returned s = Some (Inr ())"
proof -
  let ?r1 = "r\<lparr> ru_sessions := [] \<rparr>" and ?r2 = "r\<lparr> ru_sessions := [], ru_serving := False \<rparr>"
  have "reaches W r ?r1" by (rule close_sessions [OF assms(2)])
  moreover have "reaches W ?r1 ?r2"
  proof (cases "ru_serving r")
    case True
    have "serves W ?r1 (?r1\<lparr> ru_serving := False \<rparr>)" by (rule interrupt) (simp_all add: assms(2) True)
    then show ?thesis using reaches_step [OF reaches_refl] by simp
  next
    case False
    then have "?r2 = ?r1" by (cases r) simp
    then show ?thesis by simp
  qed
  moreover obtain s where s: "reaches W ?r2 s" "undisturbed ?r2 s" "ru_returned s = None" "\<not> ru_serving s" "ru_sessions s = []"
      "pl_normalized (ru_pipeline s) = length (plog (ru_pipeline s))"
    using normalize_rest [of ?r2 W] assms(1,2) by (auto simp: canon_inv_def)
  moreover have "serves W s (s\<lparr> ru_returned := Some (Inr ()) \<rparr>)"
    by (rule normalizer_ends) (use s assms(3) in \<open>simp_all add: bus_senders_def undisturbed_def\<close>)
  ultimately have "reaches W r (s\<lparr> ru_returned := Some (Inr ()) \<rparr>)"
    using reaches_trans reaches_step by metis
  moreover have "undisturbed r (s\<lparr> ru_returned := Some (Inr ()) \<rparr>)" using s(2) by (simp add: undisturbed_def)
  ultimately show ?thesis by auto
qed

lemma reaches_canon:
  assumes "snd (server_start h (wd_libs W) cfg d) = Inr parts" and "reaches W (server_running parts) r"
  shows "canon_inv (ru_pipeline r) (ru_events r)"
  by (rule server_start_parts [OF assms(1)]) (use running_inv [OF assms, where emb = undefined] in blast)

lemma start_subscribers_of:
  "snd (server_start h L cfg d) = Inr parts \<Longrightarrow> srv_subscribers parts = start_subscribers (lib_mqtt L) (cf_mqtt cfg)"
  by (erule server_start_parts)

text \<open>Where \<open>run\<close> has returned cleanly, nothing that could send is left and everything has been normalized.\<close>

lemma returned_normalized:
  assumes "snd (server_start h (wd_libs W) cfg d) = Inr parts" and "reaches W (server_running parts) s"
    and "ru_returned s = Some (Inr ())"
  shows "ru_subscribers s = [] \<and> list_all2 canonical_of (plog (ru_pipeline s)) (ru_events s)"
proof -
  have "bus_senders s = 0" "pl_normalized (ru_pipeline s) = length (plog (ru_pipeline s))"
    using reaches_end_inv [OF assms(2)] assms(3) by (simp_all add: end_inv_def)
  then show ?thesis using reaches_canon [OF assms(1,2)] by (simp add: bus_senders_def canon_inv_def)
qed

section \<open>Properties\<close>

text \<open>
  C12. When the server can be stopped: from no state of a running server can \<open>run\<close> return without an error if a subscriber was
  started for one of the configured brokers, since nothing drops its sender and the wait for the normalizer never ends. If
  none was started it can return from every state, and when it does, each envelope ever put on the bus has become
  one canonical event.
\<close>

theorem run_returns:
  assumes "snd (server_start h (wd_libs W) cfg d) = Inr parts" and "reaches W (server_running parts) r" and "ru_returned r = None"
  shows "((\<exists>s. reaches W r s \<and> ru_returned s = Some (Inr ())) \<longleftrightarrow> start_subscribers (lib_mqtt (wd_libs W)) (cf_mqtt cfg) = [])
    \<and> (\<forall>s. reaches W r s \<and> ru_returned s = Some (Inr ()) \<longrightarrow>
        list_all2 canonical_of (bus_log (hs_bus (pl_http (ru_pipeline s)))) (ru_events s))"
proof -
  note subs = start_subscribers_of [OF assms(1)]
  have stays: "ru_subscribers s = srv_subscribers parts" if "reaches W (server_running parts) s" for s
    using reaches_subscribers [OF that] by (simp add: server_running_def)
  have ended: "srv_subscribers parts = [] \<and> list_all2 canonical_of (plog (ru_pipeline s)) (ru_events s)"
    if "reaches W r s" "ru_returned s = Some (Inr ())" for s
    using returned_normalized [OF assms(1) reaches_trans [OF assms(2) that(1)] that(2)]
      stays [OF reaches_trans [OF assms(2) that(1)]] by simp
  have "\<exists>s. reaches W r s \<and> ru_returned s = Some (Inr ())" if "srv_subscribers parts = []"
    using wind_down [OF reaches_canon [OF assms(1,2)] assms(3)] stays [OF assms(2)] that by auto
  with ended show ?thesis unfolding subs [symmetric] by blast
qed

lemma demo_no_subscribers: "start_subscribers (lib_mqtt (wd_libs demo_world)) (cf_mqtt demo_served) = []"
  by (simp add: demo_served_parts)

lemma demo_world_start: "snd (server_start demo_host (wd_libs demo_world) demo_served empty_disk) = Inr demo_parts"
  using demo_starts(1) by (simp add: demo_world_def)

lemma demo_running_alive: "ru_returned demo_running = None" "pl_cold_writer (ru_pipeline demo_running) = Some
    (cold_writer_new cold_open_in_memory cold_writer_config_default)" "length (plog (ru_pipeline demo_running)) = 2"
  by (simp_all add: demo_running_def server_running_def demo_admitted_def demo_pipeline_def pipeline_spawn_def
      pipeline_config_default_def bus_log_def Let_def)

theorem run_returns_witness:
  "\<exists>s. reaches demo_world demo_running s \<and> ru_returned s = Some (Inr ())"
  using run_returns [OF demo_world_start demo_reached demo_running_alive(1)] demo_no_subscribers by simp

text \<open>
  C33. A clean return may lose what was accepted: \<open>run\<close> does not wait for the cold writer and the embedder, so from every state of
  a running server without subscribers it can return with every envelope normalized and both stores as they were in
  that state. What was then on the bus, in the writers' channels or in their buffers is not stored, although its producers were told
  that it was accepted.
\<close>

theorem run_abandons_writers:
  assumes "snd (server_start h (wd_libs W) cfg d) = Inr parts" and "reaches W (server_running parts) r" and "ru_returned r = None"
    and "start_subscribers (lib_mqtt (wd_libs W)) (cf_mqtt cfg) = []"
  shows "\<exists>s. reaches W r s \<and> ru_returned s = Some (Inr ())
    \<and> bus_log (hs_bus (pl_http (ru_pipeline s))) = bus_log (hs_bus (pl_http (ru_pipeline r)))
    \<and> list_all2 canonical_of (bus_log (hs_bus (pl_http (ru_pipeline s)))) (ru_events s)
    \<and> map_option cw_store (pl_cold_writer (ru_pipeline s)) = map_option cw_store (pl_cold_writer (ru_pipeline r))
    \<and> map_option et_index (pl_embedder (ru_pipeline s)) = map_option et_index (pl_embedder (ru_pipeline r))"
proof -
  have "ru_subscribers r = []"
    using reaches_subscribers [OF assms(2)] start_subscribers_of [OF assms(1)] assms(4) by (simp add: server_running_def)
  then obtain s where s: "reaches W r s" "undisturbed r s" "ru_returned s = Some (Inr ())"
    using wind_down [OF reaches_canon [OF assms(1,2)] assms(3)] by blast
  note normalized = returned_normalized [OF assms(1) reaches_trans [OF assms(2) s(1)] s(3)]
  show ?thesis by (rule exI [of _ s]) (use s normalized in \<open>simp add: undisturbed_def\<close>)
qed

theorem run_abandons_writers_witness:
  "\<exists>s. reaches demo_world demo_running s \<and> ru_returned s = Some (Inr ())
    \<and> length (bus_log (hs_bus (pl_http (ru_pipeline s)))) = 2
    \<and> map_option cw_store (pl_cold_writer (ru_pipeline s)) = Some cold_open_in_memory"
proof -
  obtain s where s: "reaches demo_world demo_running s" "ru_returned s = Some (Inr ())"
      "plog (ru_pipeline s) = plog (ru_pipeline demo_running)"
      "map_option cw_store (pl_cold_writer (ru_pipeline s)) = map_option cw_store (pl_cold_writer (ru_pipeline demo_running))"
    using run_abandons_writers [OF demo_world_start demo_reached demo_running_alive(1) demo_no_subscribers] by blast
  show ?thesis by (rule exI [of _ s]) (use s in \<open>simp add: demo_running_alive(2,3) cold_writer_new_def\<close>)
qed

end
