(* ===== verification/Run_Restart.thy ===== *)
theory Run_Restart
  imports Run_Origin
begin

text \<open>
  Stopping and starting again: what a run leaves in the two database files, and that the next start opens exactly that.
\<close>

section \<open>The index stays loadable\<close>

lemma sweep_pairs_vector:
  assumes "pred_option P (snd st)"
    and keep: "\<And>db s k cutoff dry v. P v \<Longrightarrow> P (fst (vector_sweep_max_age db s k cutoff dry v))"
  shows "pred_option P (snd (fst (sweep_pairs dbs policies now dry keys st rep)))"
  using assms(1)
proof (induction keys arbitrary: st rep)
  case (Cons key keys)
  obtain s k where key: "key = (s, k)" by (cases key)
  have step: "pred_option P (fst (sweep_vector_step dbs now dry s k eff v))" if "pred_option P v" for eff v
    using that keep by (auto simp: sweep_vector_step_def split: option.split prod.split_asm prod.split) (metis fst_conv)
  have "pred_option P (snd (fst (sweep_pair dbs now dry s k eff st)))" for eff
    using step [of "snd st" eff] Cons.prems by (auto simp: sweep_pair_def split: prod.split sum.split)
  note pair = this [of "resolve_effective policies s k"]
  show ?case
  proof (cases "sweep_pair dbs now dry s k (resolve_effective policies s k) st")
    case (Pair st' res)
    with pair have "pred_option P (snd st')" by simp
    then show ?thesis using Cons by (auto simp: key Pair Let_def split: sum.split)
  qed
qed simp

definition index_inv :: "codec \<Rightarrow> embedder \<Rightarrow> pipeline \<Rightarrow> bool" where
  "index_inv c emb p \<longleftrightarrow> pred_option (\<lambda>t. et_embedder t = emb \<and> vi_inv c (emb_model_id emb) (emb_dim emb) (et_index t)) (pl_embedder p)"

lemma index_inv_embedder_step:
  assumes "ulid_codec c" and "embedder_ok emb" and "et_embedder t = emb" and "vi_inv c (emb_model_id emb) (emb_dim emb) (et_index t)"
  shows "et_embedder (embedder_step c db i t) = emb \<and> vi_inv c (emb_model_id emb) (emb_dim emb) (et_index (embedder_step c db i t))"
  using et.step_keeps [of t UNIV "\<lambda>s. fst s = emb \<and> vi_inv c (emb_model_id emb) (emb_dim emb) (fst (snd s))" i c db]
    embed_batch_inv [OF assms(1,2)] assms(3,4)
  by (auto simp: et_sink_def et_deliver_def)

lemma index_inv_step:
  assumes "ulid_codec (lib_codec L)" and "embedder_ok emb" and "index_inv (lib_codec L) emb p"
  shows "index_inv (lib_codec L) emb (fst (pipeline_step L a p))"
proof -
  note step = index_inv_embedder_step [OF assms(1,2)]
  show ?thesis
    using assms(3)
    by (cases a) (auto simp: index_inv_def pipeline_normalize_def set_normalizer_def set_http_def cold_recv_def embed_recv_def forward_recv_def
        map_option_case step Let_def simp del: cold_writer_step.simps embedder_step.simps
        split: option.split list.split prod.split)
qed

lemma index_inv_sweep:
  assumes "index_inv c emb p"
  shows "index_inv c emb (sweep_turn dbs now sw p)"
proof (cases "pl_cold_writer p")
  case None
  then show ?thesis using assms by (simp add: sweep_turn_def)
next
  case (Some w)
  let ?P = "vi_inv c (emb_model_id emb) (emb_dim emb)" and ?st = "(cw_store w, map_option et_index (pl_embedder p))"
  have "pred_option ?P (snd ?st)"
    using assms by (auto simp: index_inv_def option.pred_map o_def elim: option.pred_mono_strong)
  then have "pred_option ?P (snd (fst (sweep_pairs dbs (sw_policies sw) now False keys ?st rep)))" for keys rep
    using sweep_pairs_vector [where P = ?P and st = ?st] vi_inv_sweep by blast
  with \<open>pred_option ?P (snd ?st)\<close> have "pred_option ?P (snd (sweeper_tick (sw_policies sw) (dbs, now) ?st))"
    by (simp add: sweeper_tick_def sweep_def split: sum.split)
  then show ?thesis
    using assms by (auto simp: sweep_turn_def Some index_inv_def split: prod.split option.split)
qed

lemma index_inv_serves:
  assumes "ulid_codec (lib_codec (wd_libs W))" and "embedder_ok emb" and "index_inv (lib_codec (wd_libs W)) emb (ru_pipeline r)"
    and "serves W r s"
  shows "index_inv (lib_codec (wd_libs W)) emb (ru_pipeline s)"
  using assms(4)
proof (cases rule: serves_pipeline)
  case (called m)
  then show ?thesis using assms(3) by (simp add: index_inv_def mcp_turn_def)
qed (use assms(3) index_inv_step [OF assms(1,2)] index_inv_sweep in simp_all)

section \<open>The files\<close>

text \<open>
  SQLite keeps the tables of an open store in its file, so they are what the next open finds. The directory of a
  configuration without embedding may hold a vector file too, which then stays as it is.
\<close>

definition files_after :: "config \<Rightarrow> pipeline \<Rightarrow> disk \<Rightarrow> disk" where
  "files_after cfg p d = (case cf_server cfg of
     None \<Rightarrow> d
   | Some sv \<Rightarrow> stores_written (sv_data_dir sv) (map_option cw_store (pl_cold_writer p)) (map_option et_index (pl_embedder p)) d)"

text \<open>The vector file of the data directory holds vectors of the server's embedder.\<close>

definition vectors_sound :: "host \<Rightarrow> codec \<Rightarrow> config \<Rightarrow> disk \<Rightarrow> bool" where
  "vectors_sound h c cfg d \<longleftrightarrow> (let emb = current_embedder (h_blake3 h) in \<forall>sv. cf_server cfg = Some sv \<longrightarrow>
     (\<exists>rows. vi_inv c (emb_model_id emb) (emb_dim emb) \<lparr> vectors_tbl = stored_vectors d (vectors_path (sv_data_dir sv)), vi_rows = rows \<rparr>))"

lemma vi_inv_loaded:
  assumes "vi_inv c model dim \<lparr> vectors_tbl = tbl, vi_rows = rows \<rparr>"
  shows "\<exists>rows'. load_rows c model dim tbl = Inr rows' \<and> mset rows' = mset rows \<and> vi_inv c model dim \<lparr> vectors_tbl = tbl, vi_rows = rows' \<rparr>"
proof -
  obtain rows' where r: "load_rows c model dim tbl = Inr rows'" "mset rows' = mset rows"
    using vi_inv_load [OF assms] by auto
  then have "mset (map m_event_id rows') = mset (map m_event_id rows)" by simp
  then have "distinct (map m_event_id rows') = distinct (map m_event_id rows)" by (rule mset_eq_imp_distinct_iff)
  with r mset_eq_setD [OF r(2)] assms show ?thesis by (auto simp: vi_inv_def)
qed

lemma current_embedder_ok: "embedder_ok (current_embedder digest)"
  by (simp add: current_embedder_def hash_embedder_ok)

text \<open>The index that was opened is consistent, and stays so.\<close>

lemma reaches_index_inv:
  assumes start: "snd (server_start h (wd_libs W) cfg d) = Inr parts" and run: "reaches W (server_running parts) r"
    and codec: "ulid_codec (lib_codec (wd_libs W))" and disk: "vectors_sound h (lib_codec (wd_libs W)) cfg d"
  shows "index_inv (lib_codec (wd_libs W)) (current_embedder (h_blake3 h)) (ru_pipeline r)"
  using run
proof (induction rule: reaches_induct)
  case start
  let ?c = "lib_codec (wd_libs W)" and ?emb = "current_embedder (h_blake3 h)"
  obtain au schemas cold vec where cold: "snd (open_cold h cfg d) = Inr cold"
    and vec: "snd (build_vector_subsystem h ?c cfg (fst (open_cold h cfg d))) = Inr vec"
    and p: "srv_pipeline parts = pipeline_spawn au schemas cold vec (cf_forwarders cfg \<noteq> []) pipeline_config_default"
    by (rule server_start_parts [OF assms(1)])
  have "vs_embedder vs = ?emb \<and> vi_inv ?c (emb_model_id ?emb) (emb_dim ?emb) (vs_index vs)" if v: "vec = Some vs" for vs
  proof -
    obtain sv where sv: "cf_server cfg = Some sv" "vs_embedder vs = ?emb" "vector_from_connection ?c None (emb_model_id ?emb)
        (emb_dim ?emb) (stored_vectors d (vectors_path (sv_data_dir sv))) = Inr (vs_index vs)"
      using opened_from_disk(2) [OF cold vec v] by auto
    then obtain rows where "vi_inv ?c (emb_model_id ?emb) (emb_dim ?emb)
        \<lparr> vectors_tbl = stored_vectors d (vectors_path (sv_data_dir sv)), vi_rows = rows \<rparr>"
      using disk by (auto simp: vectors_sound_def Let_def)
    from vi_inv_loaded [OF this] sv show ?thesis by (auto simp: vector_from_connection_def)
  qed
  then show ?case
    by (auto simp: index_inv_def server_running_def p pipeline_spawn_def embedder_task_new_def Let_def split: option.split prod.split)
next
  case (step s t)
  then show ?case using index_inv_serves [OF codec current_embedder_ok] by blast
qed

section \<open>Opening again\<close>

lemma reopen_cold:
  assumes "snd (open_cold h cfg d) = Inr cold" and "pl_cold_writer p = None \<longleftrightarrow> cold = None"
  shows "snd (open_cold h cfg (files_after cfg p d')) = Inr (map_option cw_store (pl_cold_writer p))"
proof (cases "cf_server cfg")
  case None
  then show ?thesis using assms open_cold_cases [of d h cfg] open_cold_cases [of "files_after cfg p d'" h cfg] by auto
next
  case (Some sv)
  have ok: "no_fault (h_open_cold h) 8" "cold \<noteq> None"
    using open_cold_cases [of d h cfg] assms(1) by (auto simp: Some split: if_split_asm)
  then obtain w where w: "pl_cold_writer p = Some w" using assms(2) by auto
  then have "stored_cold (files_after cfg p d') (cold_path (sv_data_dir sv)) = cw_store w"
    by (simp add: files_after_def Some stored_cold_written)
  then show ?thesis using open_cold_cases [of "files_after cfg p d'" h cfg] ok w by (simp add: Some)
qed

definition same_vectors :: "embedder_task \<Rightarrow> vector_subsystem \<Rightarrow> bool" where
  "same_vectors t vs \<longleftrightarrow> vectors_tbl (vs_index vs) = vectors_tbl (et_index t) \<and> mset (vi_rows (vs_index vs)) = mset (vi_rows (et_index t))"

lemma reopen_vectors:
  assumes vec: "snd (build_vector_subsystem h c cfg d) = Inr vec" and "pl_embedder p = None \<longleftrightarrow> vec = None"
    and inv: "index_inv c (current_embedder (h_blake3 h)) p" and same: "same_data (files_after cfg p d') d1"
  shows "\<exists>vec'. snd (build_vector_subsystem h c cfg d1) = Inr vec' \<and> rel_option same_vectors (pl_embedder p) vec'"
proof (cases "\<exists>sv. cf_server cfg = Some sv \<and> any_embed_enabled cfg")
  case False
  then have "snd (build_vector_subsystem h c cfg d') = Inr None" for d'
    using build_vector_subsystem_cases [of d' h c cfg] by (auto split: option.split_asm)
  then show ?thesis using assms(2) vec by simp
next
  case True
  then obtain sv where sv: "cf_server cfg = Some sv" "any_embed_enabled cfg" by blast
  let ?emb = "current_embedder (h_blake3 h)"
  let ?load = "\<lambda>tbl. vector_from_connection c (of_stmt (h_open_vectors h) 5) (emb_model_id ?emb) (emb_dim ?emb) tbl"
  have ok: "no_fault (h_open_vectors h) 5" "snd (build_vector_subsystem h c cfg d)
      = map_sum id (\<lambda>idx. Some \<lparr> vs_embedder = ?emb, vs_index = idx, vs_selector = build_selector cfg \<rparr>)
          (?load (stored_vectors d (vectors_path (sv_data_dir sv))))"
    using build_vector_subsystem_cases [of d h c cfg] vec by (auto simp: sv Let_def split: if_split_asm)
  then have "?load (stored_vectors d (vectors_path (sv_data_dir sv))) \<noteq> Inl x" for x using vec by auto
  then have stmt: "of_stmt (h_open_vectors h) 5 = None"
    by (cases "of_stmt (h_open_vectors h) 5") (auto simp: vector_from_connection_def)
  have "vec \<noteq> None" using ok(2) vec by (cases "?load (stored_vectors d (vectors_path (sv_data_dir sv)))") auto
  then obtain t where t: "pl_embedder p = Some t" using assms(2) by auto
  have "stored_vectors d1 (vectors_path (sv_data_dir sv)) = vectors_tbl (et_index t)"
    using same by (simp add: same_data_def files_after_def sv t stored_vectors_written)
  moreover obtain rows where "load_rows c (emb_model_id ?emb) (emb_dim ?emb) (vectors_tbl (et_index t)) = Inr rows"
      "mset rows = mset (vi_rows (et_index t))"
    using vi_inv_load inv by (fastforce simp: index_inv_def t)
  ultimately show ?thesis
    using build_vector_subsystem_cases [of d1 h c cfg] ok(1)
    by (auto simp: sv t stmt Let_def vector_from_connection_def same_vectors_def)
qed

lemma vectors_sound_after:
  assumes "vectors_sound h c cfg d" and "same_data d d'" and "index_inv c (current_embedder (h_blake3 h)) p"
  shows "vectors_sound h c cfg (files_after cfg p d')"
proof -
  let ?emb = "current_embedder (h_blake3 h)"
  have "\<exists>rows. vi_inv c (emb_model_id ?emb) (emb_dim ?emb)
      \<lparr> vectors_tbl = stored_vectors (files_after cfg p d') (vectors_path (sv_data_dir sv)), vi_rows = rows \<rparr>"
    if sv: "cf_server cfg = Some sv" for sv
  proof (cases "pl_embedder p")
    case None
    then have "stored_vectors (files_after cfg p d') path = stored_vectors d path" for path
      using assms(2) by (simp add: files_after_def sv stored_vectors_written same_data_def)
    then show ?thesis using assms(1) sv by (simp add: vectors_sound_def Let_def)
  next
    case (Some t)
    have whole: "\<lparr> vectors_tbl = vectors_tbl (et_index t), vi_rows = vi_rows (et_index t) \<rparr> = et_index t" by (cases "et_index t") simp
    show ?thesis
      by (rule exI [of _ "vi_rows (et_index t)"])
        (use assms(3) in \<open>simp add: files_after_def sv Some stored_vectors_written index_inv_def whole\<close>)
  qed
  then show ?thesis by (simp add: vectors_sound_def Let_def)
qed

lemma start_tasks_again:
  assumes "start_tasks h L cfg checked cold vec = Inr parts"
  shows "\<exists>parts'. start_tasks h L cfg checked cold' vec' = Inr parts'"
  using start_tasks_ok [of h L cfg "fst checked" "fst (snd checked)" "fst (snd (snd checked))" "snd (snd (snd checked))" cold vec]
    start_tasks_ok [of h L cfg "fst checked" "fst (snd checked)" "fst (snd (snd checked))" "snd (snd (snd checked))" cold' vec'] assms
  by (auto simp: is_ok_iff)

lemma spawned_stores:
  "map_option cw_store (pl_cold_writer (pipeline_spawn au schemas cold vec fwd cfg)) = cold"
  "map_option et_index (pl_embedder (pipeline_spawn au schemas cold vec fwd cfg)) = map_option vs_index vec"
  by (auto simp: pipeline_spawn_def cold_writer_new_def embedder_task_new_def Let_def split: option.split prod.split)

section \<open>Properties\<close>

text \<open>
  C14. A server can be restarted: wherever its process is stopped, also without an orderly end, the same configuration
  starts again on the files it leaves, with exactly the cold store it had and an index of the same vectors, and the files
  stay such that this can be repeated. The vector file it first opens must be missing or one that a server has written.
\<close>

theorem run_restarts:
  assumes "snd (server_start h (wd_libs W) cfg d) = Inr parts" and "reaches W (server_running parts) r"
    and "ulid_codec (lib_codec (wd_libs W))" and "vectors_sound h (lib_codec (wd_libs W)) cfg d"
  shows "let p = ru_pipeline r; d' = files_after cfg p (fst (server_start h (wd_libs W) cfg d))
    in vectors_sound h (lib_codec (wd_libs W)) cfg d'
      \<and> (\<exists>parts'. snd (server_start h (wd_libs W) cfg d') = Inr parts'
          \<and> map_option cw_store (pl_cold_writer (srv_pipeline parts')) = map_option cw_store (pl_cold_writer p)
          \<and> map_option (vectors_tbl \<circ> et_index) (pl_embedder (srv_pipeline parts')) = map_option (vectors_tbl \<circ> et_index) (pl_embedder p)
          \<and> map_option (mset \<circ> vi_rows \<circ> et_index) (pl_embedder (srv_pipeline parts'))
              = map_option (mset \<circ> vi_rows \<circ> et_index) (pl_embedder p))"
proof -
  let ?L = "wd_libs W" and ?p = "ru_pipeline r" and ?d = "fst (server_start h (wd_libs W) cfg d)"
  let ?d' = "files_after cfg ?p ?d"
  obtain checked cold vec where first: "start_checks h ?L cfg = Inr checked" "snd (open_cold h cfg d) = Inr cold"
      "snd (build_vector_subsystem h (lib_codec ?L) cfg (fst (open_cold h cfg d))) = Inr vec"
      "start_tasks h ?L cfg checked cold vec = Inr parts"
    using assms(1) by (auto simp: server_start_Inr)
  note stay = running_inv [OF assms(1,2) first(2,3), where emb = undefined] and inv = reaches_index_inv [OF assms]
  have sound: "vectors_sound h (lib_codec ?L) cfg ?d'"
    by (rule vectors_sound_after [OF assms(4) server_start_disk inv])
  have cold': "snd (open_cold h cfg ?d') = Inr (map_option cw_store (pl_cold_writer ?p))"
    by (rule reopen_cold [OF first(2)]) (use stay in blast)
  obtain vec' where vec': "snd (build_vector_subsystem h (lib_codec ?L) cfg (fst (open_cold h cfg ?d'))) = Inr vec'"
      "rel_option same_vectors (pl_embedder ?p) vec'"
    using reopen_vectors [OF first(3) _ inv open_cold_cases [of ?d' h cfg, THEN conjunct1]] stay by blast
  obtain parts' where parts': "start_tasks h ?L cfg checked (map_option cw_store (pl_cold_writer ?p)) vec' = Inr parts'"
    using start_tasks_again [OF first(4)] by blast
  then have again: "snd (server_start h ?L cfg ?d') = Inr parts'"
    using first(1) cold' vec'(1) by (auto simp: server_start_Inr)
  obtain au schemas where "srv_pipeline parts' = pipeline_spawn au schemas (map_option cw_store (pl_cold_writer ?p)) vec'
      (cf_forwarders cfg \<noteq> []) pipeline_config_default"
    by (rule server_start_parts [OF again]) (use cold' vec'(1) in simp)
  then have "map_option cw_store (pl_cold_writer (srv_pipeline parts')) = map_option cw_store (pl_cold_writer ?p)"
      "map_option et_index (pl_embedder (srv_pipeline parts')) = map_option vs_index vec'"
    by (simp_all add: spawned_stores)
  with vec'(2) have "map_option cw_store (pl_cold_writer (srv_pipeline parts')) = map_option cw_store (pl_cold_writer ?p)
      \<and> map_option (vectors_tbl \<circ> et_index) (pl_embedder (srv_pipeline parts')) = map_option (vectors_tbl \<circ> et_index) (pl_embedder ?p)
      \<and> map_option (mset \<circ> vi_rows \<circ> et_index) (pl_embedder (srv_pipeline parts')) = map_option (mset \<circ> vi_rows \<circ> et_index) (pl_embedder ?p)"
    by (cases "pl_embedder ?p"; cases vec'; cases "pl_embedder (srv_pipeline parts')") (auto simp: same_vectors_def)
  with sound again show ?thesis by (auto simp: Let_def)
qed

theorem run_restarts_witness:
  "\<exists>parts'. snd (server_start demo_host demo_libs demo_served
      (files_after demo_served demo_admitted (fst (server_start demo_host demo_libs demo_served empty_disk)))) = Inr parts'
    \<and> map_option cw_store (pl_cold_writer (srv_pipeline parts')) = Some cold_open_in_memory"
proof -
  have libs: "wd_libs demo_world = demo_libs" "ulid_codec (lib_codec demo_libs)"
    using demo_ulid_codec by (simp_all add: demo_world_def demo_libs_def ulid_codec_def)
  have "vectors_sound demo_host (lib_codec demo_libs) demo_served empty_disk"
    using vi_inv_open unfolding vectors_sound_def empty_disk_def stored_vectors_def vector_open_in_memory_def Let_def by auto
  then show ?thesis
    using run_restarts [of demo_host demo_world demo_served empty_disk demo_parts demo_running] demo_starts(1) demo_reached
    by (auto simp: libs Let_def demo_running_def demo_admitted_def demo_pipeline_def pipeline_spawn_def cold_writer_new_def)
qed

end
