(* ===== verification/Metrics_Text.thy ===== *)
theory Metrics_Text
  imports Cold_Writer Forwarder Mqtt Mcp_Router
begin

text \<open>
  The page \<open>GET /metrics\<close> of \<open>crates/ingest/src/http.rs\<close> and the renderers it calls: \<open>Metrics::render\<close> of
  \<open>crates/ingest/src/metrics.rs\<close>, \<open>ColdWriterMetrics::render_into\<close> of \<open>crates/store/src/cold/writer.rs\<close> and
  \<open>EmbedderMetrics::render_into\<close> of \<open>crates/store/src/vector/task.rs\<close>, with the two that nothing calls,
  \<open>ForwarderMetrics::render_into\<close> of \<open>crates/percept/src/forwarder.rs\<close> and \<open>MqttMetrics::render_into\<close> of
  \<open>crates/ingest/src/mqtt/subscriber.rs\<close>. The specification is a reader of the exposition format, \<open>scrape\<close>.
\<close>

section \<open>Rendering\<close>

definition line_feed :: char where
  "line_feed = CHR 0x0A"

definition quote :: string where
  "quote = [CHR 0x22]"

text \<open>Each \<open>writeln!\<close> appends one line.\<close>

definition write_lines :: "string list \<Rightarrow> string" where
  "write_lines ls = concat (map (\<lambda>l. l @ [line_feed]) ls)"

definition help_line :: "string \<Rightarrow> string \<Rightarrow> string" where
  "help_line name txt = ''# HELP '' @ name @ '' '' @ txt"

definition type_line :: "string \<Rightarrow> string \<Rightarrow> string" where
  "type_line name ty = ''# TYPE '' @ name @ '' '' @ ty"

definition value_line :: "string \<Rightarrow> nat \<Rightarrow> string" where
  "value_line name n = name @ '' '' @ show_nat n"

text \<open>\<open>name{label="val"} n\<close>: the value of the label is written as it is.\<close>

definition label_line :: "string \<Rightarrow> string \<Rightarrow> string \<Rightarrow> nat \<Rightarrow> string" where
  "label_line name label val n = name @ ''{'' @ label @ ''='' @ quote @ val @ quote @ ''} '' @ show_nat n"

text \<open>
  The order in which a \<open>HashMap\<close> is iterated is a parameter: for a map (named by its field) and its keys, the keys in
  some order.
\<close>

type_synonym hash_order = "string \<Rightarrow> string set \<Rightarrow> string list"

definition map_lines :: "hash_order \<Rightarrow> string \<Rightarrow> (string \<Rightarrow> 'v \<Rightarrow> string list) \<Rightarrow> 'v hash_map \<Rightarrow> string list" where
  "map_lines ord fld f m = concat (map (\<lambda>k. case m k of None \<Rightarrow> [] | Some v \<Rightarrow> f k v) (ord fld (dom m)))"

definition metrics_lines :: "hash_order \<Rightarrow> metrics \<Rightarrow> string list" where
  "metrics_lines ord m =
     [help_line ''percept_accepted_total'' ''Events accepted at the ingest boundary.'',
      type_line ''percept_accepted_total'' ''counter'',
      value_line ''percept_accepted_total'' (accepted_total m),
      help_line ''percept_oversized_soft_total'' ''Events larger than the soft size cap.'',
      type_line ''percept_oversized_soft_total'' ''counter'',
      value_line ''percept_oversized_soft_total'' (oversized_soft_total m),
      help_line ''percept_schema_invalid_total'' ''Events that failed semantic_schema validation.'',
      type_line ''percept_schema_invalid_total'' ''counter'',
      value_line ''percept_schema_invalid_total'' (schema_invalid_total m)]
     @ [help_line ''percept_shed_total'' ''Events shed at the ingest boundary by reason.'',
      type_line ''percept_shed_total'' ''counter'']
     @ map_lines ord ''shed_by_reason'' (\<lambda>reason c. [label_line ''percept_shed_total'' ''reason'' reason c]) (shed_by_reason m)
     @ [help_line ''percept_token_accepted_total'' ''Per-token accepted counter.'',
      type_line ''percept_token_accepted_total'' ''counter'']
     @ map_lines ord ''per_token_accepted'' (\<lambda>name c. [label_line ''percept_token_accepted_total'' ''token'' name c]) (per_token_accepted m)
     @ [help_line ''percept_token_shed_total'' ''Per-token shed counter.'',
      type_line ''percept_token_shed_total'' ''counter'']
     @ map_lines ord ''per_token_shed'' (\<lambda>name c. [label_line ''percept_token_shed_total'' ''token'' name c]) (per_token_shed m)
     @ [help_line ''percept_mcp_calls_total'' ''MCP method call count.'',
      type_line ''percept_mcp_calls_total'' ''counter'',
      help_line ''percept_mcp_latency_ms_sum'' ''Sum of MCP method wall-time in ms.'',
      type_line ''percept_mcp_latency_ms_sum'' ''counter'']
     @ map_lines ord ''mcp_calls'' (\<lambda>method s. [label_line ''percept_mcp_calls_total'' ''method'' method (ms_count s),
         label_line ''percept_mcp_latency_ms_sum'' ''method'' method (ms_total_latency_ms s)]) (mcp_calls m)
     @ [help_line ''percept_consumer_drops_total'' ''Events dropped on the way to a downstream consumer.'',
      type_line ''percept_consumer_drops_total'' ''counter'']
     @ map_lines ord ''consumer_drops'' (\<lambda>consumer c. [label_line ''percept_consumer_drops_total'' ''consumer'' consumer c]) (consumer_drops m)"

definition metrics_render :: "hash_order \<Rightarrow> metrics \<Rightarrow> string" where
  "metrics_render ord m = write_lines (metrics_lines ord m)"

definition cold_writer_lines :: "cold_writer_metrics \<Rightarrow> string list" where
  "cold_writer_lines m =
     [help_line ''percept_cold_batches_committed_total'' ''Cold writer batches committed.'',
      type_line ''percept_cold_batches_committed_total'' ''counter'',
      value_line ''percept_cold_batches_committed_total'' (cm_batches_committed m),
      help_line ''percept_cold_events_committed_total'' ''Cold writer events committed.'',
      type_line ''percept_cold_events_committed_total'' ''counter'',
      value_line ''percept_cold_events_committed_total'' (cm_events_committed m),
      help_line ''percept_cold_commit_errors_total'' ''Cold writer commit failures.'',
      type_line ''percept_cold_commit_errors_total'' ''counter'',
      value_line ''percept_cold_commit_errors_total'' (cm_commit_errors m),
      help_line ''percept_cold_events_dropped_total'' ''Cold writer events dropped (e.g. commit failures).'',
      type_line ''percept_cold_events_dropped_total'' ''counter'',
      value_line ''percept_cold_events_dropped_total'' (cm_events_dropped m),
      help_line ''percept_cold_pending_buffer'' ''Cold writer in-memory pending events.'',
      type_line ''percept_cold_pending_buffer'' ''gauge'',
      value_line ''percept_cold_pending_buffer'' (cm_pending_buffer m)]"

definition cold_writer_render_into :: "cold_writer_metrics \<Rightarrow> string \<Rightarrow> string" where
  "cold_writer_render_into m out = out @ write_lines (cold_writer_lines m)"

definition embedder_lines :: "embedder_metrics \<Rightarrow> string list" where
  "embedder_lines m =
     [help_line ''percept_embedder_batches_committed_total'' ''Embedder batches committed.'',
      type_line ''percept_embedder_batches_committed_total'' ''counter'',
      value_line ''percept_embedder_batches_committed_total'' (em_batches_committed m),
      help_line ''percept_embedder_events_embedded_total'' ''Embedder events committed.'',
      type_line ''percept_embedder_events_embedded_total'' ''counter'',
      value_line ''percept_embedder_events_embedded_total'' (em_events_embedded m),
      help_line ''percept_embedder_events_truncated_total'' ''Embedder events whose semantic was truncated before embedding.'',
      type_line ''percept_embedder_events_truncated_total'' ''counter'',
      value_line ''percept_embedder_events_truncated_total'' (em_events_truncated m),
      help_line ''percept_embedder_commit_errors_total'' ''Embedder commit failures.'',
      type_line ''percept_embedder_commit_errors_total'' ''counter'',
      value_line ''percept_embedder_commit_errors_total'' (em_commit_errors m),
      help_line ''percept_embedder_pending_buffer'' ''Embedder in-memory pending events.'',
      type_line ''percept_embedder_pending_buffer'' ''gauge'',
      value_line ''percept_embedder_pending_buffer'' (em_pending_buffer m)]"

definition embedder_render_into :: "embedder_metrics \<Rightarrow> string \<Rightarrow> string" where
  "embedder_render_into m out = out @ write_lines (embedder_lines m)"

definition forwarder_render_into :: "forwarder_metrics \<Rightarrow> string \<Rightarrow> string \<Rightarrow> string" where
  "forwarder_render_into m peer_id out = out @ write_lines
     [help_line ''percept_forwarder_events_total'' ''Events the forwarder sent to the hub.'',
      type_line ''percept_forwarder_events_total'' ''counter'',
      label_line ''percept_forwarder_events_total'' ''peer'' peer_id (fm_events_forwarded m),
      help_line ''percept_forwarder_send_errors_total'' ''Forwarder send failures.'',
      type_line ''percept_forwarder_send_errors_total'' ''counter'',
      label_line ''percept_forwarder_send_errors_total'' ''peer'' peer_id (fm_send_errors m)]"

definition mqtt_render_into :: "mqtt_metrics \<Rightarrow> string \<Rightarrow> string \<Rightarrow> string" where
  "mqtt_render_into m broker_id out = out @ write_lines
     [help_line ''percept_mqtt_messages_total'' ''Messages received per broker.'',
      type_line ''percept_mqtt_messages_total'' ''counter'',
      label_line ''percept_mqtt_messages_total'' ''broker'' broker_id (mm_messages_received m),
      help_line ''percept_mqtt_unmatched_total'' (''Messages that matched no ['' @ ''[mqtt.subscription]].''),
      type_line ''percept_mqtt_unmatched_total'' ''counter'',
      label_line ''percept_mqtt_unmatched_total'' ''broker'' broker_id (mm_messages_unmatched m),
      help_line ''percept_mqtt_decode_failed_total'' ''Messages dropped because the payload decoder failed.'',
      type_line ''percept_mqtt_decode_failed_total'' ''counter'',
      label_line ''percept_mqtt_decode_failed_total'' ''broker'' broker_id (mm_messages_decode_failed m),
      help_line ''percept_mqtt_reconnects_total'' ''MQTT EventLoop reconnects.'',
      type_line ''percept_mqtt_reconnects_total'' ''counter'',
      label_line ''percept_mqtt_reconnects_total'' ''broker'' broker_id (mm_reconnects m)]"

section \<open>Handlers\<close>

definition healthz :: string where
  "healthz = ''ok''"

text \<open>\<open>HttpState::cold_writer_metrics\<close> and \<open>HttpState::embedder_metrics\<close> are arguments.\<close>

definition metrics_page :: "hash_order \<Rightarrow> metrics \<Rightarrow> cold_writer_metrics option \<Rightarrow> embedder_metrics option \<Rightarrow> string" where
  "metrics_page ord m cold_writer_metrics embedder_metrics =
     (let out = metrics_render ord m;
          out = (case cold_writer_metrics of Some cm \<Rightarrow> cold_writer_render_into cm out | None \<Rightarrow> out);
          out = (case embedder_metrics of Some em \<Rightarrow> embedder_render_into em out | None \<Rightarrow> out)
      in out)"

section \<open>Reading the exposition format\<close>

text \<open>A sample: the name of the series, its label, and the value.\<close>

type_synonym series = "string \<times> (string \<times> string) option"
type_synonym sample = "series \<times> nat"

definition metric_char :: "char \<Rightarrow> bool" where
  "metric_char c \<longleftrightarrow> (let n = (of_char c :: nat)
     in (48 \<le> n \<and> n \<le> 57) \<or> (65 \<le> n \<and> n \<le> 90) \<or> (97 \<le> n \<and> n \<le> 122) \<or> c = CHR ''_'')"

definition metric_name :: "string \<Rightarrow> bool" where
  "metric_name s \<longleftrightarrow> s \<noteq> [] \<and> list_all metric_char s"

definition read_number :: "string \<Rightarrow> nat option" where
  "read_number ds = (if ds = [] \<or> \<not> list_all is_ascii_digit ds then None
     else Some (foldl (\<lambda>a c. 10 * a + digit_val c) 0 ds))"

text \<open>The value of a label, up to the closing quote; \<open>\\\<close>, \<open>\"\<close> and \<open>\n\<close> are its escapes.\<close>

fun read_label_value :: "string \<Rightarrow> (string \<times> string) option" where
  "read_label_value [] = None"
| "read_label_value (c # r) =
     (if c = CHR 0x22 then Some ([], r)
      else if c = CHR 0x5C then (case r of
          [] \<Rightarrow> None
        | d # r' \<Rightarrow>
            if d = CHR 0x5C \<or> d = CHR 0x22 \<or> d = CHR ''n''
            then map_option (\<lambda>(v, rest). ((if d = CHR ''n'' then line_feed else d) # v, rest)) (read_label_value r')
            else None)
      else map_option (\<lambda>(v, rest). (c # v, rest)) (read_label_value r))"

definition read_sample :: "string \<Rightarrow> sample option" where
  "read_sample l = (case split_once (CHR ''{'') l of
     None \<Rightarrow> (case split_once (CHR '' '') l of
         None \<Rightarrow> None
       | Some (name, ds) \<Rightarrow> if metric_name name then map_option (\<lambda>n. ((name, None), n)) (read_number ds) else None)
   | Some (name, r) \<Rightarrow> (case split_once (CHR ''='') r of
         None \<Rightarrow> None
       | Some (label, r) \<Rightarrow> (case Option.bind (strip_prefix quote r) read_label_value of
             None \<Rightarrow> None
           | Some (v, r) \<Rightarrow> (case strip_prefix ''} '' r of
                 None \<Rightarrow> None
               | Some ds \<Rightarrow> if metric_name name \<and> metric_name label
                   then map_option (\<lambda>n. ((name, Some (label, v)), n)) (read_number ds) else None))))"

text \<open>Blank lines and comments carry no sample; one malformed line makes the page unreadable.\<close>

definition scrape_line :: "string \<Rightarrow> sample list option" where
  "scrape_line l = (if l = [] \<or> hd l = CHR ''#'' then Some [] else map_option (\<lambda>s. [s]) (read_sample l))"

definition both :: "'a list option \<Rightarrow> 'a list option \<Rightarrow> 'a list option" where
  "both a b = Option.bind a (\<lambda>x. map_option ((@) x) b)"

definition scrape :: "string \<Rightarrow> sample list option" where
  "scrape txt = foldr (\<lambda>l. both (scrape_line l)) (split_on line_feed txt) (Some [])"

section \<open>The reader on a rendered line\<close>

lemma both_simps [simp]: "both (Some x) (Some y) = Some (x @ y)" "both None b = None" "both (Some []) b = b"
  by (simp_all add: both_def map_option.id [unfolded id_def] append_Nil [abs_def])

lemma both_assoc: "both (both a b) c = both a (both b c)"
  by (cases a; cases b; cases c) (simp_all add: both_def)

lemma scrape_line_feed: "scrape (a @ line_feed # b) = both (scrape a) (scrape b)"
proof -
  have "foldr (\<lambda>l. both (scrape_line l)) ls z = both (foldr (\<lambda>l. both (scrape_line l)) ls (Some [])) z" for ls z
    by (induction ls) (simp_all add: both_assoc)
  then show ?thesis unfolding scrape_def split_on_append foldr_append by blast
qed

lemma scrape_Nil [simp]: "scrape [] = Some []"
  by (simp add: scrape_def scrape_line_def)

lemma scrape_write_lines [simp]:
  "scrape (write_lines []) = Some []"
  "scrape (write_lines (l # ls)) = both (scrape l) (scrape (write_lines ls))"
  "scrape (write_lines (ls @ ls')) = both (scrape (write_lines ls)) (scrape (write_lines ls'))"
proof -
  show one: "scrape (write_lines (l # ls)) = both (scrape l) (scrape (write_lines ls))" for l ls
    using scrape_line_feed [of l "write_lines ls"] by (simp add: write_lines_def)
  show "scrape (write_lines []) = Some []" by (simp add: write_lines_def)
  show "scrape (write_lines (ls @ ls')) = both (scrape (write_lines ls)) (scrape (write_lines ls'))"
    by (induction ls) (simp_all add: both_assoc write_lines_def scrape_line_feed)
qed

lemma scrape_out: "scrape (write_lines ls @ out) = both (scrape (write_lines ls)) (scrape out)"
  by (induction ls) (simp_all add: write_lines_def scrape_line_feed both_assoc)

lemma scrape_single: "line_feed \<notin> set l \<Longrightarrow> scrape l = scrape_line l"
  by (cases "scrape_line l") (simp_all add: scrape_def split_on_notin)

lemma scrape_comment [simp]:
  "line_feed \<notin> set name \<Longrightarrow> line_feed \<notin> set txt \<Longrightarrow> scrape (help_line name txt) = Some []"
  "line_feed \<notin> set name \<Longrightarrow> line_feed \<notin> set txt \<Longrightarrow> scrape (type_line name txt) = Some []"
  by (subst scrape_single; simp add: help_line_def type_line_def line_feed_def scrape_line_def)+

lemma show_nat_digit: "c \<in> set (show_nat n) \<Longrightarrow> is_ascii_digit c"
  using show_nat_digits [of n] by (simp add: list_all_iff)

lemma read_number_show [simp]: "read_number (show_nat n) = Some n"
  using show_nat_digits [of n] by (simp add: read_number_def)

lemma metric_name_plain:
  assumes "metric_name s"
  shows "line_feed \<notin> set s" "CHR ''{'' \<notin> set s" "CHR '' '' \<notin> set s" "CHR ''='' \<notin> set s" "s \<noteq> []" "hd s \<noteq> CHR ''#''"
  using assms by (cases s; auto simp: metric_name_def metric_char_def list_all_iff line_feed_def)+

lemma show_nat_plain: "line_feed \<notin> set (show_nat n)" "CHR ''{'' \<notin> set (show_nat n)"
  by (auto dest!: show_nat_digit simp: is_ascii_digit_def line_feed_def)

lemma scrape_value_line [simp]: "metric_name name \<Longrightarrow> scrape (value_line name n) = Some [((name, None), n)]"
proof -
  assume name: "metric_name name"
  have "split_once (CHR '' '') (value_line name n) = Some (name, show_nat n)"
    using metric_name_plain [OF name] by (simp add: split_once_Some value_line_def)
  then show ?thesis using name metric_name_plain [OF name] show_nat_plain [of n]
    by (subst scrape_single) (auto simp: value_line_def scrape_line_def read_sample_def line_feed_def)
qed

text \<open>A label value that needs no escaping.\<close>

definition clean_label :: "string \<Rightarrow> bool" where
  "clean_label s \<longleftrightarrow> CHR 0x22 \<notin> set s \<and> CHR 0x5C \<notin> set s \<and> line_feed \<notin> set s"

lemma read_label_value_clean: "clean_label v \<Longrightarrow> read_label_value (v @ quote @ r) = Some (v, r)"
  by (induction v) (auto simp: clean_label_def quote_def)

lemma scrape_label_line [simp]:
  assumes "metric_name name" and "metric_name label" and "clean_label v"
  shows "scrape (label_line name label v n) = Some [((name, Some (label, v)), n)]"
proof -
  let ?r = "quote @ v @ quote @ ''} '' @ show_nat n"
  have "split_once (CHR ''{'') (label_line name label v n) = Some (name, label @ ''='' @ ?r)"
    using metric_name_plain [OF assms(1)] by (simp add: split_once_Some label_line_def)
  moreover have "split_once (CHR ''='') (label @ ''='' @ ?r) = Some (label, ?r)"
    using metric_name_plain [OF assms(2)] by (simp add: split_once_Some)
  moreover have "Option.bind (strip_prefix quote ?r) read_label_value = Some (v, ''} '' @ show_nat n)"
    using read_label_value_clean [OF assms(3), of "''} '' @ show_nat n"] by (simp add: quote_def)
  ultimately have "read_sample (label_line name label v n) = Some ((name, Some (label, v)), n)"
    using assms by (simp add: read_sample_def)
  moreover have "line_feed \<notin> set (label_line name label v n)"
    using assms metric_name_plain(1) show_nat_plain(1) [of n]
    by (auto simp: label_line_def clean_label_def quote_def line_feed_def)
  moreover have "label_line name label v n \<noteq> [] \<and> hd (label_line name label v n) \<noteq> CHR ''#''"
    using metric_name_plain(5,6) [OF assms(1)] by (simp add: label_line_def)
  ultimately show ?thesis by (simp add: scrape_single scrape_line_def)
qed

section \<open>What a page says\<close>

definition labelled_series :: "string \<Rightarrow> string \<Rightarrow> nat hash_map \<Rightarrow> sample set" where
  "labelled_series name label m = {((name, Some (label, k)), v) | k v. m k = Some v}"

definition metrics_series :: "metrics \<Rightarrow> sample set" where
  "metrics_series m =
     {((''percept_accepted_total'', None), accepted_total m),
      ((''percept_oversized_soft_total'', None), oversized_soft_total m),
      ((''percept_schema_invalid_total'', None), schema_invalid_total m)}
     \<union> labelled_series ''percept_shed_total'' ''reason'' (shed_by_reason m)
     \<union> labelled_series ''percept_token_accepted_total'' ''token'' (per_token_accepted m)
     \<union> labelled_series ''percept_token_shed_total'' ''token'' (per_token_shed m)
     \<union> labelled_series ''percept_mcp_calls_total'' ''method'' (map_option ms_count \<circ> mcp_calls m)
     \<union> labelled_series ''percept_mcp_latency_ms_sum'' ''method'' (map_option ms_total_latency_ms \<circ> mcp_calls m)
     \<union> labelled_series ''percept_consumer_drops_total'' ''consumer'' (consumer_drops m)"

definition cold_writer_series :: "cold_writer_metrics \<Rightarrow> sample set" where
  "cold_writer_series m =
     {((''percept_cold_batches_committed_total'', None), cm_batches_committed m),
      ((''percept_cold_events_committed_total'', None), cm_events_committed m),
      ((''percept_cold_commit_errors_total'', None), cm_commit_errors m),
      ((''percept_cold_events_dropped_total'', None), cm_events_dropped m),
      ((''percept_cold_pending_buffer'', None), cm_pending_buffer m)}"

definition embedder_series :: "embedder_metrics \<Rightarrow> sample set" where
  "embedder_series m =
     {((''percept_embedder_batches_committed_total'', None), em_batches_committed m),
      ((''percept_embedder_events_embedded_total'', None), em_events_embedded m),
      ((''percept_embedder_events_truncated_total'', None), em_events_truncated m),
      ((''percept_embedder_commit_errors_total'', None), em_commit_errors m),
      ((''percept_embedder_pending_buffer'', None), em_pending_buffer m)}"

text \<open>What \<open>HashMap::iter\<close> guarantees: every key, once.\<close>

definition hash_order_ok :: "hash_order \<Rightarrow> bool" where
  "hash_order_ok ord \<longleftrightarrow> (\<forall>fld A. finite A \<longrightarrow> set (ord fld A) = A \<and> distinct (ord fld A))"

definition keys_ok :: "'v hash_map \<Rightarrow> bool" where
  "keys_ok m \<longleftrightarrow> finite (dom m) \<and> (\<forall>k \<in> dom m. clean_label k)"

definition metrics_keys_ok :: "metrics \<Rightarrow> bool" where
  "metrics_keys_ok m \<longleftrightarrow> keys_ok (shed_by_reason m) \<and> keys_ok (per_token_accepted m) \<and> keys_ok (per_token_shed m)
     \<and> keys_ok (mcp_calls m) \<and> keys_ok (consumer_drops m)"

text \<open>The keys stay so when the counters are bumped with such names.\<close>

lemma keys_ok_update [simp]: "keys_ok m \<Longrightarrow> clean_label k \<Longrightarrow> keys_ok (m(k \<mapsto> v))"
  by (auto simp: keys_ok_def)

lemma keys_ok_inc [simp]: "keys_ok m \<Longrightarrow> clean_label k \<Longrightarrow> keys_ok (inc_in_map k m)"
  by (simp add: inc_in_map_def split: option.split)

lemma metrics_keys_ok_new: "metrics_keys_ok metrics_new"
  by (simp add: metrics_keys_ok_def metrics_new_def keys_ok_def)

lemma metrics_keys_ok_ops:
  assumes "metrics_keys_ok m"
  shows "pred_option clean_label t \<Longrightarrow> metrics_keys_ok (inc_accepted t m)"
    "clean_label r \<Longrightarrow> pred_option clean_label t \<Longrightarrow> metrics_keys_ok (inc_shed r t m)"
    "clean_label r \<Longrightarrow> metrics_keys_ok (inc_consumer_drop r m)"
    "clean_label r \<Longrightarrow> metrics_keys_ok (inc_mcp_call r ms m)"
    "metrics_keys_ok (inc_source_error s r now m)"
    "metrics_keys_ok (inc_oversized_soft m)" "metrics_keys_ok (inc_schema_invalid m)"
  using assms
  by (cases t; simp add: metrics_keys_ok_def inc_accepted_def inc_shed_def inc_consumer_drop_def
      inc_mcp_call_def inc_source_error_eq inc_oversized_soft_def inc_schema_invalid_def Let_def)+

definition map_samples :: "hash_order \<Rightarrow> string \<Rightarrow> (string \<Rightarrow> 'v \<Rightarrow> sample list) \<Rightarrow> 'v hash_map \<Rightarrow> sample list" where
  "map_samples ord fld g m = concat (map (\<lambda>k. case m k of None \<Rightarrow> [] | Some v \<Rightarrow> g k v) (ord fld (dom m)))"

lemma scrape_map_lines:
  assumes "\<And>k v. m k = Some v \<Longrightarrow> scrape (write_lines (f k v)) = Some (g k v)"
  shows "scrape (write_lines (map_lines ord fld f m)) = Some (map_samples ord fld g m)"
proof -
  have "scrape (write_lines (concat (map (\<lambda>k. case m k of None \<Rightarrow> [] | Some v \<Rightarrow> f k v) ks)))
      = Some (concat (map (\<lambda>k. case m k of None \<Rightarrow> [] | Some v \<Rightarrow> g k v) ks))" for ks
    by (induction ks) (auto simp: assms split: option.split)
  then show ?thesis by (simp add: map_lines_def map_samples_def)
qed

abbreviation label_sample :: "string \<Rightarrow> string \<Rightarrow> string \<Rightarrow> nat \<Rightarrow> sample list" where
  "label_sample name label k n \<equiv> [((name, Some (label, k)), n)]"

lemma scrape_label_lines [simp]:
  assumes "metric_name name" and "metric_name label" and "keys_ok m"
  shows "scrape (write_lines (map_lines ord fld (\<lambda>k c. [label_line name label k c]) m))
    = Some (map_samples ord fld (label_sample name label) m)"
  by (rule scrape_map_lines) (use assms in \<open>simp add: keys_ok_def domI\<close>)

lemma set_map_samples:
  assumes "hash_order_ok ord" and "keys_ok m"
  shows "set (map_samples ord fld g m) = (\<Union>k \<in> dom m. set (g k (the (m k))))"
proof -
  have "set (ord fld (dom m)) = dom m" using assms by (simp add: hash_order_ok_def keys_ok_def)
  moreover have "set (case m k of None \<Rightarrow> [] | Some v \<Rightarrow> g k v) = set (g k (the (m k)))" if "k \<in> dom m" for k
    using that by auto
  ultimately show ?thesis by (simp add: map_samples_def)
qed

lemma set_label_samples [simp]:
  assumes "hash_order_ok ord" and "keys_ok m"
  shows "set (map_samples ord fld (label_sample name label) m) = labelled_series name label m"
  unfolding set_map_samples [OF assms] labelled_series_def by (auto simp: domI)

text \<open>The series are distinct when those of different keys are.\<close>

lemma distinct_map_samples:
  assumes "hash_order_ok ord" and "keys_ok m"
    and "\<And>k v. distinct (map fst (g k v))"
    and "\<And>k k' v v'. k \<noteq> k' \<Longrightarrow> fst ` set (g k v) \<inter> fst ` set (g k' v') = {}"
  shows "distinct (map fst (map_samples ord fld g m))"
proof -
  let ?h = "\<lambda>k. case m k of None \<Rightarrow> [] | Some v \<Rightarrow> g k v"
  have disj: "fst ` set (?h k) \<inter> fst ` set (?h k') = {}" if "k \<noteq> k'" for k k'
    using assms(4) [OF that] by (cases "m k"; cases "m k'") simp_all
  have each: "distinct (map fst (?h k))" for k using assms(3) by (cases "m k") simp_all
  have "distinct (map fst (concat (map ?h ks)))" if "distinct ks" for ks
    using that
  proof (induction ks)
    case (Cons k ks)
    have "fst ` set (?h k) \<inter> fst ` set (concat (map ?h ks)) = (\<Union>k' \<in> set ks. fst ` set (?h k) \<inter> fst ` set (?h k'))"
      by auto
    also have "\<dots> = {}" unfolding UNION_empty_conv by (intro ballI disj) (use Cons.prems in auto)
    finally show ?case using Cons each [of k] by (simp add: image_iff)
  qed simp
  then show ?thesis using assms(1,2) by (simp add: map_samples_def hash_order_ok_def keys_ok_def)
qed

definition mcp_sample :: "string \<Rightarrow> mcp_method_stats \<Rightarrow> sample list" where
  "mcp_sample k s = [((''percept_mcp_calls_total'', Some (''method'', k)), ms_count s),
     ((''percept_mcp_latency_ms_sum'', Some (''method'', k)), ms_total_latency_ms s)]"

lemma set_mcp_samples [simp]:
  assumes "hash_order_ok ord" and "keys_ok m"
  shows "set (map_samples ord fld mcp_sample m) =
    labelled_series ''percept_mcp_calls_total'' ''method'' (map_option ms_count \<circ> m)
    \<union> labelled_series ''percept_mcp_latency_ms_sum'' ''method'' (map_option ms_total_latency_ms \<circ> m)"
  unfolding set_map_samples [OF assms] labelled_series_def mcp_sample_def by (auto simp: domI)

lemma distinct_samples [simp]:
  assumes "hash_order_ok ord"
  shows "keys_ok m \<Longrightarrow> distinct (map fst (map_samples ord fld (label_sample name label) m))"
    and "keys_ok m' \<Longrightarrow> distinct (map fst (map_samples ord fld mcp_sample m'))"
  by (intro distinct_map_samples [OF assms]; auto simp: mcp_sample_def)+

lemma fst_labelled_series:
  "fst ` labelled_series name label m = (\<lambda>k. (name, Some (label, k))) ` dom m"
  by (force simp: labelled_series_def image_def)

section \<open>The whole page\<close>

lemma metric_names [simp]:
  "metric_name ''percept_accepted_total''" "metric_name ''percept_oversized_soft_total''"
  "metric_name ''percept_schema_invalid_total''" "metric_name ''percept_shed_total''"
  "metric_name ''percept_token_accepted_total''" "metric_name ''percept_token_shed_total''"
  "metric_name ''percept_mcp_calls_total''" "metric_name ''percept_mcp_latency_ms_sum''"
  "metric_name ''percept_consumer_drops_total''"
  "metric_name ''percept_cold_batches_committed_total''" "metric_name ''percept_cold_events_committed_total''"
  "metric_name ''percept_cold_commit_errors_total''" "metric_name ''percept_cold_events_dropped_total''"
  "metric_name ''percept_cold_pending_buffer''"
  "metric_name ''percept_embedder_batches_committed_total''" "metric_name ''percept_embedder_events_embedded_total''"
  "metric_name ''percept_embedder_events_truncated_total''" "metric_name ''percept_embedder_commit_errors_total''"
  "metric_name ''percept_embedder_pending_buffer''"
  "metric_name ''reason''" "metric_name ''token''" "metric_name ''method''" "metric_name ''consumer''"
  by (simp_all add: metric_name_def metric_char_def)

lemma scrape_mcp_lines:
  assumes "keys_ok m"
  shows "scrape (write_lines (map_lines ord fld (\<lambda>method s. [label_line ''percept_mcp_calls_total'' ''method'' method (ms_count s),
      label_line ''percept_mcp_latency_ms_sum'' ''method'' method (ms_total_latency_ms s)]) m))
    = Some (map_samples ord fld mcp_sample m)"
  by (rule scrape_map_lines) (use assms in \<open>simp add: keys_ok_def domI mcp_sample_def\<close>)

text \<open>What is written before and after the lines of the method calls does not depend on them.\<close>

definition before_mcp :: "hash_order \<Rightarrow> metrics \<Rightarrow> sample list" where
  "before_mcp ord m =
     [((''percept_accepted_total'', None), accepted_total m),
      ((''percept_oversized_soft_total'', None), oversized_soft_total m),
      ((''percept_schema_invalid_total'', None), schema_invalid_total m)]
     @ map_samples ord ''shed_by_reason'' (label_sample ''percept_shed_total'' ''reason'') (shed_by_reason m)
     @ map_samples ord ''per_token_accepted'' (label_sample ''percept_token_accepted_total'' ''token'') (per_token_accepted m)
     @ map_samples ord ''per_token_shed'' (label_sample ''percept_token_shed_total'' ''token'') (per_token_shed m)"

lemma scrape_metrics_render:
  assumes "keys_ok (shed_by_reason m)" "keys_ok (per_token_accepted m)" "keys_ok (per_token_shed m)" "keys_ok (consumer_drops m)"
    and "scrape (write_lines (map_lines ord ''mcp_calls'' (\<lambda>method s.
        [label_line ''percept_mcp_calls_total'' ''method'' method (ms_count s),
         label_line ''percept_mcp_latency_ms_sum'' ''method'' method (ms_total_latency_ms s)]) (mcp_calls m))) = Some calls"
  shows "scrape (metrics_render ord m) = Some (before_mcp ord m @ calls
    @ map_samples ord ''consumer_drops'' (label_sample ''percept_consumer_drops_total'' ''consumer'') (consumer_drops m))"
  unfolding metrics_render_def metrics_lines_def before_mcp_def using assms by (simp add: line_feed_def)

definition cold_writer_samples :: "cold_writer_metrics \<Rightarrow> sample list" where
  "cold_writer_samples m =
     [((''percept_cold_batches_committed_total'', None), cm_batches_committed m),
      ((''percept_cold_events_committed_total'', None), cm_events_committed m),
      ((''percept_cold_commit_errors_total'', None), cm_commit_errors m),
      ((''percept_cold_events_dropped_total'', None), cm_events_dropped m),
      ((''percept_cold_pending_buffer'', None), cm_pending_buffer m)]"

definition embedder_samples :: "embedder_metrics \<Rightarrow> sample list" where
  "embedder_samples m =
     [((''percept_embedder_batches_committed_total'', None), em_batches_committed m),
      ((''percept_embedder_events_embedded_total'', None), em_events_embedded m),
      ((''percept_embedder_events_truncated_total'', None), em_events_truncated m),
      ((''percept_embedder_commit_errors_total'', None), em_commit_errors m),
      ((''percept_embedder_pending_buffer'', None), em_pending_buffer m)]"

lemma scrape_cold_writer: "scrape (write_lines (cold_writer_lines m)) = Some (cold_writer_samples m)"
  unfolding cold_writer_lines_def cold_writer_samples_def by (simp add: line_feed_def)

lemma scrape_embedder: "scrape (write_lines (embedder_lines m)) = Some (embedder_samples m)"
  unfolding embedder_lines_def embedder_samples_def by (simp add: line_feed_def)

lemma scrape_metrics_page:
  assumes "scrape (metrics_render ord m) = Some ss"
  shows "scrape (metrics_page ord m cm em) = Some (ss
    @ (case cm of None \<Rightarrow> [] | Some c \<Rightarrow> cold_writer_samples c) @ (case em of None \<Rightarrow> [] | Some e \<Rightarrow> embedder_samples e))"
  using assms
  by (cases cm; cases em)
    (simp_all add: metrics_page_def Let_def cold_writer_render_into_def embedder_render_into_def metrics_render_def
      scrape_out scrape_cold_writer scrape_embedder)

lemma distinct_fst_append:
  "distinct (map fst xs) \<Longrightarrow> distinct (map fst ys) \<Longrightarrow> fst ` set xs \<inter> fst ` set ys = {} \<Longrightarrow> distinct (map fst (xs @ ys))"
  by simp

text \<open>A method name that writes a line of its own: it closes the quote, and the rest of its text is read as samples.\<close>

definition forged_method :: "nat \<Rightarrow> string" where
  "forged_method n = ''x'' @ quote @ ''} 0'' @ line_feed # value_line ''percept_accepted_total'' n @ line_feed # ''x{y='' @ quote"

definition forged_sample :: "nat \<Rightarrow> sample list" where
  "forged_sample n = [((''percept_accepted_total'', None), n)]"

lemma scrape_forged_line:
  assumes "metric_name name"
  shows "scrape (label_line name ''method'' (forged_method n) c) = Some (label_sample name ''method'' ''x'' 0
    @ forged_sample n @ label_sample ''x'' ''y'' [] c)"
proof -
  have zero: "char_of (48 :: nat) = CHR ''0''" by code_simp
  have split: "label_line name ''method'' (forged_method n) c = label_line name ''method'' ''x'' 0
      @ line_feed # value_line ''percept_accepted_total'' n @ line_feed # label_line ''x'' ''y'' [] c"
    using zero by (simp add: label_line_def forged_method_def quote_def show_nat.simps)
  have ok: "metric_name ''x''" "metric_name ''y''" "clean_label ''x''" "clean_label []"
    by (simp_all add: metric_name_def metric_char_def clean_label_def line_feed_def)
  show ?thesis unfolding split scrape_line_feed forged_sample_def using assms ok by simp
qed

text \<open>What is read from the lines of the method calls when one of the names is forged.\<close>

definition forged_mcp_sample :: "nat \<Rightarrow> string \<Rightarrow> mcp_method_stats \<Rightarrow> sample list" where
  "forged_mcp_sample n k s = (if k = forged_method n
     then label_sample ''percept_mcp_calls_total'' ''method'' ''x'' 0 @ forged_sample n @ label_sample ''x'' ''y'' [] (ms_count s)
       @ label_sample ''percept_mcp_latency_ms_sum'' ''method'' ''x'' 0 @ forged_sample n
       @ label_sample ''x'' ''y'' [] (ms_total_latency_ms s)
     else mcp_sample k s)"

lemma scrape_forged_calls:
  assumes "\<And>k. k \<in> dom m \<Longrightarrow> k = forged_method n \<or> clean_label k"
  shows "scrape (write_lines (map_lines ord fld (\<lambda>method s.
      [label_line ''percept_mcp_calls_total'' ''method'' method (ms_count s),
       label_line ''percept_mcp_latency_ms_sum'' ''method'' method (ms_total_latency_ms s)]) m))
    = Some (map_samples ord fld (forged_mcp_sample n) m)"
proof (rule scrape_map_lines)
  fix k s
  assume "m k = Some s"
  then have "k = forged_method n \<or> clean_label k" using assms by blast
  then show "scrape (write_lines [label_line ''percept_mcp_calls_total'' ''method'' k (ms_count s),
      label_line ''percept_mcp_latency_ms_sum'' ''method'' k (ms_total_latency_ms s)]) = Some (forged_mcp_sample n k s)"
    by (cases "k = forged_method n") (simp_all add: forged_mcp_sample_def scrape_forged_line mcp_sample_def)
qed

text \<open>A request with such a method is answered (the method is unknown) and its name is counted.\<close>

lemma forged_request:
  assumes "mcp_authenticate R (mcp_token s) headers = None" and "rl_request R bdy = Inr req"
    and "rq_jsonrpc req = ''2.0''" and "rq_method req = forged_method n"
  shows "\<exists>reply. mcp_handle R T ms headers bdy s
    = Some (s\<lparr> mcp_metrics := inc_mcp_call (forged_method n) ms (mcp_metrics s) \<rparr>, reply)"
proof -
  have "\<exists>resp. dispatch R T s req = Some resp"
    using assms(4) by (simp add: dispatch_def Let_def forged_method_def)
  then show ?thesis using assms by (auto simp: mcp_handle_def record_metrics_def)
qed

text \<open>A concrete iteration order.\<close>

definition demo_order :: hash_order where
  "demo_order fld A = (if finite A then sorted_list_of_set A else [])"

lemma demo_order_ok: "hash_order_ok demo_order"
  by (simp add: hash_order_ok_def demo_order_def)

section \<open>Properties\<close>

text \<open>
  C19. The metrics page says what was counted: when no token, method or consumer name needs escaping, a reader of the
  exposition format gets from \<open>GET /metrics\<close> exactly the counters of the ingest metrics and, when they run, of the
  cold writer and the embedder: every series once, with its current value, in whatever order the maps are iterated.
\<close>

theorem metrics_page_exact:
  assumes "hash_order_ok ord" and "metrics_keys_ok m"
  shows "\<exists>ss. scrape (metrics_page ord m cm em) = Some ss \<and> distinct (map fst ss)
    \<and> set ss = metrics_series m \<union> (case cm of None \<Rightarrow> {} | Some c \<Rightarrow> cold_writer_series c)
        \<union> (case em of None \<Rightarrow> {} | Some e \<Rightarrow> embedder_series e)"
proof -
  have keys: "keys_ok (shed_by_reason m)" "keys_ok (per_token_accepted m)" "keys_ok (per_token_shed m)"
      "keys_ok (mcp_calls m)" "keys_ok (consumer_drops m)"
    using assms(2) by (simp_all add: metrics_keys_ok_def)
  let ?drops = "map_samples ord ''consumer_drops'' (label_sample ''percept_consumer_drops_total'' ''consumer'') (consumer_drops m)"
  let ?ss = "before_mcp ord m @ map_samples ord ''mcp_calls'' mcp_sample (mcp_calls m) @ ?drops"
  let ?cm = "case cm of None \<Rightarrow> [] | Some c \<Rightarrow> cold_writer_samples c"
    and ?em = "case em of None \<Rightarrow> [] | Some e \<Rightarrow> embedder_samples e"
  have page: "scrape (metrics_page ord m cm em) = Some (?ss @ ?cm @ ?em)"
    by (intro scrape_metrics_page scrape_metrics_render scrape_mcp_lines keys)
  have ss: "set ?ss = metrics_series m"
    using keys assms(1) by (simp add: before_mcp_def metrics_series_def Un_ac)
  have runs: "set ?cm = (case cm of None \<Rightarrow> {} | Some c \<Rightarrow> cold_writer_series c)"
      "set ?em = (case em of None \<Rightarrow> {} | Some e \<Rightarrow> embedder_series e)"
    by (cases cm; cases em; simp add: cold_writer_samples_def cold_writer_series_def embedder_samples_def
        embedder_series_def)+
  have "distinct (map fst ?ss)"
    using keys assms(1) by (auto simp: before_mcp_def labelled_series_def)
  moreover have "distinct (map fst (?cm @ ?em))"
    by (cases cm; cases em) (simp_all add: cold_writer_samples_def embedder_samples_def)
  moreover have "fst ` set ?ss \<inter> fst ` set (?cm @ ?em) = {}"
    using keys assms(1)
    by (cases cm; cases em)
      (auto simp: before_mcp_def labelled_series_def cold_writer_samples_def embedder_samples_def)
  ultimately have "distinct (map fst (?ss @ ?cm @ ?em))" by (rule distinct_fst_append)
  moreover have "set (?ss @ ?cm @ ?em) = metrics_series m \<union> (case cm of None \<Rightarrow> {} | Some c \<Rightarrow> cold_writer_series c)
      \<union> (case em of None \<Rightarrow> {} | Some e \<Rightarrow> embedder_series e)"
    by (simp only: set_append [of ?ss] set_append [of ?cm] ss runs Un_assoc)
  ultimately show ?thesis using page by blast
qed

theorem metrics_page_exact_witness:
  "let m = inc_mcp_call ''ping'' 3 (inc_accepted (Some ''edge'') metrics_new)
   in \<exists>ss. scrape (metrics_page demo_order m None None) = Some ss \<and> distinct (map fst ss) \<and> set ss = metrics_series m"
proof -
  have clean: "clean_label ''ping''" "clean_label ''edge''" by (simp_all add: clean_label_def line_feed_def)
  then have "metrics_keys_ok (inc_mcp_call ''ping'' 3 (inc_accepted (Some ''edge'') metrics_new))"
    by (intro metrics_keys_ok_ops(1,4) metrics_keys_ok_new) simp_all
  from metrics_page_exact [OF demo_order_ok this, of None None] show ?thesis by (simp add: Let_def)
qed

text \<open>
  C40. The metrics page can be forged: label values are not escaped, and the method of a JSON-RPC request is counted under
  whatever name the client gave, known or not. For every number there is a method name after whose call the page is
  still readable and reports that number as the count of accepted events, beside the real one.
\<close>

theorem metrics_page_forged:
  assumes "hash_order_ok ord" and "metrics_keys_ok m"
  shows "\<exists>method ss. scrape (metrics_page ord (record_metrics method ms m) cm em) = Some ss
    \<and> ((''percept_accepted_total'', None), n) \<in> set ss
    \<and> ((''percept_accepted_total'', None), accepted_total m) \<in> set ss"
proof -
  define m' where "m' = record_metrics (forged_method n) ms m"
  have keys: "keys_ok (shed_by_reason m')" "keys_ok (per_token_accepted m')" "keys_ok (per_token_shed m')"
      "keys_ok (consumer_drops m')"
    using assms(2) by (simp_all add: m'_def record_metrics_def inc_mcp_call_def Let_def metrics_keys_ok_def)
  have calls: "finite (dom (mcp_calls m'))" "forged_method n \<in> dom (mcp_calls m')"
      "\<And>k. k \<in> dom (mcp_calls m') \<Longrightarrow> k = forged_method n \<or> clean_label k"
    using assms(2)
    by (auto simp: m'_def record_metrics_def inc_mcp_call_def Let_def metrics_keys_ok_def keys_ok_def)
  let ?g = "forged_mcp_sample n"
  have "scrape (write_lines (map_lines ord ''mcp_calls'' (\<lambda>method s.
        [label_line ''percept_mcp_calls_total'' ''method'' method (ms_count s),
         label_line ''percept_mcp_latency_ms_sum'' ''method'' method (ms_total_latency_ms s)]) (mcp_calls m')))
      = Some (map_samples ord ''mcp_calls'' ?g (mcp_calls m'))"
    by (rule scrape_forged_calls) (use calls(3) in blast)
  from scrape_metrics_page [OF scrape_metrics_render [OF keys this]]
  obtain rest where page: "scrape (metrics_page ord m' cm em)
      = Some (before_mcp ord m' @ map_samples ord ''mcp_calls'' ?g (mcp_calls m') @ rest)" by simp
  have "((''percept_accepted_total'', None), n) \<in> set (map_samples ord ''mcp_calls'' ?g (mcp_calls m'))"
  proof -
    have "forged_method n \<in> set (ord ''mcp_calls'' (dom (mcp_calls m')))"
      using assms(1) calls(1,2) by (simp add: hash_order_ok_def)
    then show ?thesis using calls(2)
      by (auto simp: map_samples_def forged_mcp_sample_def forged_sample_def intro!: bexI [of _ "forged_method n"])
  qed
  moreover have "((''percept_accepted_total'', None), accepted_total m) \<in> set (before_mcp ord m')"
    by (simp add: before_mcp_def m'_def record_metrics_def inc_mcp_call_def Let_def)
  ultimately show ?thesis using page unfolding m'_def
    by (intro exI [of _ "forged_method n"] exI, intro conjI) (assumption, simp_all)
qed

theorem metrics_page_forged_witness:
  "\<exists>method ss. scrape (metrics_page demo_order (record_metrics method 1 metrics_new) None None) = Some ss
    \<and> ((''percept_accepted_total'', None), 1000000) \<in> set ss \<and> ((''percept_accepted_total'', None), 0) \<in> set ss"
  using metrics_page_forged [OF demo_order_ok metrics_keys_ok_new, of 1 None None 1000000] by (simp add: metrics_new_def)

end
