(* ===== verification/Dry_Run.thy ===== *)
theory Dry_Run
  imports Retention_Sweep
begin

text \<open>
  What the report of a dry run says about the sweep it stands for. In a dry run nothing is deleted, so each limit of a
  pair counts its rows on the whole pair; in a sweep a limit only sees what the limits before it have left. A pair's
  limits each keep a run of its newest rows, so a sweep drops as many as the strictest limit, a dry run reports the sum.
\<close>

section \<open>Limits keep the newest rows\<close>

definition age_drops :: "i64 \<Rightarrow> effective_retention \<Rightarrow> event_row list \<Rightarrow> nat" where
  "age_drops now eff rs = length rs - length (retain_age now eff rs)"

definition count_drops :: "effective_retention \<Rightarrow> event_row list \<Rightarrow> nat" where
  "count_drops eff rs = length rs - length (retain_count eff rs)"

definition bytes_drops :: "effective_retention \<Rightarrow> event_row list \<Rightarrow> nat" where
  "bytes_drops eff rs = length rs - length (retain_bytes eff rs)"

lemma newest_rows_sorted: "sorted_wrt (\<lambda>a b. c_ts_ms_utc b \<le> c_ts_ms_utc a) (newest_rows s k st)"
proof -
  have "sorted (map row_pos (sorted_pair s k st))" unfolding sorted_pair_def by (rule sorted_sort_key)
  then have sorted: "sorted_wrt (\<lambda>a b. row_pos a \<le> row_pos b) (sorted_pair s k st)" by (simp only: sorted_map)
  have "c_ts_ms_utc a \<le> c_ts_ms_utc b" if "row_pos a \<le> row_pos b" for a b :: event_row
    using that by (auto simp: row_pos_def less_eq_prod_def)
  then have "sorted_wrt (\<lambda>a b. c_ts_ms_utc a \<le> c_ts_ms_utc b) (sorted_pair s k st)"
    by (rule sorted_wrt_mono_rel [OF _ sorted])
  then show ?thesis unfolding newest_rows_def by (simp only: sorted_wrt_rev)
qed

lemma filter_descending:
  "sorted_wrt (\<lambda>a b. f b \<le> f a) xs \<Longrightarrow> filter (\<lambda>x. (c :: int) \<le> f x) xs = take (length (filter (\<lambda>x. c \<le> f x) xs)) xs"
proof (induction xs)
  case (Cons x xs)
  show ?case
  proof (cases "c \<le> f x")
    case False
    then have "filter (\<lambda>x. c \<le> f x) xs = []" using Cons.prems by (fastforce simp: filter_empty_conv)
    with False show ?thesis by simp
  qed (use Cons in simp)
qed simp

lemma fitting_take: "fitting mx running (take n rs) = min n (fitting mx running rs)"
proof (induction mx running rs arbitrary: n rule: fitting.induct)
  case (2 mx running r rs)
  then show ?case by (cases n) (simp_all add: Let_def)
qed simp

text \<open>Each limit keeps a run of the newest rows.\<close>

lemma retain_age_take:
  "retain_age now eff (newest_rows s k st) = take (length (retain_age now eff (newest_rows s k st))) (newest_rows s k st)"
  using filter_descending [OF newest_rows_sorted] by (simp add: retain_age_def split: option.split)

lemma retain_count_take: "retain_count eff (take n rs) = take (min n (length (retain_count eff rs))) rs"
  by (auto simp: retain_count_def min_def split: option.split)

lemma retain_bytes_take: "retain_bytes eff (take n rs) = take (min n (length (retain_bytes eff rs))) rs"
  using fitting_le [of _ 0 rs] by (auto simp: retain_bytes_def fitting_take min_def split: option.split)

lemma retain_length_le:
  "length (retain_age now eff rs) \<le> length rs" "length (retain_count eff rs) \<le> length rs"
  "length (retain_bytes eff rs) \<le> length rs"
  by (simp_all add: retain_age_def retain_count_def retain_bytes_def split: option.split)

lemma retained_drops:
  "length (newest_rows s k st) - length (retained now eff (newest_rows s k st))
    = max (age_drops now eff (newest_rows s k st))
        (max (count_drops eff (newest_rows s k st)) (bytes_drops eff (newest_rows s k st)))"
proof -
  let ?rs = "newest_rows s k st"
  let ?a = "length (retain_age now eff ?rs)" and ?c = "length (retain_count eff ?rs)" and ?b = "length (retain_bytes eff ?rs)"
  have "retained now eff ?rs = take (min (min ?a ?c) ?b) ?rs"
    unfolding retained_def by (subst retain_age_take) (simp add: retain_count_take retain_bytes_take)
  then have "length (retained now eff ?rs) = min (min ?a ?c) ?b" using retain_length_le(1) [of now eff ?rs] by simp
  then show ?thesis
    using retain_length_le(1) [of now eff ?rs] retain_length_le(2,3) [of eff ?rs]
    unfolding age_drops_def count_drops_def bytes_drops_def by arith
qed

lemma length_retained_le: "length (retained now eff rs) \<le> length rs"
  unfolding retained_def using retain_length_le le_trans by metis

section \<open>A dry run\<close>

lemma age_step_dry:
  "sweep_age_step (\<lambda>_. None) now True s k eff st = (st, Inr (age_drops now eff (newest_rows s k st)))"
proof (cases "er_max_age_ms eff")
  case (Some a)
  let ?p = "\<lambda>r. saturating_sub now a \<le> c_ts_ms_utc r"
  have "length (filter (\<lambda>r. row_key r = (s, k) \<and> c_ts_ms_utc r < saturating_sub now a) (events_tbl st))
      = length (filter (\<lambda>r. \<not> ?p r) (pair_rows s k st))"
    by (simp add: pair_rows_def conj_commute not_le)
  also have "\<dots> = length (filter (\<lambda>r. \<not> ?p r) (newest_rows s k st))"
    by (rule mset_eq_length) (simp add: newest_rows_def sorted_pair_def)
  also have "\<dots> = length (newest_rows s k st) - length (filter ?p (newest_rows s k st))"
    using sum_length_filter_compl [of ?p "newest_rows s k st"] by simp
  finally show ?thesis using Some
    by (simp add: sweep_age_step_def cold_sweep_max_age_def age_drops_def retain_age_def)
qed (simp add: sweep_age_step_def age_drops_def retain_age_def)

lemma count_step_dry:
  assumes "limits_ok eff" and "int (length (events_tbl st)) \<le> i64_max"
  shows "\<exists>ws. sweep_count_step (\<lambda>_. None) True s k eff st = (st, Inr (count_drops eff (newest_rows s k st), ws))"
proof (cases "er_max_count eff")
  case (Some keep)
  have len: "length (newest_rows s k st) = length (pair_rows s k st)" by (simp add: newest_rows_def sorted_pair_def)
  have "length (pair_rows s k st) \<le> length (events_tbl st)" by (simp add: pair_rows_def)
  then have "drop_count keep s k st = length (pair_rows s k st) - nat keep"
    using drop_count_eq [of keep "length (pair_rows s k st)"] assms Some by (simp add: drop_count_def limits_ok_def)
  with Some len show ?thesis
    by (simp add: sweep_count_step_def count_for_pair_def Let_def count_dry count_drops_def retain_count_def)
qed (simp add: sweep_count_step_def count_drops_def retain_count_def)

lemma bytes_step_dry:
  "\<exists>ws. sweep_bytes_step (\<lambda>_. None) True s k eff st = (st, Inr (bytes_drops eff (newest_rows s k st), ws))"
  by (cases "er_max_bytes eff")
    (simp_all add: sweep_bytes_step_def count_for_pair_def Let_def bytes_dry bytes_drops_def retain_bytes_def min_def fitting_le)

lemma vector_step_dry: "\<exists>n. sweep_vector_step (\<lambda>_. None) now True s k eff v = (v, Inr n)"
  by (cases v; cases "er_vector_max_age_ms eff") (simp_all add: sweep_vector_step_def vector_sweep_max_age_def Let_def)

definition reported_drops :: "i64 \<Rightarrow> retention_policy list \<Rightarrow> cold_store \<Rightarrow> ring_key \<Rightarrow> nat" where
  "reported_drops now ps st = (\<lambda>(s, k). let eff = resolve_effective ps s k; rs = newest_rows s k st
     in age_drops now eff rs + count_drops eff rs + bytes_drops eff rs)"

lemma sweep_pair_dry_count:
  assumes "limits_ok (resolve_effective ps s k)" and "int (length (events_tbl st)) \<le> i64_max"
  shows "\<exists>nv ws. sweep_pair (\<lambda>_. None) now True s k (resolve_effective ps s k) (st, v)
    = ((st, v), Inr (reported_drops now ps st (s, k), nv, ws))"
  using count_step_dry [OF assms, of s k] bytes_step_dry [of s k "resolve_effective ps s k" st]
    vector_step_dry [of now s k "resolve_effective ps s k" v]
  by (auto simp: sweep_pair_def age_step_dry reported_drops_def Let_def)

lemma reported_drops_empty: "effective_is_empty (resolve_effective ps s k) \<Longrightarrow> reported_drops now ps st (s, k) = 0"
  by (simp add: reported_drops_def age_drops_def count_drops_def bytes_drops_def retain_age_def retain_count_def
      retain_bytes_def effective_is_empty_def)

lemma sweep_pairs_dry_count:
  assumes "policies_ok ps" and "int (length (events_tbl st)) \<le> i64_max"
  shows "\<exists>rep'. sweep_pairs (\<lambda>_. None) ps now True keys (st, v) rep = ((st, v), Inr rep')
    \<and> events_dropped rep' = events_dropped rep + sum_list (map (reported_drops now ps st) keys)"
proof (induction keys arbitrary: rep)
  case (Cons key keys)
  obtain s k where key: "key = (s, k)" by (cases key)
  show ?case
  proof (cases "effective_is_empty (resolve_effective ps s k)")
    case True
    then show ?thesis using Cons.IH [of rep] by (simp add: key reported_drops_empty)
  next
    case False
    obtain nv ws where one: "sweep_pair (\<lambda>_. None) now True s k (resolve_effective ps s k) (st, v)
        = ((st, v), Inr (reported_drops now ps st (s, k), nv, ws))"
      using sweep_pair_dry_count [OF limits_ok_resolved [OF assms(1)] assms(2)] by blast
    then show ?thesis
      using False Cons.IH [of "report_pair s k (resolve_effective ps s k) (reported_drops now ps st (s, k)) nv ws rep"]
      by (auto simp: key Let_def report_pair_def)
  qed
qed simp

text \<open>The pairs of a store are visited once each.\<close>

lemma sum_list_pairs:
  "sum_list (map f (sort (remdups (map row_key (events_tbl st))))) = (\<Sum>key \<in> row_key ` set (events_tbl st). f key)"
  for f :: "ring_key \<Rightarrow> nat"
  using sum.distinct_set_conv_list [of "sort (remdups (map row_key (events_tbl st)))" f] by simp

lemma sweep_dry_count:
  assumes "policies_ok ps" and "int (length (events_tbl st)) \<le> i64_max"
  shows "\<exists>rep. sweep (\<lambda>_. None) ps now True (st, v) = ((st, v), Inr rep)
    \<and> events_dropped rep = (\<Sum>key \<in> row_key ` set (events_tbl st). reported_drops now ps st key)"
  using sweep_pairs_dry_count [OF assms, of now "sort (remdups (map row_key (events_tbl st)))" v
      "\<lparr> per_pair = [], events_dropped = 0, vectors_dropped = 0, warnings = [], sr_dry_run = True \<rparr>"]
  unfolding sum_list_pairs by (simp add: sweep_def distinct_source_kind_pairs_def)

section \<open>The sweep it stands for\<close>

definition swept_drops :: "i64 \<Rightarrow> retention_policy list \<Rightarrow> cold_store \<Rightarrow> ring_key \<Rightarrow> nat" where
  "swept_drops now ps st = (\<lambda>(s, k). let eff = resolve_effective ps s k; rs = newest_rows s k st
     in max (age_drops now eff rs) (max (count_drops eff rs) (bytes_drops eff rs)))"

lemma swept_drops_le: "swept_drops now ps st (s, k) \<le> length (newest_rows s k st)"
  by (simp add: swept_drops_def Let_def age_drops_def count_drops_def bytes_drops_def)

text \<open>The table is the union of its pairs.\<close>

lemma events_by_pair:
  assumes "finite K" and "row_key ` set (events_tbl st) \<subseteq> K"
  shows "length (events_tbl st) = (\<Sum>(s, k) \<in> K. length (newest_rows s k st))"
proof -
  have "length tbl = (\<Sum>key \<in> K. length (filter (\<lambda>r. row_key r = key) tbl))" if "row_key ` set tbl \<subseteq> K" for tbl
    using that
  proof (induction tbl)
    case (Cons r tbl)
    have "(\<Sum>key \<in> K. length (filter (\<lambda>r. row_key r = key) (r # tbl)))
        = (\<Sum>key \<in> K. (if row_key r = key then 1 else 0) + length (filter (\<lambda>r. row_key r = key) tbl))"
      by (rule sum.cong) auto
    then show ?case using Cons assms(1) by (simp add: sum.distrib)
  qed simp
  then show ?thesis
    using assms(2) by (simp add: newest_rows_def sorted_pair_def pair_rows_def split_beta prod.collapse)
qed

text \<open>The rows that are gone, pair by pair.\<close>

lemma sweep_pairs_swept_count:
  assumes "policies_ok ps" and "cold_inv c st" and "int (length (events_tbl st)) \<le> i64_max" and "distinct keys"
    and "row_key ` set (events_tbl st) \<subseteq> set keys"
  shows "\<exists>st' rep'. sweep_pairs (\<lambda>_. None) ps now False keys (st, v) rep = (st', Inr rep')
    \<and> events_dropped rep' = events_dropped rep + sum_list (map (swept_drops now ps st) keys)"
proof -
  obtain st' v' rep' where run: "sweep_pairs (\<lambda>_. None) ps now False keys (st, v) rep = ((st', v'), Inr rep')"
    and rows: "\<And>s k. newest_rows s k st' = (if (s, k) \<in> set keys
        then retained now (resolve_effective ps s k) (newest_rows s k st) else newest_rows s k st)"
    and total: "events_dropped rep' + length (events_tbl st') = events_dropped rep + length (events_tbl st)"
    using sweep_pairs_exec [OF assms(1-4), of now v rep] by blast
  have "row_key ` set (events_tbl st') \<subseteq> set keys"
  proof (rule image_subsetI)
    fix r assume r: "r \<in> set (events_tbl st')"
    obtain s k where key: "row_key r = (s, k)" by (cases "row_key r")
    then have "r \<in> set (newest_rows s k st')" using r by (simp add: newest_rows_def sorted_pair_def pair_rows_def)
    then have "newest_rows s k st' \<noteq> []" by auto
    then have "newest_rows s k st \<noteq> []" using rows [of s k] by (auto split: if_splits)
    then show "row_key r \<in> set keys" using newest_rows_absent [of s k st] assms(5) key by auto
  qed
  then have "length (events_tbl st') = (\<Sum>(s, k) \<in> set keys. length (newest_rows s k st'))" by (intro events_by_pair) simp_all
  also have "\<dots> = (\<Sum>(s, k) \<in> set keys. length (newest_rows s k st) - swept_drops now ps st (s, k))"
    by (rule sum.cong) (auto simp: rows swept_drops_def Let_def retained_drops [symmetric] length_retained_le)
  finally have after: "length (events_tbl st') = \<dots>" .
  have "length (events_tbl st) = (\<Sum>(s, k) \<in> set keys. length (newest_rows s k st))" using assms(5) by (intro events_by_pair) simp_all
  also have "\<dots> = (\<Sum>(s, k) \<in> set keys. length (newest_rows s k st) - swept_drops now ps st (s, k))
      + (\<Sum>key \<in> set keys. swept_drops now ps st key)"
    unfolding sum.distrib [symmetric] by (rule sum.cong) (auto simp: swept_drops_le)
  finally have "length (events_tbl st) = length (events_tbl st') + sum_list (map (swept_drops now ps st) keys)"
    using after assms(4) by (simp add: sum.distinct_set_conv_list)
  then show ?thesis using run total by auto
qed

section \<open>Properties\<close>

text \<open>
  C15. What a dry run reports: with a working engine a dry run succeeds and counts, for every pair, the rows over each limit
  added up; the sweep it stands for drops the largest of the three numbers. So the report is exact when
  every pair has at most one limit with something to drop, and too high by the overlap otherwise.
\<close>

theorem sweep_dry_run_report:
  assumes "policies_ok ps" and "cold_inv c st" and "int (length (events_tbl st)) \<le> i64_max"
  shows "\<exists>dry st' real. sweep (\<lambda>_. None) ps now True (st, v) = ((st, v), Inr dry)
    \<and> sweep (\<lambda>_. None) ps now False (st, v) = (st', Inr real)
    \<and> events_dropped dry = (\<Sum>(s, k) \<in> row_key ` set (events_tbl st).
        let eff = resolve_effective ps s k; rs = newest_rows s k st
        in age_drops now eff rs + count_drops eff rs + bytes_drops eff rs)
    \<and> events_dropped real = (\<Sum>(s, k) \<in> row_key ` set (events_tbl st).
        let eff = resolve_effective ps s k; rs = newest_rows s k st
        in max (age_drops now eff rs) (max (count_drops eff rs) (bytes_drops eff rs)))
    \<and> events_dropped real \<le> events_dropped dry"
proof -
  let ?K = "row_key ` set (events_tbl st)" and ?keys = "sort (remdups (map row_key (events_tbl st)))"
  let ?rep = "\<lambda>d. \<lparr> per_pair = [], events_dropped = 0, vectors_dropped = 0, warnings = [], sr_dry_run = d \<rparr>"
  have keys: "distinct ?keys" "set ?keys = ?K" by simp_all
  obtain dry where dry: "sweep (\<lambda>_. None) ps now True (st, v) = ((st, v), Inr dry)"
      "events_dropped dry = (\<Sum>key \<in> ?K. reported_drops now ps st key)"
    using sweep_dry_count [OF assms(1,3), of now v] by blast
  obtain st' real where real: "sweep_pairs (\<lambda>_. None) ps now False ?keys (st, v) (?rep False) = (st', Inr real)"
      "events_dropped real = 0 + sum_list (map (swept_drops now ps st) ?keys)"
    using sweep_pairs_swept_count [OF assms keys(1), of now v "?rep False"] by auto
  have "(\<Sum>key \<in> ?K. swept_drops now ps st key) \<le> (\<Sum>key \<in> ?K. reported_drops now ps st key)"
    by (rule sum_mono) (auto simp: swept_drops_def reported_drops_def Let_def)
  then have le: "events_dropped real \<le> events_dropped dry" using dry(2) real(2) unfolding sum_list_pairs by simp
  have "sweep (\<lambda>_. None) ps now False (st, v) = (st', Inr real)"
    using real(1) by (simp add: sweep_def distinct_source_kind_pairs_def)
  then show ?thesis
    using dry real(2) le unfolding sum_list_pairs by (simp add: swept_drops_def reported_drops_def)
qed

theorem sweep_dry_run_report_witness:
  "\<exists>dry st' real. sweep (\<lambda>_. None) [\<lparr> match_source_id = None, match_kind = None, rp_max_age = Some (from_secs 1),
        rp_max_count = Some 0, rp_max_bytes = None, rp_vector_max_age = None \<rparr>] 5000 True
        (fst (cold_append demo_codec None [sample_event 1 ''s'' ''k'' 7] cold_open_in_memory), None)
      = ((fst (cold_append demo_codec None [sample_event 1 ''s'' ''k'' 7] cold_open_in_memory), None), Inr dry)
    \<and> sweep (\<lambda>_. None) [\<lparr> match_source_id = None, match_kind = None, rp_max_age = Some (from_secs 1),
        rp_max_count = Some 0, rp_max_bytes = None, rp_vector_max_age = None \<rparr>] 5000 False
        (fst (cold_append demo_codec None [sample_event 1 ''s'' ''k'' 7] cold_open_in_memory), None) = (st', Inr real)
    \<and> events_dropped dry = 2 \<and> events_dropped real = 1"
proof -
  let ?ps = "[\<lparr> match_source_id = None, match_kind = None, rp_max_age = Some (from_secs 1),
      rp_max_count = Some 0, rp_max_bytes = None, rp_vector_max_age = None \<rparr>]"
  define st where "st = fst (cold_append demo_codec None [sample_event 1 ''s'' ''k'' 7] cold_open_in_memory)"
  have ok: "policies_ok ?ps" by (simp add: policies_ok_def i64_max_def)
  have inv: "cold_inv demo_codec st" unfolding st_def by (rule cold_inv_append) (simp_all add: cold_inv_open)
  obtain r where r: "events_tbl st = [r]" "row_key r = (''s'', ''k'')" "c_ts_ms_utc r = 7"
    by (simp add: st_def cold_append_encodable cold_open_in_memory_def insert_or_ignore_def enc_ev_def enc_props
        event_key_def)
  have len: "int (length (events_tbl st)) \<le> i64_max" using r(1) by (simp add: i64_max_def)
  have "newest_rows ''s'' ''k'' st = [r]" by (simp add: newest_rows_def sorted_pair_def pair_rows_def r)
  moreover have "by_precedence ?ps ''s'' ''k'' = ?ps" by (simp add: by_precedence_def)
  moreover have "saturating_sub 5000 (duration_to_ms (from_secs (Suc 0))) = 4000"
    by (simp add: duration_to_ms_def from_secs_def rust_defs)
  ultimately show ?thesis
    unfolding st_def [symmetric] using sweep_dry_run_report [OF ok inv len, of 5000 None] r
    by (simp add: age_drops_def count_drops_def bytes_drops_def retain_age_def retain_count_def retain_bytes_def
        resolve_effective_eq Let_def numeral_2_eq_2) blast
qed

end
