(* ===== verification/Cli.thy ===== *)
theory Cli
  imports Server Dry_Run
begin

text \<open>
  \<open>crates/percept/src/cli.rs\<close> and \<open>main.rs\<close>: the commands of the binary. What a command prints is a list of messages,
  each with the value that is put into its text. The argument parser of \<open>clap\<close> is not modelled: a command is what it
  returns. The configuration files, the clock, the failures of the engine and \<open>bluetoothctl\<close> are parameters
  (record \<open>cli_env\<close>).
\<close>

section \<open>Commands\<close>

datatype ble_command = BlePair string

datatype retention_command = DryRun string

datatype command =
    Serve string
  | ConfigCheck string
  | Retention retention_command
  | Ble ble_command
  | Version

definition DEFAULT_CONFIG_PATH :: string where
  "DEFAULT_CONFIG_PATH = ''/etc/percept/percept.toml''"

datatype exit_status = ExitSuccess | ExitFailure string

datatype cli_error =
    LoadFailed config_error
  | RuntimeFailed string
  | StartFailed start_error
  | NotAMac string
  | BluetoothctlUnavailable string
  | BluetoothctlFailed string
  | NoDataDir
  | ColdUnavailable cold_error
  | PoliciesFailed config_error
  | DryRunFailed sweep_error

datatype message =
    VersionText string
  | OkText
  | ConfigErrorText config_error
  | VectorNote vector_error
  | Report sweep_report

text \<open>How a command ends: with \<open>Ok\<close> or \<open>Err\<close>, with \<open>process::exit\<close>, with a panic, or not at all while the server runs.\<close>

datatype cli_end = Ended | EndError cli_error | EndExit nat | EndPanic | Serving server_parts

record cli_env =
  cl_config_env :: config_env
  cl_primary :: "string \<Rightarrow> config_error + config"
  cl_overlays :: "string \<Rightarrow> (config_error + config) list"
  cl_runtime :: "string option" \<comment> \<open>the error of the runtime builder, if any\<close>
  cl_host :: host
  cl_libs :: libs
  cl_sweep :: faults
  cl_clock :: int \<comment> \<open>nanoseconds since 1970\<close>
  cl_bluetoothctl :: "string list \<Rightarrow> string + exit_status"
  cl_pkg_version :: string

definition cli_load :: "cli_env \<Rightarrow> string \<Rightarrow> config_error + config" where
  "cli_load E path = config_load (cl_config_env E) (cl_primary E path) (cl_overlays E path)"

section \<open>The clock\<close>

text \<open>\<open>now_ms_utc\<close> of \<open>crates/core/src/time.rs\<close>: \<open>None\<close> is a panic.\<close>

definition now_ms_utc :: "int \<Rightarrow> i64 option" where
  "now_ms_utc clock = (if clock < 0 then None
     else let ms = clock div 1000000 in if ms \<le> i64_max then Some ms else None)"

section \<open>Pairing\<close>

definition is_ascii_hexdigit :: "char \<Rightarrow> bool" where
  [rust_defs]: "is_ascii_hexdigit c \<longleftrightarrow> (let n = (of_char c :: nat)
     in (48 \<le> n \<and> n \<le> 57) \<or> (65 \<le> n \<and> n \<le> 70) \<or> (97 \<le> n \<and> n \<le> 102))"

definition looks_like_mac :: "string \<Rightarrow> bool" where
  "looks_like_mac s = (let bytes = split_on (CHR '':'') s
     in length bytes = 6 \<and> list_all (\<lambda>b. length b = 2 \<and> list_all is_ascii_hexdigit b) bytes)"

text \<open>The programs that are started, and how the command ends.\<close>

definition ble_pair :: "cli_env \<Rightarrow> string \<Rightarrow> string list list \<times> cli_end" where
  "ble_pair E mac =
     (if \<not> looks_like_mac mac then ([], EndError (NotAMac mac))
      else let cmd = [''bluetoothctl'', ''pair'', mac]
           in ([cmd], case cl_bluetoothctl E cmd of
                Inl e \<Rightarrow> EndError (BluetoothctlUnavailable e)
              | Inr (ExitFailure status) \<Rightarrow> EndError (BluetoothctlFailed status)
              | Inr ExitSuccess \<Rightarrow> Ended))"

section \<open>The retention report\<close>

definition build_vector_index_handle :: "cli_env \<Rightarrow> config \<Rightarrow> string \<Rightarrow> disk \<Rightarrow> disk \<times> (vector_error + vector_index option)" where
  "build_vector_index_handle E cfg data_dir d =
     (let embed_default = (case Option.bind (cf_storage cfg) st_embed_default of Some b \<Rightarrow> b | None \<Rightarrow> False);
          any_enabled = (embed_default \<or> list_ex (\<lambda>k. ke_embed k = Some True) (cf_kinds cfg)
            \<or> list_ex (\<lambda>s. so_embed s = Some True) (cf_sources cfg))
      in if \<not> any_enabled then (d, Inr None)
         else let embedder = hash_embedder (h_blake3 (cl_host E)) 64
              in case vector_index_open (h_open_vectors (cl_host E)) (lib_codec (cl_libs E)) data_dir (emb_model_id embedder)
                       (emb_dim embedder) d of
                   (d', Inl e) \<Rightarrow> (d', Inl e)
                 | (d', Inr idx) \<Rightarrow> (d', Inr (Some idx)))"

text \<open>Whatever the sweep does to the two stores goes to their files.\<close>

definition retention_dry_run :: "cli_env \<Rightarrow> string \<Rightarrow> disk \<Rightarrow> disk \<times> message list \<times> cli_end" where
  "retention_dry_run E path d = (case cli_load E path of
     Inl e \<Rightarrow> (d, [], EndError (LoadFailed e))
   | Inr cfg \<Rightarrow> (case cf_server cfg of
       None \<Rightarrow> (d, [], EndError NoDataDir)
     | Some sv \<Rightarrow>
         let data_dir = sv_data_dir sv
         in case cold_store_open (h_open_cold (cl_host E)) data_dir d of
              (d1, Inl e) \<Rightarrow> (d1, [], EndError (ColdUnavailable e))
            | (d1, Inr cold) \<Rightarrow>
                (case build_vector_index_handle E cfg data_dir d1 of (d2, handle) \<Rightarrow>
                   let (vector, notes) = (case handle of Inr v \<Rightarrow> (v, []) | Inl e \<Rightarrow> (None, [VectorNote e]))
                   in case build_retention_policies cfg of
                        Inl e \<Rightarrow> (d2, notes, EndError (PoliciesFailed e))
                      | Inr policies \<Rightarrow> (case now_ms_utc (cl_clock E) of
                          None \<Rightarrow> (d2, notes, EndPanic)
                        | Some now_ms \<Rightarrow> (case sweep (cl_sweep E) policies now_ms True (cold, vector) of
                            ((cold', vector'), r) \<Rightarrow>
                              let d3 = stores_written data_dir (Some cold') vector' d2
                              in case r of
                                   Inl e \<Rightarrow> (d3, notes, EndError (DryRunFailed e))
                                 | Inr report \<Rightarrow> (d3, notes @ [Report report], Ended))))))"

section \<open>Dispatch\<close>

definition cli_dispatch :: "cli_env \<Rightarrow> disk \<Rightarrow> command \<Rightarrow> disk \<times> message list \<times> cli_end" where
  "cli_dispatch E d cmd = (case cmd of
     Version \<Rightarrow> (d, [VersionText (cl_pkg_version E)], Ended)
   | ConfigCheck path \<Rightarrow> (case cli_load E path of
       Inr _ \<Rightarrow> (d, [OkText], Ended)
     | Inl e \<Rightarrow> (d, [ConfigErrorText e], EndExit 2))
   | Serve path \<Rightarrow> (case cli_load E path of
       Inl e \<Rightarrow> (d, [], EndError (LoadFailed e))
     | Inr cfg \<Rightarrow> (case cl_runtime E of
         Some e \<Rightarrow> (d, [], EndError (RuntimeFailed e))
       | None \<Rightarrow> (case server_start (cl_host E) (cl_libs E) cfg d of
           (d', Inl e) \<Rightarrow> (d', [], EndError (StartFailed e))
         | (d', Inr parts) \<Rightarrow> (d', [], Serving parts))))
   | Retention (DryRun path) \<Rightarrow> retention_dry_run E path d
   | Ble (BlePair mac) \<Rightarrow> (d, [], snd (ble_pair E mac)))"

text \<open>\<open>main\<close>: the status of the process, when it ends.\<close>

definition exit_code :: "cli_end \<Rightarrow> nat option" where
  "exit_code r = (case r of
     Ended \<Rightarrow> Some 0 | EndError _ \<Rightarrow> Some 1 | EndExit n \<Rightarrow> Some n | EndPanic \<Rightarrow> Some 101 | Serving _ \<Rightarrow> None)"

section \<open>Facts\<close>

lemma hexdigit_not_colon: "is_ascii_hexdigit c \<Longrightarrow> c \<noteq> CHR '':''"
  by (auto simp: is_ascii_hexdigit_def)

lemma build_vector_index_handle_cases:
  "(\<forall>p. stored_vectors (fst (build_vector_index_handle E cfg dir d)) p = stored_vectors d p)
   \<and> (\<forall>p. stored_cold (fst (build_vector_index_handle E cfg dir d)) p = stored_cold d p)
   \<and> (case snd (build_vector_index_handle E cfg dir d) of
        Inr (Some vi) \<Rightarrow> vectors_tbl vi = stored_vectors d (vectors_path dir) | _ \<Rightarrow> True)"
proof (cases "(case Option.bind (cf_storage cfg) st_embed_default of Some b \<Rightarrow> b | None \<Rightarrow> False)
    \<or> list_ex (\<lambda>k. ke_embed k = Some True) (cf_kinds cfg) \<or> list_ex (\<lambda>s. so_embed s = Some True) (cf_sources cfg)")
  case False
  then show ?thesis by (simp add: build_vector_index_handle_def Let_def)
next
  case True
  let ?open = "vector_index_open (h_open_vectors (cl_host E)) (lib_codec (cl_libs E)) dir
    (emb_model_id (hash_embedder (h_blake3 (cl_host E)) 64)) (emb_dim (hash_embedder (h_blake3 (cl_host E)) 64)) d"
  obtain d' r where o: "?open = (d', r)" by (cases ?open)
  have h: "build_vector_index_handle E cfg dir d = (d', map_sum id Some r)"
    using True o by (cases r) (simp_all add: build_vector_index_handle_def Let_def)
  note opened = vector_index_open_cases [of "h_open_vectors (cl_host E)" "lib_codec (cl_libs E)" dir
      "emb_model_id (hash_embedder (h_blake3 (cl_host E)) 64)" "emb_dim (hash_embedder (h_blake3 (cl_host E)) 64)" d, unfolded o]
  have "vectors_tbl vi = stored_vectors d (vectors_path dir)" if "r = Inr vi" for vi
    using opened that by (auto simp: vector_from_connection_def split: if_splits option.split_asm sum.split_asm)
  then show ?thesis unfolding h
    using opened by (cases r) (simp_all add: stored_cold_def)
qed

text \<open>The two openings of the command, and what it writes back.\<close>

lemma dry_run_opened:
  assumes "cold_store_open F dir d = (d1, r)" and "build_vector_index_handle E cfg dir d1 = (d2, handle)"
  shows "stored_cold d1 p = stored_cold d p" "stored_vectors d1 p = stored_vectors d p"
    and "stored_cold d2 p = stored_cold d p" "stored_vectors d2 p = stored_vectors d p"
    and "r = Inr cold \<Longrightarrow> stored_cold (stores_written dir (Some cold) (case handle of Inr v \<Rightarrow> v | Inl _ \<Rightarrow> None) d2) p = stored_cold d p"
    and "stored_vectors (stores_written dir cold' (case handle of Inr v \<Rightarrow> v | Inl _ \<Rightarrow> None) d2) p = stored_vectors d p"
proof -
  show c: "stored_cold d1 p = stored_cold d p" "stored_vectors d1 p = stored_vectors d p" for p
    using cold_store_open_cases [of F dir d] assms(1) by (simp_all add: stored_vectors_def)
  note h = build_vector_index_handle_cases [of E cfg dir d1, unfolded assms(2)]
  show v: "stored_cold d2 p = stored_cold d p" "stored_vectors d2 p = stored_vectors d p" for p
    using h c by simp_all
  show "stored_cold (stores_written dir (Some cold) (case handle of Inr v \<Rightarrow> v | Inl _ \<Rightarrow> None) d2) p = stored_cold d p"
    if "r = Inr cold"
    using cold_store_open_cases [of F dir d] assms(1) that v by (simp add: stored_cold_written split: if_split_asm)
  show "stored_vectors (stores_written dir cold' (case handle of Inr v \<Rightarrow> v | Inl _ \<Rightarrow> None) d2) p = stored_vectors d p"
    using h c v by (auto simp: stored_vectors_written split: sum.split_asm option.split)
qed

lemma retention_dry_run_keeps:
  "stored_cold (fst (retention_dry_run E path d)) p = stored_cold d p
   \<and> stored_vectors (fst (retention_dry_run E path d)) p = stored_vectors d p"
proof (cases "\<exists>cfg sv. cli_load E path = Inr cfg \<and> cf_server cfg = Some sv")
  case False
  then show ?thesis by (auto simp: retention_dry_run_def split: sum.split option.split)
next
  case True
  then obtain cfg sv where cfg: "cli_load E path = Inr cfg" "cf_server cfg = Some sv" by blast
  obtain d1 r where o: "cold_store_open (h_open_cold (cl_host E)) (sv_data_dir sv) d = (d1, r)"
    by (cases "cold_store_open (h_open_cold (cl_host E)) (sv_data_dir sv) d")
  obtain d2 handle where v: "build_vector_index_handle E cfg (sv_data_dir sv) d1 = (d2, handle)"
    by (cases "build_vector_index_handle E cfg (sv_data_dir sv) d1")
  have dry: "\<exists>x. sweep dbs ps now True st = (st, x)" for dbs ps now st
    using sweep_dry_run_pure [of dbs ps now st] by (metis prod.collapse)
  note kept = dry_run_opened [OF o v]
  show ?thesis
  proof (cases r)
    case (Inl e)
    then show ?thesis using kept(1,2) by (simp add: retention_dry_run_def cfg o)
  next
    case (Inr cold)
    let ?v = "case handle of Inr v \<Rightarrow> v | Inl _ \<Rightarrow> None"
    have "fst (retention_dry_run E path d) \<in> {d2, stores_written (sv_data_dir sv) (Some cold) ?v d2}"
      using sweep_dry_run_pure
      by (cases handle) (auto simp: retention_dry_run_def cfg o v Inr Let_def prod_eq_iff split: sum.split option.split prod.split)
    then show ?thesis using kept(3-6) Inr by auto
  qed
qed

lemma config_check_loads:
  "exit_code (snd (snd (cli_dispatch E d (ConfigCheck path)))) = Some 0 \<longleftrightarrow> is_ok (cli_load E path)"
  "exit_code (snd (snd (cli_dispatch E d (ConfigCheck path)))) = Some 2 \<longleftrightarrow> \<not> is_ok (cli_load E path)"
  by (simp_all add: cli_dispatch_def exit_code_def split: sum.split)

text \<open>Hexadecimal pairs with colons between them, by position.\<close>

definition hex_pairs :: "nat \<Rightarrow> string \<Rightarrow> bool" where
  "hex_pairs n s \<longleftrightarrow> length s = n
     \<and> (\<forall>i < n. if i mod 3 = 2 then s ! i = CHR '':'' else is_ascii_hexdigit (s ! i))"

lemma all_less_small:
  "(\<forall>i < 2. P i) \<longleftrightarrow> P 0 \<and> P (Suc 0)" "(\<forall>i < 3. P i) \<longleftrightarrow> P 0 \<and> P (Suc 0) \<and> P (Suc (Suc 0))"
  by (simp_all add: numeral_2_eq_2 numeral_3_eq_3 All_less_Suc2)

lemma hex_pairs_Cons3:
  "hex_pairs (3 + n) (a # b # x # r) \<longleftrightarrow> is_ascii_hexdigit a \<and> is_ascii_hexdigit b \<and> x = CHR '':'' \<and> hex_pairs n r"
proof -
  have "(a # b # x # r) ! (3 + i) = r ! i" for i by (simp add: numeral_3_eq_3)
  moreover have "(3 + i) mod 3 = i mod 3" for i :: nat by simp
  ultimately show ?thesis by (auto simp: hex_pairs_def all_less_add all_less_small)
qed

lemma hex_pairs_step:
  "hex_pairs (3 + n) s \<longleftrightarrow> (\<exists>a b r. s = a # b # CHR '':'' # r \<and> is_ascii_hexdigit a \<and> is_ascii_hexdigit b \<and> hex_pairs n r)"
proof
  assume s: "hex_pairs (3 + n) s"
  then have "length s = Suc (Suc (Suc n))" by (simp add: hex_pairs_def)
  then obtain a b x r where "s = a # b # x # r" by (auto simp: length_Suc_conv)
  with s show "\<exists>a b r. s = a # b # CHR '':'' # r \<and> is_ascii_hexdigit a \<and> is_ascii_hexdigit b \<and> hex_pairs n r"
    by (simp add: hex_pairs_Cons3)
next
  assume "\<exists>a b r. s = a # b # CHR '':'' # r \<and> is_ascii_hexdigit a \<and> is_ascii_hexdigit b \<and> hex_pairs n r"
  then show "hex_pairs (3 + n) s" by (auto simp: hex_pairs_Cons3)
qed

lemma hex_pairs_two: "hex_pairs 2 s \<longleftrightarrow> length s = 2 \<and> list_all is_ascii_hexdigit s"
proof (cases "length s = 2")
  case True
  then obtain a b where "s = [a, b]" by (auto simp: numeral_2_eq_2 length_Suc_conv)
  then show ?thesis by (simp add: hex_pairs_def all_less_small)
qed (simp add: hex_pairs_def)

lemma hex_groups_split:
  "hex_pairs (3 * n + 2) s \<longleftrightarrow>
     length (split_on (CHR '':'') s) = Suc n \<and> list_all (\<lambda>b. length b = 2 \<and> list_all is_ascii_hexdigit b) (split_on (CHR '':'') s)"
proof (induction n arbitrary: s)
  case 0
  show ?case
  proof (cases "CHR '':'' \<in> set s")
    case True
    then obtain a b where "s = a @ CHR '':'' # b" by (auto dest: split_list)
    then have "length (split_on (CHR '':'') s) \<noteq> Suc 0"
      using split_on_not_Nil [of "CHR '':''" a] split_on_not_Nil [of "CHR '':''" b]
      by (cases "split_on (CHR '':'') a") (simp_all add: split_on_append)
    moreover have "\<not> list_all is_ascii_hexdigit s" using True hexdigit_not_colon by (auto simp: list_all_iff)
    ultimately show ?thesis using hex_pairs_two [of s] by (auto simp: numeral_2_eq_2)
  qed (use hex_pairs_two [of s] in \<open>simp add: split_on_notin numeral_2_eq_2\<close>)
next
  case (Suc n)
  have eq: "3 * Suc n + 2 = 3 + (3 * n + 2)" by simp
  have step: "split_on (CHR '':'') (a # b # CHR '':'' # r) = [a, b] # split_on (CHR '':'') r"
    if "is_ascii_hexdigit a" "is_ascii_hexdigit b" for a b r
    using split_on_append [of "CHR '':''" "[a, b]" r] that hexdigit_not_colon by (auto simp: split_on_notin)
  show ?case
  proof
    assume "hex_pairs (3 * Suc n + 2) s"
    then show "length (split_on (CHR '':'') s) = Suc (Suc n)
        \<and> list_all (\<lambda>b. length b = 2 \<and> list_all is_ascii_hexdigit b) (split_on (CHR '':'') s)"
      unfolding eq hex_pairs_step using step Suc.IH by auto
  next
    assume parts: "length (split_on (CHR '':'') s) = Suc (Suc n)
        \<and> list_all (\<lambda>b. length b = 2 \<and> list_all is_ascii_hexdigit b) (split_on (CHR '':'') s)"
    then obtain p ps where p: "split_on (CHR '':'') s = p # ps" "ps \<noteq> []" by (auto simp: length_Suc_conv)
    then obtain a b where ab: "p = [a, b]" "is_ascii_hexdigit a" "is_ascii_hexdigit b"
      using parts by (auto simp: numeral_eq_Suc length_Suc_conv)
    have s: "s = [a, b] @ CHR '':'' # join_with [CHR '':''] ps"
      using join_split_on [of "CHR '':''" s] p ab(1) by (cases ps) simp_all
    then have "split_on (CHR '':'') (join_with [CHR '':''] ps) = ps" using step [OF ab(2,3)] p(1) ab(1) by simp
    then show "hex_pairs (3 * Suc n + 2) s"
      unfolding eq hex_pairs_step using s ab parts p(1) Suc.IH [of "join_with [CHR '':''] ps"] by auto
  qed
qed

text \<open>
  What \<open>ble pair\<close> starts: the argument is accepted exactly when it is 17 characters long, six pairs of hexadecimal digits
  with colons between them. Only then a program is started, once, and it gets the argument as it is: no option and no
  separator can be smuggled into the command.
\<close>

lemma ble_pair_guarded:
  "let mac_shape = (length mac = 17 \<and> (\<forall>i < 17. if i mod 3 = 2 then mac ! i = CHR '':'' else is_ascii_hexdigit (mac ! i)))
   in fst (ble_pair E mac) = (if mac_shape then [[''bluetoothctl'', ''pair'', mac]] else [])
      \<and> (if mac_shape then snd (ble_pair E mac) \<noteq> EndError (NotAMac mac) else snd (ble_pair E mac) = EndError (NotAMac mac))"
  using hex_groups_split [of 5 mac]
  by (auto simp: ble_pair_def looks_like_mac_def hex_pairs_def Let_def split: sum.split exit_status.split)

section \<open>Properties\<close>

text \<open>
  C29. The command \<open>retention dry-run\<close>: for a configuration that loads and names a data directory, with a working engine,
  it prints one report whose number of events is the sum over the pairs stored on disk of the rows over each limit, at the
  time the clock shows, provided that every duration in the retention settings parses; when one does not, it prints no
  report and ends with that error. A vector index that cannot be opened only adds a note. Nothing stored in any file changes.
\<close>

theorem retention_dry_run_reports:
  assumes "cli_load E path = Inr cfg" and "cf_server cfg = Some sv" and "no_fault (h_open_cold (cl_host E)) 8"
    and "case build_retention_policies cfg of Inl _ \<Rightarrow> True | Inr ps \<Rightarrow> policies_ok ps"
    and "now_ms_utc (cl_clock E) = Some now" and "cl_sweep E = (\<lambda>_. None)"
    and "st = stored_cold d (cold_path (sv_data_dir sv))" and "int (length (events_tbl st)) \<le> i64_max"
  shows "case retention_dry_run E path d of (d', out, r) \<Rightarrow>
    (\<forall>p. stored_cold d' p = stored_cold d p \<and> stored_vectors d' p = stored_vectors d p)
    \<and> (\<exists>notes. (notes = [] \<or> (\<exists>e. notes = [VectorNote e]))
        \<and> (case build_retention_policies cfg of
             Inl e \<Rightarrow> out = notes \<and> r = EndError (PoliciesFailed e)
           | Inr ps \<Rightarrow> (\<exists>rep. out = notes @ [Report rep] \<and> r = Ended
               \<and> events_dropped rep = (\<Sum>(s, k) \<in> row_key ` set (events_tbl st).
                   let eff = resolve_effective ps s k; rs = newest_rows s k st
                   in age_drops now eff rs + count_drops eff rs + bytes_drops eff rs))))"
proof -
  obtain d1 where d1: "cold_store_open (h_open_cold (cl_host E)) (sv_data_dir sv) d = (d1, Inr st)"
    using cold_store_open_cases [of "h_open_cold (cl_host E)" "sv_data_dir sv" d] assms(3,7)
    by (cases "cold_store_open (h_open_cold (cl_host E)) (sv_data_dir sv) d") simp
  obtain d2 handle where d2: "build_vector_index_handle E cfg (sv_data_dir sv) d1 = (d2, handle)"
    by (cases "build_vector_index_handle E cfg (sv_data_dir sv) d1")
  define v where "v = (case handle of Inr v \<Rightarrow> v | Inl _ \<Rightarrow> None)"
  define ns where "ns = (case handle of Inr _ \<Rightarrow> [] | Inl e \<Rightarrow> [VectorNote e])"
  have noted: "ns = [] \<or> (\<exists>e. ns = [VectorNote e])" by (simp add: ns_def split: sum.split)
  obtain d' out r where run: "retention_dry_run E path d = (d', out, r)" by (cases "retention_dry_run E path d")
  have kept: "stored_cold d' p = stored_cold d p \<and> stored_vectors d' p = stored_vectors d p" for p
    using retention_dry_run_keeps [of E path d p] by (simp add: run)
  have "case build_retention_policies cfg of
      Inl e \<Rightarrow> out = ns \<and> r = EndError (PoliciesFailed e)
    | Inr ps \<Rightarrow> (\<exists>rep. out = ns @ [Report rep] \<and> r = Ended
        \<and> events_dropped rep = (\<Sum>key \<in> row_key ` set (events_tbl st). reported_drops now ps st key))"
  proof (cases "build_retention_policies cfg")
    case (Inl e)
    then show ?thesis using run unfolding ns_def
      by (cases handle) (simp_all add: retention_dry_run_def assms(1,2) d1 d2 Let_def)
  next
    case (Inr ps)
    then obtain rep where "sweep (\<lambda>_. None) ps now True (st, v) = ((st, v), Inr rep)"
        "events_dropped rep = (\<Sum>key \<in> row_key ` set (events_tbl st). reported_drops now ps st key)"
      using sweep_dry_count [of ps st now v] assms(4,8) by auto
    then show ?thesis using run Inr unfolding v_def ns_def
      by (cases handle) (auto simp: retention_dry_run_def assms(1,2,5,6) d1 d2 Let_def)
  qed
  then show ?thesis
    using kept noted unfolding run prod.case reported_drops_def by (cases "build_retention_policies cfg") auto
qed

text \<open>An environment in which everything works, a policy that keeps nothing of a kind, and a disk with one event.\<close>

definition demo_swept :: config where
  "demo_swept = config_default\<lparr> cf_server := Some \<lparr> sv_data_dir = ''/data'', sv_profile = ''edge'' \<rparr>,
     cf_retention := [\<lparr> re_match = \<lparr> rm_source_id = None, rm_kind = Some ''k'' \<rparr>, re_max_age = None, re_max_count = Some 0,
       re_max_bytes = None, re_vector_max_age = None \<rparr>] \<rparr>"

definition demo_cli :: cli_env where
  "demo_cli = \<lparr> cl_config_env = demo_env,
     cl_primary = (\<lambda>_. Inr demo_swept),
     cl_overlays = (\<lambda>_. []), cl_runtime = None, cl_host = demo_host, cl_libs = demo_libs,
     cl_sweep = (\<lambda>_. None), cl_clock = 5000000000, cl_bluetoothctl = (\<lambda>_. Inr ExitSuccess), cl_pkg_version = ''0.1.0'' \<rparr>"

definition demo_disk :: disk where
  "demo_disk = \<lparr> dk_dirs = {''/data''}, dk_cold = [''/data/cold.sqlite3'' \<mapsto>
     (let st = fst (cold_append demo_codec None [sample_event 1 ''s'' ''k'' 7] cold_open_in_memory)
      in \<lparr> cd_events = Some (events_tbl st), cd_latest = Some (latest_tbl st), cd_wal = True \<rparr>)], dk_vectors = Map.empty \<rparr>"

theorem retention_dry_run_reports_witness:
  "\<exists>d' notes rep. retention_dry_run demo_cli ''x'' demo_disk = (d', notes @ [Report rep], Ended) \<and> events_dropped rep = 1
    \<and> length (events_tbl (stored_cold d' (cold_path ''/data''))) = 1"
proof -
  let ?p = "\<lparr> match_source_id = None, match_kind = Some ''k'', rp_max_age = None, rp_max_count = Some 0, rp_max_bytes = None,
    rp_vector_max_age = None \<rparr>"
  let ?st = "stored_cold demo_disk (cold_path ''/data'')"
  have load: "cli_load demo_cli ''x'' = Inr demo_swept" "cf_server demo_swept = Some \<lparr> sv_data_dir = ''/data'', sv_profile = ''edge'' \<rparr>"
    by (simp_all add: cli_load_def demo_cli_def demo_swept_def config_load_def config_default_def resolve_secrets_def
        config_check_def check_retention_entry_def)
  obtain r where r: "events_tbl ?st = [r]" "row_key r = (''s'', ''k'')"
    by (simp add: demo_disk_def stored_cold_def cold_path_def path_join_def cold_of_db_def Let_def cold_append_encodable
        cold_open_in_memory_def insert_or_ignore_def enc_ev_def enc_props event_key_def)
  have env: "no_fault (h_open_cold (cl_host demo_cli)) 8" "now_ms_utc (cl_clock demo_cli) = Some 5000" "cl_sweep demo_cli = (\<lambda>_. None)"
    by (simp_all add: demo_host_def demo_cli_def now_ms_utc_def i64_max_def)
  have ps: "build_retention_policies demo_swept = Inr [?p]"
    by (simp add: build_retention_policies_def build_policy_def demo_swept_def)
  then have ok: "case build_retention_policies demo_swept of Inl _ \<Rightarrow> True | Inr ps \<Rightarrow> policies_ok ps"
    by (simp add: policies_ok_def i64_max_def)
  have st: "?st = stored_cold demo_disk (cold_path (sv_data_dir \<lparr> sv_data_dir = ''/data'', sv_profile = ''edge'' \<rparr>))"
    "int (length (events_tbl ?st)) \<le> i64_max" by (simp_all add: r i64_max_def)
  have rows: "newest_rows ''s'' ''k'' ?st = [r]" by (simp add: newest_rows_def sorted_pair_def pair_rows_def r)
  have "by_precedence [?p] ''s'' ''k'' = [?p]"
    by (simp add: by_precedence_def policy_matches_def policy_tier_def)
  then have "(let eff = resolve_effective [?p] ''s'' ''k''; rs = [r]
      in age_drops 5000 eff rs + count_drops eff rs + bytes_drops eff rs) = 1"
    by (simp add: resolve_effective_eq age_drops_def count_drops_def bytes_drops_def retain_age_def retain_count_def
        retain_bytes_def Let_def)
  then have "(\<Sum>(s, k) \<in> row_key ` set (events_tbl ?st). let eff = resolve_effective [?p] s k; rs = newest_rows s k ?st
      in age_drops 5000 eff rs + count_drops eff rs + bytes_drops eff rs) = 1"
    by (simp add: r rows)
  then show ?thesis
    using retention_dry_run_reports [OF load env(1) ok env(2,3) st, unfolded ps sum.case] r(1)
    by (cases "retention_dry_run demo_cli ''x'' demo_disk") auto
qed

end
