(* ===== verification/Float32_Bounds.thy ===== *)
theory Float32_Bounds
  imports Hash_Embedder
begin

text \<open>
  Bounds on single-precision results: rounding is monotone and exact on representable magnitudes, so a bound on the
  exact value is a bound on the rounded one. With it, the hashing embedder only produces finite components, and the
  similarity of two of its vectors is a number, whatever the texts and however long they are.
\<close>

section \<open>Rounding\<close>

lemma bit_length_bounds: "n < 2 ^ bit_length n \<and> (n \<noteq> 0 \<longrightarrow> 2 ^ (bit_length n - 1) \<le> n)"
proof (induction n rule: bit_length.induct)
  case (1 n)
  show ?case
  proof (cases "n = 0")
    case True
    then show ?thesis by (simp add: bit_length.simps)
  next
    case False
    let ?h = "n div 2"
    have step: "bit_length n = Suc (bit_length ?h)" using False by (subst bit_length.simps) simp
    have IH: "?h < 2 ^ bit_length ?h" "?h \<noteq> 0 \<longrightarrow> 2 ^ (bit_length ?h - 1) \<le> ?h" using 1 [OF False] by simp_all
    have upper: "n < 2 * 2 ^ bit_length ?h" using IH(1) by linarith
    have lower: "2 ^ bit_length ?h \<le> n"
    proof (cases "?h = 0")
      case True
      then show ?thesis using False by (simp add: bit_length.simps)
    next
      case h: False
      then have "bit_length ?h = Suc (bit_length ?h - 1)" by (subst (asm) neq0_conv) (simp add: bit_length.simps)
      then have "(2 :: nat) ^ bit_length ?h = 2 * 2 ^ (bit_length ?h - 1)" by (metis power_Suc)
      with IH(2) h show ?thesis by linarith
    qed
    show ?thesis using upper lower step by simp
  qed
qed

lemma bit_length_le_iff: "bit_length n \<le> k \<longleftrightarrow> n < 2 ^ k"
proof
  assume "bit_length n \<le> k"
  then have "(2 :: nat) ^ bit_length n \<le> 2 ^ k" by (intro power_increasing) simp_all
  then show "n < 2 ^ k" using bit_length_bounds [of n] by linarith
next
  assume "n < 2 ^ k"
  show "bit_length n \<le> k"
  proof (rule ccontr)
    assume "\<not> bit_length n \<le> k"
    then have k: "k \<le> bit_length n - 1" and "n \<noteq> 0" by (simp, cases "n = 0", simp_all)
    from k have "(2 :: nat) ^ k \<le> 2 ^ (bit_length n - 1)" by (intro power_increasing) simp_all
    with bit_length_bounds [of n] \<open>n \<noteq> 0\<close> \<open>n < 2 ^ k\<close> show False by linarith
  qed
qed

lemma bit_length_mono: "n \<le> m \<Longrightarrow> bit_length n \<le> bit_length m"
  using bit_length_bounds [of m] by (simp add: bit_length_le_iff)

definition round_unit :: "nat \<Rightarrow> nat \<Rightarrow> nat" where
  "round_unit e n = (let q = n div 2 ^ e; r = n mod 2 ^ e
     in if 2 * r > 2 ^ e \<or> (2 * r = 2 ^ e \<and> odd q) then q + 1 else q)"

lemma f32_round_eq:
  "f32_round s n = (let e = max (bit_length n - 24) s in min ((e - s) * 2 ^ 23 + round_unit e n) (255 * 2 ^ 23))"
  by (simp add: f32_round_def round_unit_def Let_def)

lemma round_unit_mono: "n \<le> m \<Longrightarrow> round_unit e n \<le> round_unit e m"
proof -
  assume "n \<le> m"
  then have q: "n div 2 ^ e \<le> m div 2 ^ e" by (rule div_le_mono)
  show ?thesis
  proof (cases "n div 2 ^ e = m div 2 ^ e")
    case True
    have "n mod 2 ^ e \<le> m mod 2 ^ e"
      using \<open>n \<le> m\<close> True div_mult_mod_eq [of n "2 ^ e"] div_mult_mod_eq [of m "2 ^ e"] by (metis add_le_cancel_left)
    then show ?thesis using True by (auto simp: round_unit_def Let_def)
  next
    case False
    then have "n div 2 ^ e + 1 \<le> m div 2 ^ e" using q by simp
    then show ?thesis by (auto simp: round_unit_def Let_def)
  qed
qed

lemma f32_round_mono:
  assumes "n \<le> m"
  shows "f32_round s n \<le> f32_round s m"
proof -
  define e1 e2 where "e1 = max (bit_length n - 24) s" and "e2 = max (bit_length m - 24) s"
  have e: "e1 \<le> e2" using bit_length_mono [OF assms] unfolding e1_def e2_def by linarith
  have "(e1 - s) * 2 ^ 23 + round_unit e1 n \<le> (e2 - s) * 2 ^ 23 + round_unit e2 m"
  proof (cases "e1 = e2")
    case True
    then show ?thesis using round_unit_mono [OF assms] by simp
  next
    case False
    have "n < 2 ^ (24 + e1)" by (simp add: bit_length_le_iff [symmetric] e1_def)
    then have "n div 2 ^ e1 < 2 ^ 24" by (simp add: less_mult_imp_div_less power_add)
    then have 1: "round_unit e1 n \<le> 2 ^ 24" by (simp add: round_unit_def Let_def)
    have e2: "e2 = bit_length m - 24" "s \<le> e1" "e1 < e2" using False e by (auto simp: e1_def e2_def)
    then have "\<not> bit_length m \<le> e2 + 23" by linarith
    then have "2 ^ (e2 + 23) \<le> m" by (simp add: bit_length_le_iff)
    then have "2 ^ 23 \<le> m div 2 ^ e2" by (simp add: power_add less_eq_div_iff_mult_less_eq mult.commute)
    then have 2: "2 ^ 23 \<le> round_unit e2 m" by (simp add: round_unit_def Let_def)
    have "(e1 - s) + 1 \<le> e2 - s" using e2 by simp
    then have "((e1 - s) + 1) * 2 ^ 23 \<le> (e2 - s) * 2 ^ 23" by (rule mult_le_mono1)
    with 1 2 show ?thesis by simp
  qed
  then show ?thesis unfolding f32_round_eq Let_def e1_def [symmetric] e2_def [symmetric] by simp
qed

text \<open>A representable magnitude is rounded to itself.\<close>

lemma f32_round_exact:
  assumes "a < 255 * 2 ^ 23"
  shows "f32_round s (f32_mag a * 2 ^ s) = a"
proof -
  have ea: "f32_exp a = a div 2 ^ 23" using assms by (simp add: f32_exp_def)
  have a: "a = f32_exp a * 2 ^ 23 + f32_man a" by (simp add: ea f32_man_def)
  have man: "f32_man a < 2 ^ 23" by (simp add: f32_man_def)
  show ?thesis
  proof (cases "f32_exp a = 0")
    case True
    have "f32_man a * 2 ^ s < 2 ^ (23 + s)" using man by (simp add: power_add)
    then have "bit_length (f32_man a * 2 ^ s) \<le> 23 + s" by (simp add: bit_length_le_iff)
    then have "max (bit_length (f32_man a * 2 ^ s) - 24) s = s" by simp
    then show ?thesis using True a assms by (simp add: f32_round_eq f32_mag_def round_unit_def)
  next
    case False
    let ?e = "f32_exp a - 1 + s" and ?q = "2 ^ 23 + f32_man a"
    let ?n = "?q * 2 ^ ?e"
    have n: "f32_mag a * 2 ^ s = ?n" using False by (simp only: f32_mag_def if_False power_add mult.assoc)
    have "?n < 2 ^ (24 + ?e)" using man by (simp add: power_add)
    moreover have "\<not> ?n < 2 ^ (23 + ?e)" by (simp add: power_add)
    ultimately have "bit_length ?n = 24 + ?e" using bit_length_le_iff [of ?n "24 + ?e"] bit_length_le_iff [of ?n "23 + ?e"] by linarith
    then have "max (bit_length ?n - 24) s = ?e" by simp
    moreover have "round_unit ?e ?n = ?q" by (simp add: round_unit_def)
    moreover have "(f32_exp a - 1) * 2 ^ 23 + ?q = a" using a False by (cases "f32_exp a") simp_all
    ultimately show ?thesis using assms unfolding n f32_round_eq Let_def by simp
  qed
qed

lemma f32_round_le:
  assumes "n \<le> f32_mag a * 2 ^ s" and "a < 255 * 2 ^ 23"
  shows "f32_round s n \<le> a"
  using f32_round_mono [OF assms(1), of s] f32_round_exact [OF assms(2), of s] by simp

section \<open>Magnitudes\<close>

text \<open>The absolute value is at most that of the non-negative pattern \<open>a\<close>.\<close>

definition f32_within :: "f32 \<Rightarrow> f32 \<Rightarrow> bool" where
  "f32_within a x \<longleftrightarrow> x mod 2 ^ 31 \<le> a"

lemma f32_fields: "f32_exp x = x mod 2 ^ 31 div 2 ^ 23" "f32_man x = x mod 2 ^ 31 mod 2 ^ 23"
proof -
  have "x mod (2 ^ 23 * 2 ^ 8) = 2 ^ 23 * (x div 2 ^ 23 mod 2 ^ 8) + x mod 2 ^ 23" by (rule mod_mult2_eq)
  then show "f32_exp x = x mod 2 ^ 31 div 2 ^ 23" by (simp add: f32_exp_def)
  show "f32_man x = x mod 2 ^ 31 mod 2 ^ 23" unfolding f32_man_def by (rule mod_mod_cancel [symmetric]) simp
qed

lemma f32_mag_abs: "f32_mag (x mod 2 ^ 31) = f32_mag x"
  by (simp add: f32_mag_def f32_fields)

lemma f32_within_finite:
  assumes "f32_within a x" and "a < 255 * 2 ^ 23"
  shows "\<not> f32_is_nan x" and "\<not> f32_is_inf x"
proof -
  have "x mod 2 ^ 31 div 2 ^ 23 < 255" using assms by (simp add: f32_within_def less_mult_imp_div_less)
  then show "\<not> f32_is_nan x" "\<not> f32_is_inf x" by (simp_all add: f32_is_nan_def f32_is_inf_def f32_fields)
qed

lemma f32_within_mag:
  assumes "f32_within a x" and "a < 255 * 2 ^ 23"
  shows "f32_mag x \<le> f32_mag a"
proof (rule ccontr)
  let ?y = "x mod 2 ^ 31"
  assume "\<not> f32_mag x \<le> f32_mag a"
  then have lt: "f32_mag a < f32_mag ?y" by (simp only: f32_mag_abs not_le)
  then have "f32_round 0 (f32_mag a * 2 ^ 0) \<le> f32_round 0 (f32_mag ?y * 2 ^ 0)" by (intro f32_round_mono) simp
  moreover have "?y \<le> a" "?y < 255 * 2 ^ 23" using assms by (simp_all add: f32_within_def)
  ultimately have "?y = a" using f32_round_exact [of a 0] f32_round_exact [of ?y 0] assms(2) by simp
  with lt show False by simp
qed

lemma f32_within_mono: "f32_within a x \<Longrightarrow> a \<le> b \<Longrightarrow> f32_within b x"
  by (simp add: f32_within_def)

lemma f32_within_pack: "b \<le> a \<Longrightarrow> a < 255 * 2 ^ 23 \<Longrightarrow> f32_within a (f32_pack neg b)"
  by (simp add: f32_within_def f32_pack_def)

text \<open>A sum, product or quotient is bounded by the rounded bound of the exact result.\<close>

lemma f32_within_add:
  assumes "f32_within a x" and "f32_within b y" and "a < 255 * 2 ^ 23" and "b < 255 * 2 ^ 23"
    and "f32_round 0 (f32_mag a + f32_mag b) \<le> c" and "c < 255 * 2 ^ 23"
  shows "f32_within c (f32_add x y)"
proof -
  let ?v = "f32_val x + f32_val y"
  have "nat \<bar>?v\<bar> \<le> f32_mag x + f32_mag y" unfolding f32_val_def by (cases "f32_sign x"; cases "f32_sign y") simp_all
  also have "\<dots> \<le> f32_mag a + f32_mag b" using assms(1-4) by (intro add_mono f32_within_mag)
  finally have "f32_round 0 (nat \<bar>?v\<bar>) \<le> c" using f32_round_mono assms(5) le_trans by blast
  then show ?thesis using assms f32_within_finite [of a x] f32_within_finite [of b y]
    by (simp add: f32_add_def Let_def f32_within_pack)
qed

lemma f32_within_mul:
  assumes "f32_within a x" and "f32_within b y" and "a < 255 * 2 ^ 23" and "b < 255 * 2 ^ 23"
    and "f32_round 149 (f32_mag a * f32_mag b) \<le> c" and "c < 255 * 2 ^ 23"
  shows "f32_within c (f32_mul x y)"
proof -
  have "f32_mag x * f32_mag y \<le> f32_mag a * f32_mag b" using assms(1-4) by (intro mult_le_mono f32_within_mag)
  then have "f32_round 149 (f32_mag x * f32_mag y) \<le> c" using f32_round_mono assms(5) le_trans by blast
  then show ?thesis using assms f32_within_finite [of a x] f32_within_finite [of b y]
    by (simp add: f32_mul_def f32_within_pack)
qed

lemma f32_within_div:
  assumes "f32_within a x" and "a < 255 * 2 ^ 23" and "\<not> f32_is_nan y" and "0 < m" and "m \<le> f32_mag y"
    and "f32_round 2 (2 * (f32_mag a * 2 ^ 150 div m) + 1) \<le> c" and "c < 255 * 2 ^ 23"
  shows "f32_within c (f32_div x y)"
proof -
  let ?n = "f32_mag x * 2 ^ 150"
  have "?n div f32_mag y \<le> ?n div m" using assms(4,5) by (intro div_le_mono2)
  also have "\<dots> \<le> f32_mag a * 2 ^ 150 div m" using f32_within_mag [OF assms(1,2)] by (intro div_le_mono mult_le_mono1)
  finally have "with_sticky (?n div f32_mag y) r \<le> 2 * (f32_mag a * 2 ^ 150 div m) + 1" for r
    by (simp add: with_sticky_def of_bool_def)
  then have "f32_round 2 (with_sticky (?n div f32_mag y) r) \<le> c" for r using f32_round_mono assms(6) le_trans by blast
  then show ?thesis using assms f32_within_finite [of a x]
    by (simp add: f32_div_def Let_def f32_within_pack)
qed

section \<open>The hashing embedder\<close>

text \<open>
  A byte contributes at most 1.0. The sum of such contributions stays at most \<open>2^24\<close>: from there on adding 1.0
  rounds back to \<open>2^24\<close>.
\<close>

lemma f32_mag_consts:
  "f32_mag 0 = 0" "f32_mag 0x3F800000 = 2 ^ 149" "f32_mag (151 * 2 ^ 23) = 2 ^ 173" "f32_mag (174 * 2 ^ 23) = 2 ^ 196"
  "f32_mag (221 * 2 ^ 23) = 2 ^ 243" "f32_mag (245 * 2 ^ 23) = 2 ^ 267" "f32_mag f32_epsilon = 2 ^ 126"
  by (simp_all add: f32_mag_def f32_exp_def f32_man_def f32_epsilon_def)

lemma f32_round_consts:
  "f32_round 2 (2 * 2 ^ 150 + 1) = 0x3F800000"
  "f32_round 0 (2 ^ 173 + 2 ^ 149) = 151 * 2 ^ 23"
  "f32_round 2 (2 * (2 ^ 173 * 2 ^ 150 div 2 ^ 126) + 1) = 174 * 2 ^ 23"
  "f32_round 149 (2 ^ 196 * 2 ^ 196) = 221 * 2 ^ 23"
  "f32_round 0 (2 ^ 267 + 2 ^ 243) = 245 * 2 ^ 23"
  by (simp_all add: f32_round_def Let_def)

lemma byte_contribution:
  assumes "b < 256"
  shows "f32_within 0x3F800000 (f32_div (f32_sub (f32_from_u8 b) 0x42FF0000) 0x42FF0000)"
proof -
  let ?B = "0x42FF0000 :: f32" and ?x = "f32_from_u8 b"
  have mag: "f32_mag ?B = 255 * 2 ^ 148" by (simp add: f32_mag_def f32_exp_def f32_man_def)
  have mag2: "f32_mag 0x437F0000 = 255 * 2 ^ 149" by (simp add: f32_mag_def f32_exp_def f32_man_def)
  have "b * 2 ^ 149 \<le> f32_mag 0x437F0000 * 2 ^ 0" using assms by (simp add: mag2)
  then have x: "?x \<le> 0x437F0000" unfolding f32_from_u8_def by (rule f32_round_le) simp
  then have wx: "f32_within 0x437F0000 ?x" by (simp add: f32_within_def)
  have nx: "\<not> f32_is_nan ?x" "\<not> f32_is_inf ?x" "\<not> f32_sign ?x" "f32_mag ?x \<le> 255 * 2 ^ 149"
    using f32_within_finite [OF wx] f32_within_mag [OF wx] x by (simp_all add: mag2 f32_sign_def)
  have neg: "f32_neg ?B = 2 ^ 31 + ?B" by (simp add: f32_neg_def)
  have nb: "\<not> f32_is_nan (2 ^ 31 + ?B)" "\<not> f32_is_inf (2 ^ 31 + ?B)" "f32_val (2 ^ 31 + ?B) = - (255 * 2 ^ 148)"
    by (simp_all add: f32_is_nan_def f32_is_inf_def f32_val_def f32_sign_def f32_mag_def f32_exp_def f32_man_def)
  let ?v = "f32_val ?x + f32_val (2 ^ 31 + ?B)"
  have "f32_val ?x = int (f32_mag ?x)" using nx(3) by (simp add: f32_val_def)
  moreover have "int (f32_mag ?x) \<le> 2 * (255 * 2 ^ 148)" using nx(4) by simp
  ultimately have "\<bar>?v\<bar> \<le> 255 * 2 ^ 148" unfolding nb(3) by linarith
  then have "nat \<bar>?v\<bar> \<le> f32_mag ?B * 2 ^ 0" by (simp add: mag)
  then have "f32_round 0 (nat \<bar>?v\<bar>) \<le> ?B" by (rule f32_round_le) simp
  then have "f32_within ?B (f32_sub ?x ?B)"
    unfolding f32_sub_def neg f32_add_def Let_def using nx nb(1,2) by (simp add: f32_within_pack)
  moreover have "\<not> f32_is_nan ?B" by (simp add: f32_is_nan_def f32_exp_def)
  moreover have "255 * 2 ^ 148 * 2 ^ 150 div (255 * 2 ^ 148 :: nat) = 2 ^ 150" by simp
  ultimately show ?thesis
    using f32_within_div [of ?B "f32_sub ?x ?B" ?B "f32_mag ?B" "0x3F800000"] f32_round_consts(1) unfolding mag
    by simp
qed

definition raw_ok :: "f32 list \<Rightarrow> bool" where
  "raw_ok v \<longleftrightarrow> list_all (f32_within (151 * 2 ^ 23)) v"

definition unit_ok :: "f32 list \<Rightarrow> bool" where
  "unit_ok v \<longleftrightarrow> list_all (f32_within (174 * 2 ^ 23)) v"

lemma add_byte_raw: "raw_ok v \<Longrightarrow> b < 256 \<Longrightarrow> raw_ok (add_byte dim token (i, b) v)"
proof -
  assume v: "raw_ok v" and b: "b < 256"
  let ?j = "(i + length token) mod dim" and ?c = "f32_div (f32_sub (f32_from_u8 b) 0x42FF0000) 0x42FF0000"
  have "f32_within (151 * 2 ^ 23) (f32_add (v ! ?j) ?c)" if "?j < length v"
    by (rule f32_within_add [of "151 * 2 ^ 23", OF _ byte_contribution [OF b]])
      (use v that in \<open>simp_all only: raw_ok_def list_all_length f32_mag_consts f32_round_consts\<close>, simp_all)
  then show ?thesis using v
    by (cases "?j < length v")
      (auto simp: add_byte_def raw_ok_def Let_def list_all_iff list_update_beyond
        dest!: subsetD [OF set_update_subset_insert])
qed

lemma add_token_raw: "raw_ok v \<Longrightarrow> raw_ok (add_token digest dim token v)"
proof -
  have "raw_ok (fold (add_byte dim token) ps v)" if "raw_ok v" "\<forall>(i, b) \<in> set ps. b < 256" for ps v
    using that by (induction ps arbitrary: v) (auto simp: add_byte_raw)
  moreover have "\<forall>(i, b) \<in> set (List.enumerate 0 (map of_char bs)). b < (256 :: nat)" for bs :: string
    by (auto simp: in_set_enumerate_eq)
  ultimately show "raw_ok v \<Longrightarrow> raw_ok (add_token digest dim token v)" by (simp add: add_token_def)
qed

lemma normalise_unit:
  assumes "raw_ok v"
  shows "unit_ok (normalise v)"
proof -
  have small: "unit_ok v" using assms by (auto simp: raw_ok_def unit_ok_def list_all_iff f32_within_def)
  have "f32_within (174 * 2 ^ 23) (f32_div x n)" if "x \<in> set v" "f32_gt n f32_epsilon" for x n
  proof -
    have eps: "\<not> f32_is_nan f32_epsilon" "f32_val f32_epsilon = int (f32_mag f32_epsilon)"
      by (simp_all add: f32_is_nan_def f32_exp_def f32_man_def f32_val_def f32_sign_def f32_epsilon_def)
    have n: "\<not> f32_is_nan n" using that(2) by (auto simp: f32_gt_def partial_cmp_def split: if_split_asm)
    have "f32_val f32_epsilon < f32_val n" using that(2) n eps(1) by (simp add: f32_gt_eq)
    then have "f32_mag f32_epsilon \<le> f32_mag n" unfolding eps(2) by (simp add: f32_val_def split: if_split_asm)
    then show ?thesis
      by (intro f32_within_div [of "151 * 2 ^ 23" x n "2 ^ 126"])
        (use assms that(1) n in \<open>simp_all only: raw_ok_def list_all_iff f32_mag_consts f32_round_consts\<close>, simp_all)
  qed
  then show ?thesis using small by (simp add: normalise_def Let_def unit_ok_def list_all_iff)
qed

lemma hash_embed_unit: "unit_ok (hash_embed digest dim txt)"
proof -
  have "raw_ok (fold (add_token digest dim) ts v)" if "raw_ok v" for ts v
    using that by (induction ts arbitrary: v) (auto simp: add_token_raw)
  moreover have "raw_ok (replicate dim 0)" by (simp add: raw_ok_def list_all_iff f32_within_def)
  ultimately show ?thesis unfolding hash_embed_def by (intro normalise_unit)
qed

text \<open>The similarity of two such vectors is a finite number.\<close>

lemma cosine_finite:
  assumes "unit_ok a" and "unit_ok b"
  shows "f32_within (245 * 2 ^ 23) (cosine_similarity a b)"
proof -
  have "f32_within (245 * 2 ^ 23) (fold (\<lambda>(x, y) dot. f32_add dot (f32_mul x y)) ps d)"
    if "\<forall>(x, y) \<in> set ps. f32_within (174 * 2 ^ 23) x \<and> f32_within (174 * 2 ^ 23) y" "f32_within (245 * 2 ^ 23) d" for ps d
    using that
  proof (induction ps arbitrary: d)
    case (Cons p ps)
    obtain x y where p: "p = (x, y)" by (cases p)
    have "f32_within (221 * 2 ^ 23) (f32_mul x y)"
      by (rule f32_within_mul [of "174 * 2 ^ 23" _ "174 * 2 ^ 23"])
        (use Cons.prems(1) p in \<open>simp_all only: f32_mag_consts f32_round_consts\<close>, simp_all)
    then have "f32_within (245 * 2 ^ 23) (f32_add d (f32_mul x y))"
      by (rule f32_within_add [OF Cons.prems(2)]) (simp_all only: f32_mag_consts f32_round_consts, simp_all)
    with Cons p show ?case by simp
  qed simp
  moreover have "\<forall>(x, y) \<in> set (zip a b). f32_within (174 * 2 ^ 23) x \<and> f32_within (174 * 2 ^ 23) y"
    using assms by (auto simp: unit_ok_def list_all_iff dest: set_zip_leftD set_zip_rightD)
  ultimately show ?thesis unfolding cosine_similarity_def by (simp add: f32_within_def)
qed

section \<open>Every stored vector is an embedding\<close>

definition rows_embedded :: "embedder \<Rightarrow> vector_index \<Rightarrow> bool" where
  "rows_embedded emb vi \<longleftrightarrow> (\<forall>m \<in> set (vi_rows vi). \<exists>t. m_vector m = emb_embed emb t)"

lemma vector_append_rows_embedded:
  assumes "rows_embedded emb vi" and "\<forall>r \<in> set rs. \<exists>t. vr_vector r = emb_embed emb t"
  shows "rows_embedded emb (fst (vector_append c db rs vi))"
proof -
  have "\<exists>t. m_vector m = emb_embed emb t" if "m \<in> set (fold mirror_put rs (vi_rows vi))" for m
    using that assms fold_mirror_put_subset [of rs "vi_rows vi"] by (fastforce simp: rows_embedded_def mem_row_of_def)
  then show ?thesis using assms(1) by (auto simp: vector_append_def rows_embedded_def split: option.split)
qed

lemma build_records_embedded: "r \<in> fst ` set (build_records c emb b) \<Longrightarrow> \<exists>t. vr_vector r = emb_embed emb t"
  by (auto simp: build_records_def List.map_filter_def build_record_def Let_def split: sum.split_asm prod.split_asm)

lemma embed_batch_rows_embedded:
  assumes "rows_embedded emb (fst s)"
  shows "rows_embedded emb (fst (embed_batch c emb db b s))"
proof -
  have "fst (embed_batch c emb db b s) = fst (vector_append c db (map fst (build_records c emb b)) (fst s))"
    by (auto simp: embed_batch_def Let_def split_beta split: sum.split)
  then show ?thesis using vector_append_rows_embedded [OF assms] build_records_embedded by simp
qed

text \<open>The task's steps keep it, whatever the engine and the channel do.\<close>

lemma embedder_step_rows_embedded:
  assumes "rows_embedded (et_embedder t) (et_index t)"
  shows "et_embedder (embedder_step c db i t) = et_embedder t
    \<and> rows_embedded (et_embedder t) (et_index (embedder_step c db i t))"
proof -
  have flush: "et_embedder (embedder_flush c db t) = et_embedder t
      \<and> rows_embedded (et_embedder t) (et_index (embedder_flush c db t))"
    if "rows_embedded (et_embedder t) (et_index t)" for t
    using embed_batch_rows_embedded [of "et_embedder t" "(et_index t, et_metrics t)"] that
    by (simp add: embedder_flush_def split_beta)
  show ?thesis
    using assms flush [of t]
      flush [of "embedder_push e t" for e]
    by (cases i) (auto simp: Let_def embedder_push_def)
qed

lemma embedder_run_rows_embedded:
  assumes "rows_embedded (et_embedder t) (et_index t)"
  shows "rows_embedded (et_embedder t) (et_index (embedder_run c is t))"
proof -
  have "et_embedder (embedder_run c is t) = et_embedder t \<and> rows_embedded (et_embedder t) (et_index (embedder_run c is t))"
    using assms
  proof (induction "is" arbitrary: t)
    case (Cons i "is")
    obtain db x where i: "i = (db, x)" by (cases i)
    have step: "et_embedder (embedder_step c db x t) = et_embedder t"
        "rows_embedded (et_embedder t) (et_index (embedder_step c db x t))"
      using embedder_step_rows_embedded [OF Cons.prems] by simp_all
    show ?case using Cons.IH [of "embedder_step c db x t"] step by (simp add: embedder_run_def i)
  qed (simp add: embedder_run_def)
  then show ?thesis by simp
qed

section \<open>Properties\<close>

text \<open>
  C18. Similarity scores are numbers: the hashing embedder fills an index, whatever is embedded, however long the
  texts are and whichever commits fail; every component of every stored vector is finite, and so is the score of any
  query text against any of them: a search never meets a \<open>NaN\<close>, whose comparison the ranking would treat as equal.
\<close>

theorem hash_scores_finite:
  assumes "rows_embedded (hash_embedder digest dim) idx"
  shows "\<forall>m \<in> set (vi_rows (et_index (embedder_run c is (embedder_task_new (hash_embedder digest dim) idx cfg)))).
    length (m_vector m) = dim
    \<and> list_all (\<lambda>x. \<not> f32_is_nan x \<and> \<not> f32_is_inf x) (m_vector m)
    \<and> \<not> f32_is_nan (score (hit_of (hash_embed digest dim query) m))
    \<and> \<not> f32_is_inf (score (hit_of (hash_embed digest dim query) m))"
proof
  fix m
  let ?t = "embedder_task_new (hash_embedder digest dim) idx cfg"
  assume m: "m \<in> set (vi_rows (et_index (embedder_run c is ?t)))"
  have "rows_embedded (hash_embedder digest dim) (et_index (embedder_run c is ?t))"
    using embedder_run_rows_embedded [of ?t c "is"] assms by (simp add: embedder_task_new_def)
  then obtain t where t: "m_vector m = hash_embed digest dim t"
    using m by (auto simp: rows_embedded_def hash_embedder_def)
  have "length (hash_embed digest dim t) = dim"
    using hash_embedder_ok [of digest dim] by (simp add: embedder_ok_def hash_embedder_def)
  moreover have "list_all (\<lambda>x. \<not> f32_is_nan x \<and> \<not> f32_is_inf x) (hash_embed digest dim t)"
    using hash_embed_unit [of digest dim t] f32_within_finite [of "174 * 2 ^ 23"]
    by (auto simp: unit_ok_def list_all_iff)
  ultimately show "length (m_vector m) = dim
    \<and> list_all (\<lambda>x. \<not> f32_is_nan x \<and> \<not> f32_is_inf x) (m_vector m)
    \<and> \<not> f32_is_nan (score (hit_of (hash_embed digest dim query) m))
    \<and> \<not> f32_is_inf (score (hit_of (hash_embed digest dim query) m))"
    using f32_within_finite [OF cosine_finite [OF hash_embed_unit [of digest dim query] hash_embed_unit [of digest dim t]]] t
    by (simp add: hit_of_def)
qed

theorem hash_scores_finite_witness:
  "let digest = (\<lambda>b. take 32 (b @ replicate 32 CHR 0x00));
       rows = vi_rows (et_index (embedder_run demo_codec [(None, Recv (sample_event 1 ''s'' ''k'' 7)), (None, Closed)]
         (embedder_task_new (hash_embedder digest 4) vector_open_in_memory embedder_config_default)))
   in length rows = 1 \<and> (\<forall>m \<in> set rows. \<not> f32_is_nan (score (hit_of (hash_embed digest 4 ''k'') m)))"
  (is "let digest = ?d; rows = vi_rows (et_index (embedder_run demo_codec ?is (?t digest))) in _")
proof -
  have "rows_embedded (hash_embedder ?d 4) vector_open_in_memory"
    by (simp add: rows_embedded_def vector_open_in_memory_def)
  from hash_scores_finite [OF this, of demo_codec ?is embedder_config_default "''k''"]
  have "\<forall>m \<in> set (vi_rows (et_index (embedder_run demo_codec ?is (?t ?d)))).
      \<not> f32_is_nan (score (hit_of (hash_embed ?d 4 ''k'') m))" by blast
  moreover have "length (vi_rows (et_index (embedder_run demo_codec ?is (?t ?d)))) = 1"
    by (simp add: embedder_run_def embedder_task_new_def embedder_push_def embedder_flush_def embed_batch_def
        build_records_def build_record_def List.map_filter_def vector_append_def vector_open_in_memory_def
        mirror_put_def Let_def demo_codec_def sample_event_def embedder_config_default_def
        EMBED_TRUNCATE_BYTES_def split_beta)
  ultimately show ?thesis unfolding Let_def by blast
qed

end
