(* ===== verification/Spec2Isabelle.thy ===== *)
theory Spec2Isabelle
  imports Run_Bounds Run_Shutdown Run_Restart Metrics_Text Cli Float32_Bounds
begin

text \<open>
  Verification of percept, an event store for sensors with an MCP interface (Rust workspace, \<open>src/crates\<close>).

  \<^bold>\<open>The program.\<close> Producers send events over HTTP, WebSocket or MQTT. A request is authenticated, checked against
  its token's scope, size cap and rate, and its events go onto a bounded bus. The normalizer takes
  them off, fills in ids, sequence numbers and validation flags, and fans each canonical event out: to an
  in-memory ring per (source, kind), and over bounded channels to the cold writer, to the embedder task and to the forwarder. The
  cold writer batches events into SQLite; the embedder task turns them into vectors in a second
  database with an in-memory mirror; the forwarder sends them to another node through the client SDK. A
  retention task prunes both databases. The MCP tools read the rings, the store and the vectors, and fan out to peers.

  \<^bold>\<open>Theories\<close> (each opens with what it holds; an arrow of the import graph is a call of the program):
  \<^item> \<open>Prelude\<close>: strings as UTF-8 byte lists, integer widths and saturation, durations in nanoseconds, results as sums, the
    parts of Rust's library the sources use, and the shared list lemmas and theorem collections.
  \<^item> \<open>Core_Types\<close> (\<open>core/src\<close>): events, descriptors and their merge, kind references.
  \<^item> \<open>Hot_Ring\<close> (\<open>store/src/hot_ring.rs\<close>).
  \<^item> \<open>Cold_Store\<close> (\<open>store/src/cold/store.rs\<close>), with its invariant in \<open>Cold_Invariant\<close>, the refinement of the two tables by a
    first-write-wins log and a current-state map in \<open>Cold_Refinement\<close>, window queries in \<open>Cold_Window\<close>, sweeps in \<open>Cold_Sweep\<close>;
    \<open>Cold_Cursor\<close> (\<open>cold/cursor.rs\<close>); \<open>Store_Files\<close>: opening both databases, with the locale \<open>db_file\<close> of what pragmas and migrations keep.
  \<^item> \<open>Batch_Loop\<close>: the contract of the four buffer-and-flush tasks as the locale \<open>batch_task\<close>, interpreted for each of them in
    \<open>Cold_Writer\<close> (\<open>cold/writer.rs\<close>), \<open>Embedding\<close> (\<open>vector/task.rs\<close>), \<open>Forwarder\<close> (\<open>percept/src/forwarder.rs\<close>) and \<open>Client_Sdk\<close> (\<open>client/src\<close>).
  \<^item> \<open>Float32\<close>, \<open>Vector_Index\<close>, \<open>Vector_Facts\<close> (\<open>store/src/vector/index.rs\<close>) and \<open>Hash_Embedder\<close> (\<open>vector/embedder.rs\<close>): IEEE single precision on bit patterns, the
    index and its top-k search, the embedder the server runs; \<open>Float32_Bounds\<close>: rounding is monotone, and what that means for its vectors.
  \<^item> \<open>Retention_Policy\<close>, \<open>Retention_Sweep\<close> (\<open>store/src/retention\<close>); \<open>Dry_Run\<close>: the report of a dry run against the sweep.
  \<^item> \<open>Globs\<close>, \<open>Metrics\<close>, \<open>Ingest_Auth\<close>, \<open>Normalizer\<close>, \<open>Http_Ingest\<close>, \<open>Mqtt\<close> (\<open>ingest/src\<close>: filters, counters and the channel, tokens, normalizer
    with schema index, the HTTP and WebSocket handlers, the MQTT path); \<open>Mqtt_Connect\<close> (\<open>mqtt/subscriber.rs\<close>: connecting and subscribing);
    \<open>Metrics_Text\<close>: the pages \<open>/metrics\<close> and \<open>/healthz\<close>, every renderer, and a reader of the exposition format as their specification.
  \<^item> \<open>Pipeline\<close> (\<open>ingest/src/pipeline.rs\<close>): the wiring, and the interleavings of all parties as lists of actions.
  \<^item> \<open>Mcp_Tools\<close>, \<open>Mcp_Router\<close> (\<open>percept/src/mcp\<close>: registry, peers and tools; the \<open>POST /mcp\<close> handler with protocol and dispatch).
  \<^item> \<open>Config\<close> (\<open>percept/src/config\<close>) and \<open>Server\<close> (\<open>percept/src/server.rs\<close>, \<open>sweeper.rs\<close>): from the file to the server's parts, the
    stores being opened on a disk.
  \<^item> \<open>Server_Run\<close> (\<open>server.rs\<close>): the running server as a transition system; \<open>Run_Bounds\<close>, \<open>Run_Origin\<close>, \<open>Run_Shutdown\<close>, \<open>Run_Restart\<close>: what
    holds in every state it can reach.
  \<^item> \<open>Cli\<close> (\<open>percept/src/cli.rs\<close>, \<open>main.rs\<close>): the commands, what they print and how they end.

  \<^bold>\<open>How code becomes definitions.\<close> A struct is a record and an enum a datatype with the source's constructors; an operation that takes \<open>&self\<close>
  with interior locks returns the new state; a \<open>Result\<close> is a sum with the error on the left, and every early return is a
  branch. Unsigned integers are natural numbers and \<open>i64\<close> an integer, with saturation, checked products and wrap-around written
  out where the code relies on them, a ULID is a 128-bit word; counters are unbounded. Tasks are folds of a step function over the
  inputs \<open>select!\<close> yields; the scheduler is the freedom of those lists. The running server is the inductive relation \<open>serves\<close>, one rule per
  kind of turn of a party, and its reachable states are those of \<open>reaches\<close>. Code outside \<open>src/\<close> is a parameter, one
  record per library: \<open>codec\<close> (serde and ULID text), \<open>cursor_codec\<close> (base64, CBOR, BLAKE3), \<open>glob_lib\<close>, \<open>schema_lib\<close>, \<open>http_lib\<close>, \<open>mqtt_lib\<close>, \<open>peer_lib\<close>, \<open>rpc_lib\<close>, \<open>wire\<close>, \<open>server\<close> (an HTTP
  server's answers), \<open>config_env\<close>, \<open>host\<close>, \<open>cli_env\<close>, \<open>world\<close> (those around a running server); the iteration order of a hash map is one too (\<open>hash_order\<close>); failures of SQLite are arguments (\<open>sql_error option\<close> for one call, \<open>tx_fault\<close> for any one
  call of the transaction of an append, \<open>open_faults\<close> for the statements of an opening), clocks and fresh
  ids too. What is assumed of a library is a named predicate (\<open>ulid_codec\<close>, \<open>encodable\<close>, \<open>cursor_laws\<close>, \<open>embedder_ok\<close>, \<open>hash_order_ok\<close>), and the witnesses instantiate it with the
  concrete \<open>demo_\<close> instances.

  \<^bold>\<open>What is shown.\<close> Storage: append refines first-write-wins insertion and a newest-wins map, is idempotent and, whichever call of its transaction fails, all or nothing; window walks return
  every selected event once and in order; sweeps keep exactly what the limits retain; the mirror equals the
  vector table, also after reopening; search returns the best hits, and with the server's embedder every score is a number; opening the
  databases loses nothing, whatever fails; a dry run reports the sum of what the limits cover, a sweep drops the largest of them. Ingest: admission, per-source sequence numbers, fan-out, WebSocket equals HTTP; and
  end to end, under any interleaving, the log holds every admitted event except those the drop counter counts. Tasks: nothing is lost or reordered between
  channel and sink, and what failed is counted. MQTT: topic matching against the rule of the specification (which it extends to topics that begin with a dollar sign), templates, and when a subscriber gets to its event loop. Metrics: the page reads back as the counters, unless a
  name needs escaping, and then it can be forged. Clients: the retry loop ends with the first conclusive answer. MCP: who is
  answered, and with which codes, and whose rows a federated answer holds. Start-up: exactly
  which configurations start, which tokens are known with which scope, and which events are embedded. The whole server, in every reachable
  state: its queues are bounded, what it serves was admitted or stored before, it can be restarted on what it leaves with the same data, and when
  \<open>run\<close> returns: never while a subscriber holds a sender, and possibly before what was accepted is stored.

  \<^bold>\<open>Bounds and termination.\<close> Every function is total; loops are structural recursion or have a measure. Only the client's walk over
  window pages (\<open>window_walk\<close>) takes a number of calls, and its theorem shows that one more than the number of stored events is enough. Sizes the code bounds (ring length, page size, batch size, channel capacity, retry count) are the configuration's own, and
  arbitrary in the theorems.

  \<^bold>\<open>Not modelled.\<close> The argument parser, logging, sockets and routing (clap, tracing, axum) and the abortion of the remaining tasks when \<open>run\<close> returns (tokio); the broker's side of a
  connection (rumqttc); the text of SQL statements, each of which is its meaning on the tables; the random source of fresh ids. In the
  running server a turn is atomic: a request, an MCP call and a retention pass each see the others' effects before or after it, not in between
  (the normalizer's part of a request is an input of it). What the calls on an open store leave in its tables is what its file holds
  (\<open>stores_written\<close>); the machine losing power is not modelled. The crate
  roots, which only declare modules. The rest of the uncovered lines of \<open>src/crates\<close> are test modules.
\<close>

end
